(* ===== verification/Prelude.thy ===== *)
theory Prelude
  imports
    Main
    "HOL-Library.AList"
    "HOL-Library.Word"
    "HOL-Library.Char_ord"
    "HOL-Library.List_Lexorder"
begin

text \<open>
  Shared vocabulary of the development: Go strings, Go maps and the few functions of the
  Go standard library (\<^verbatim>\<open>strings\<close>, \<^verbatim>\<open>strconv\<close>, \<^verbatim>\<open>fmt\<close>, \<^verbatim>\<open>net\<close>, \<^verbatim>\<open>slices\<close>) the
  program calls, with the lemmas the components share.

  A Go string is a byte sequence, so it is modelled by the library's \<open>string\<close>, a list of
  8-bit characters. A Go map is an association list read with \<open>map_of\<close>, written with
  \<open>AList.update\<close> and \<open>AList.delete\<close>: it is finite by construction and can be ranged over.
  The order in which Go ranges over a map is unspecified; operations that range over one take
  the order as an argument.
\<close>

named_theorems go_map \<open>reading and writing Go maps\<close>
named_theorems go_string \<open>the strings functions\<close>

type_synonym ('k, 'v) gomap = "('k \<times> 'v) list"

text \<open>A time instant or a duration, in nanoseconds.\<close>
type_synonym nanos = int

section \<open>Go maps\<close>

abbreviation m_empty :: "('k, 'v) gomap" where
  "m_empty \<equiv> []"

abbreviation m_put :: "'k \<Rightarrow> 'v \<Rightarrow> ('k, 'v) gomap \<Rightarrow> ('k, 'v) gomap" where
  "m_put k v m \<equiv> AList.update k v m"

abbreviation m_del :: "'k \<Rightarrow> ('k, 'v) gomap \<Rightarrow> ('k, 'v) gomap" where
  "m_del k m \<equiv> AList.delete k m"

text \<open>Reading a \<^verbatim>\<open>map[string]string\<close> at an absent key yields the zero value.\<close>

definition m_str :: "('k, string) gomap \<Rightarrow> 'k \<Rightarrow> string" where
  "m_str m k = (case map_of m k of None \<Rightarrow> [] | Some v \<Rightarrow> v)"

section \<open>The strings package\<close>

definition has_prefix :: "string \<Rightarrow> string \<Rightarrow> bool" where
  "has_prefix s p \<longleftrightarrow> take (length p) s = p"

definition has_suffix :: "string \<Rightarrow> string \<Rightarrow> bool" where
  "has_suffix s p \<longleftrightarrow> has_prefix (rev s) (rev p)"

definition trim_prefix :: "string \<Rightarrow> string \<Rightarrow> string" where
  "trim_prefix s p = (if has_prefix s p then drop (length p) s else s)"

definition trim_suffix :: "string \<Rightarrow> string \<Rightarrow> string" where
  "trim_suffix s p = (if has_suffix s p then take (length s - length p) s else s)"

fun contains :: "string \<Rightarrow> string \<Rightarrow> bool" where
  "contains [] sub = (sub = [])"
| "contains (c # cs) sub = (has_prefix (c # cs) sub \<or> contains cs sub)"

text \<open>\<^verbatim>\<open>strings.Split\<close> on a one-byte separator; the split of the empty string is one empty
  field.\<close>

fun split_on :: "char \<Rightarrow> string \<Rightarrow> string list" where
  "split_on sep [] = [[]]"
| "split_on sep (c # cs) =
     (if c = sep then [] # split_on sep cs
      else (case split_on sep cs of [] \<Rightarrow> [[c]] | w # ws \<Rightarrow> (c # w) # ws))"

fun join :: "string \<Rightarrow> string list \<Rightarrow> string" where
  "join sep [] = []"
| "join sep [x] = x"
| "join sep (x # y # ys) = x @ sep @ join sep (y # ys)"

text \<open>\<^verbatim>\<open>strings.Cut\<close>: the text after the first occurrence of the separator, if it occurs.\<close>

fun cut_after :: "string \<Rightarrow> string \<Rightarrow> string option" where
  "cut_after [] sep = (if sep = [] then Some [] else None)"
| "cut_after (c # cs) sep =
     (if has_prefix (c # cs) sep then Some (drop (length sep) (c # cs)) else cut_after cs sep)"

text \<open>The text after the last occurrence of a byte (\<^verbatim>\<open>s[strings.LastIndexByte(s, c)+1:]\<close>,
  which is all of \<open>s\<close> when the byte does not occur).\<close>

definition after_last :: "char \<Rightarrow> string \<Rightarrow> string" where
  "after_last c s = rev (takeWhile (\<lambda>x. x \<noteq> c) (rev s))"

text \<open>\<^verbatim>\<open>path/filepath\<close> on Unix. The elements of a path without the empty ones and dots, and with each double
  dot resolved against the element before it, which is kept in reverse; a rooted path has nothing above
  its root.\<close>

fun clean_elements :: "bool \<Rightarrow> string list \<Rightarrow> string list \<Rightarrow> string list" where
  "clean_elements rooted acc [] = rev acc"
| "clean_elements rooted acc (e # es) =
     (if e = [] \<or> e = ''.'' then clean_elements rooted acc es
      else if e = ''..'' then
        (if acc \<noteq> [] \<and> hd acc \<noteq> ''..'' then clean_elements rooted (tl acc) es
         else clean_elements rooted (if rooted then acc else e # acc) es)
      else clean_elements rooted (e # acc) es)"

definition path_clean :: "string \<Rightarrow> string" where
  "path_clean p =
     (let rooted = has_prefix p ''/'';
          body = join ''/'' (clean_elements rooted [] (split_on (CHR ''/'') p))
      in if rooted then CHR ''/'' # body else if body = [] then ''.'' else body)"

definition path_join :: "string list \<Rightarrow> string" where
  "path_join es = (case filter (\<lambda>e. e \<noteq> []) es of [] \<Rightarrow> [] | es' \<Rightarrow> path_clean (join ''/'' es'))"

definition path_base :: "string \<Rightarrow> string" where
  "path_base p =
     (if p = [] then ''.''
      else let p' = rev (dropWhile (\<lambda>c. c = CHR ''/'') (rev p))
           in if p' = [] then ''/'' else after_last (CHR ''/'') p')"

text \<open>The UTF-8 encodings of the code points \<^verbatim>\<open>unicode.IsSpace\<close> accepts.\<close>

definition space_encodings :: "string list" where
  "space_encodings =
     [[CHR 0x20], [CHR 0x09], [CHR 0x0A], [CHR 0x0B], [CHR 0x0C], [CHR 0x0D],
      [CHR 0xC2, CHR 0x85], [CHR 0xC2, CHR 0xA0], [CHR 0xE1, CHR 0x9A, CHR 0x80],
      [CHR 0xE2, CHR 0x80, CHR 0x80], [CHR 0xE2, CHR 0x80, CHR 0x81],
      [CHR 0xE2, CHR 0x80, CHR 0x82], [CHR 0xE2, CHR 0x80, CHR 0x83],
      [CHR 0xE2, CHR 0x80, CHR 0x84], [CHR 0xE2, CHR 0x80, CHR 0x85],
      [CHR 0xE2, CHR 0x80, CHR 0x86], [CHR 0xE2, CHR 0x80, CHR 0x87],
      [CHR 0xE2, CHR 0x80, CHR 0x88], [CHR 0xE2, CHR 0x80, CHR 0x89],
      [CHR 0xE2, CHR 0x80, CHR 0x8A], [CHR 0xE2, CHR 0x80, CHR 0xA8],
      [CHR 0xE2, CHR 0x80, CHR 0xA9], [CHR 0xE2, CHR 0x80, CHR 0xAF],
      [CHR 0xE2, CHR 0x81, CHR 0x9F], [CHR 0xE3, CHR 0x80, CHR 0x80]]"

text \<open>Drops leading members of a list of (non-empty) encodings, as often as one matches.\<close>

function strip_leading :: "string list \<Rightarrow> string \<Rightarrow> string" where
  "strip_leading encs s =
     (case find (\<lambda>e. e \<noteq> [] \<and> has_prefix s e) encs of
        None \<Rightarrow> s
      | Some e \<Rightarrow> strip_leading encs (drop (length e) s))"
  by pat_completeness auto
termination
proof (relation "measure (\<lambda>(encs, s). length s)", goal_cases)
  case 1
  show ?case by simp
next
  case (2 encs s e)
  then have "e \<noteq> []" and "take (length e) s = e"
    by (auto simp: find_Some_iff has_prefix_def)
  then have "s \<noteq> []" by auto
  with \<open>e \<noteq> []\<close> show ?case by simp
qed

declare strip_leading.simps [simp del]

definition trim_space :: "string \<Rightarrow> string" where
  "trim_space s =
     rev (strip_leading (map rev space_encodings) (rev (strip_leading space_encodings s)))"

text \<open>
  \<^verbatim>\<open>strings.ToLower\<close> as far as ASCII results go: the ASCII letters, and the two other code
  points whose lower case is ASCII (U+0130 and U+212A). Every other non-ASCII code point is
  mapped by Go to a non-ASCII one and is left as it is here, so comparing the result with an
  ASCII literal, or searching it for one, gives what Go gives.
\<close>

fun to_lower :: "string \<Rightarrow> string" where
  "to_lower [] = []"
| "to_lower (c # cs) =
     (if CHR ''A'' \<le> c \<and> c \<le> CHR ''Z'' then char_of (of_char c + 32 :: nat) # to_lower cs
      else if c = CHR 0xC4 \<and> take 1 cs = [CHR 0xB0] then CHR ''i'' # to_lower (drop 1 cs)
      else if c = CHR 0xE2 \<and> take 2 cs = [CHR 0x84, CHR 0xAA] then CHR ''k'' # to_lower (drop 2 cs)
      else c # to_lower cs)"

section \<open>Numbers in decimal\<close>

definition digit_char :: "nat \<Rightarrow> char" where
  "digit_char d = char_of (48 + d)"

definition is_digit :: "char \<Rightarrow> bool" where
  "is_digit c \<longleftrightarrow> CHR ''0'' \<le> c \<and> c \<le> CHR ''9''"

definition digit_val :: "char \<Rightarrow> nat" where
  "digit_val c = of_char c - 48"

fun show_nat :: "nat \<Rightarrow> string" where
  "show_nat n = (if n < 10 then [digit_char n] else show_nat (n div 10) @ [digit_char (n mod 10)])"

declare show_nat.simps [simp del]

text \<open>\<^verbatim>\<open>fmt\<close>'s \<open>%d\<close> and \<^verbatim>\<open>strconv.Itoa\<close>.\<close>

definition show_int :: "int \<Rightarrow> string" where
  "show_int i = (if i < 0 then CHR ''-'' # show_nat (nat (- i)) else show_nat (nat i))"

fun decimal_value :: "nat \<Rightarrow> string \<Rightarrow> nat" where
  "decimal_value acc [] = acc"
| "decimal_value acc (c # cs) = decimal_value (10 * acc + digit_val c) cs"

text \<open>\<^verbatim>\<open>strconv.ParseUint(s, 10, bits)\<close>: decimal digits only, and a value below
  \<open>2 ^ bits\<close>; both kinds of failure are \<open>None\<close>.\<close>

definition parse_uint :: "nat \<Rightarrow> string \<Rightarrow> nat option" where
  "parse_uint bits s =
     (if s \<noteq> [] \<and> list_all is_digit s \<and> decimal_value 0 s < 2 ^ bits
      then Some (decimal_value 0 s) else None)"

text \<open>\<^verbatim>\<open>strconv.Atoi\<close> on a 64-bit platform: an optional sign, then decimal digits.\<close>

definition atoi :: "string \<Rightarrow> int option" where
  "atoi s =
     (let neg = take 1 s = ''-'';
          ds = (if neg \<or> take 1 s = ''+'' then drop 1 s else s);
          v = (if neg then - int (decimal_value 0 ds) else int (decimal_value 0 ds))
      in if ds \<noteq> [] \<and> list_all is_digit ds \<and> - (2 ^ 63) \<le> v \<and> v < 2 ^ 63 then Some v else None)"

text \<open>\<^verbatim>\<open>net.JoinHostPort\<close>: a host with a colon (an IPv6 literal) is bracketed.\<close>

definition join_host_port :: "string \<Rightarrow> string \<Rightarrow> string" where
  "join_host_port host port =
     (if CHR '':'' \<in> set host then ''['' @ host @ '']:'' @ port else host @ '':'' @ port)"

section \<open>Lemmas: maps\<close>

lemma map_of_m_put [simp, go_map]: "map_of (m_put k v m) = (map_of m)(k \<mapsto> v)"
  by (rule update_conv')

lemma map_of_m_del [simp, go_map]: "map_of (m_del k m) = (map_of m)(k := None)"
  by (rule delete_conv')

lemma keys_of_map_of: "fst ` set m = dom (map_of m)"
  by (simp add: dom_map_of_conv_image_fst)

lemma m_put_distinct: "distinct (map fst m) \<Longrightarrow> distinct (map fst (m_put k v m))"
  by (rule distinct_update)

lemma m_del_distinct: "distinct (map fst m) \<Longrightarrow> distinct (map fst (m_del k m))"
  by (rule distinct_delete)

text \<open>Deleting a list of keys, as a range loop that deletes as it goes.\<close>

lemma map_of_fold_m_del:
  "map_of (fold m_del ks m) = (map_of m) |` (- set ks)"
  by (induction ks arbitrary: m) (auto simp: restrict_map_def fun_eq_iff)

lemma fold_m_del_distinct: "distinct (map fst m) \<Longrightarrow> distinct (map fst (fold m_del ks m))"
  by (induction ks arbitrary: m) (auto simp: distinct_delete)

section \<open>Lemmas: strings\<close>

lemma has_prefix_iff [go_string]: "has_prefix s p \<longleftrightarrow> (\<exists>r. s = p @ r)"
  unfolding has_prefix_def by (metis append_eq_conv_conj)

lemma has_prefix_Nil [simp]: "has_prefix s []"
  by (simp add: has_prefix_def)

lemma has_suffix_iff [go_string]: "has_suffix s p \<longleftrightarrow> (\<exists>r. s = r @ p)"
proof -
  have "has_suffix s p \<longleftrightarrow> (\<exists>r. rev s = rev p @ r)"
    by (simp add: has_suffix_def has_prefix_iff)
  also have "\<dots> \<longleftrightarrow> (\<exists>r. s = rev r @ p)"
    by (metis rev_append rev_rev_ident)
  also have "\<dots> \<longleftrightarrow> (\<exists>r. s = r @ p)"
    by (metis rev_rev_ident)
  finally show ?thesis .
qed

lemma contains_iff [go_string]: "contains s sub \<longleftrightarrow> (\<exists>a b. s = a @ sub @ b)"
proof (induction s)
  case Nil
  then show ?case by auto
next
  case (Cons c cs)
  have "(\<exists>a b. c # cs = a @ sub @ b) \<longleftrightarrow> has_prefix (c # cs) sub \<or> (\<exists>a b. cs = a @ sub @ b)"
    unfolding has_prefix_iff by (metis append_Cons append_Nil append_eq_Cons_conv)
  with Cons show ?case by simp
qed

lemma split_on_nonempty [simp]: "split_on sep s \<noteq> []"
  by (induction s) (auto split: list.split)

lemma join_Cons: "xs \<noteq> [] \<Longrightarrow> join sep (x # xs) = x @ sep @ join sep xs"
  by (cases xs) auto

text \<open>Splitting and joining on one byte are inverse where the fields do not hold it.\<close>

lemma join_split_on: "join [sep] (split_on sep s) = s"
proof (induction s)
  case Nil
  then show ?case by simp
next
  case (Cons c cs)
  show ?case
  proof (cases "c = sep")
    case True
    with Cons show ?thesis by (simp add: join_Cons)
  next
    case False
    obtain w ws where w: "split_on sep cs = w # ws"
      by (cases "split_on sep cs") auto
    with Cons False show ?thesis by (cases ws) auto
  qed
qed

lemma split_on_append_sep: "sep \<notin> set w \<Longrightarrow> split_on sep (w @ sep # s) = w # split_on sep s"
  by (induction w) auto

lemma split_on_no_sep: "sep \<notin> set w \<Longrightarrow> split_on sep w = [w]"
  by (induction w) auto

lemma split_on_join:
  "xs \<noteq> [] \<Longrightarrow> \<forall>x\<in>set xs. sep \<notin> set x \<Longrightarrow> split_on sep (join [sep] xs) = xs"
proof (induction xs)
  case Nil
  then show ?case by simp
next
  case (Cons x xs)
  then show ?case
    by (cases xs) (simp_all add: split_on_no_sep split_on_append_sep)
qed

lemma split_on_fields: "w \<in> set (split_on sep s) \<Longrightarrow> sep \<notin> set w"
proof (induction s arbitrary: w)
  case Nil
  then show ?case by simp
next
  case (Cons c cs)
  then show ?case by (cases "split_on sep cs") (auto split: if_splits)
qed

text \<open>Paths.\<close>

lemma clean_elements_snoc:
  "n \<noteq> [] \<Longrightarrow> n \<noteq> ''.'' \<Longrightarrow> n \<noteq> ''..'' \<Longrightarrow> clean_elements rooted acc (es @ [n]) = clean_elements rooted acc es @ [n]"
  by (induction rooted acc es rule: clean_elements.induct) auto

lemma split_on_snoc: "sep \<notin> set n \<Longrightarrow> split_on sep (s @ sep # n) = split_on sep s @ [n]"
proof (induction s)
  case (Cons c s)
  then show ?case by (cases "split_on sep s") (auto simp: split_on_no_sep)
qed (simp add: split_on_no_sep)

lemma join_snoc: "es \<noteq> [] \<Longrightarrow> join sep (es @ [n]) = join sep es @ sep @ n"
proof (induction es)
  case (Cons e es)
  then show ?case by (cases "es = []") (simp_all add: join_Cons)
qed simp

lemma after_last_none: "c \<notin> set n \<Longrightarrow> after_last c n = n"
proof -
  assume "c \<notin> set n"
  then have "\<forall>x\<in>set (rev n). x \<noteq> c" by auto
  then have "takeWhile (\<lambda>x. x \<noteq> c) (rev n) = rev n" unfolding takeWhile_eq_all_conv .
  then show "after_last c n = n" unfolding after_last_def by (metis rev_rev_ident)
qed

lemma after_last_append: "c \<notin> set n \<Longrightarrow> after_last c (xs @ c # n) = n"
  using after_last_none [of c n] by (simp add: after_last_def takeWhile_tail)

lemma path_base_plain:
  assumes "n \<noteq> []" "CHR ''/'' \<notin> set n"
  shows "path_base n = n" "path_base (xs @ CHR ''/'' # n) = n"
proof -
  have "rev (dropWhile (\<lambda>c. c = CHR ''/'') (rev (ys @ n))) = ys @ n" for ys
  proof -
    obtain n' c where "n = n' @ [c]" using assms(1) by (cases n rule: rev_cases) auto
    with assms(2) show ?thesis by auto
  qed
  from this [of "[]"] this [of "xs @ ''/''"] show "path_base n = n" "path_base (xs @ CHR ''/'' # n) = n"
    using assms by (simp_all add: path_base_def after_last_none after_last_append)
qed

section \<open>Lemmas: trimming\<close>

definition no_leading :: "string list \<Rightarrow> string \<Rightarrow> bool" where
  "no_leading encs s \<longleftrightarrow> (\<forall>e\<in>set encs. e \<noteq> [] \<longrightarrow> \<not> has_prefix s e)"

lemma strip_leading_id: "no_leading encs s \<Longrightarrow> strip_leading encs s = s"
  by (subst strip_leading.simps)
    (metis (mono_tags, lifting) find_None_iff no_leading_def option.simps(4))

lemma strip_leading_spec: "no_leading encs (strip_leading encs s) \<and> (\<exists>p. s = p @ strip_leading encs s)"
proof (induction encs s rule: strip_leading.induct)
  case (1 encs s)
  show ?case
  proof (cases "find (\<lambda>e. e \<noteq> [] \<and> has_prefix s e) encs")
    case None
    then have "no_leading encs s" by (auto simp: no_leading_def find_None_iff)
    then show ?thesis by (simp add: strip_leading_id)
  next
    case (Some e)
    from Some 1 have IH: "no_leading encs (strip_leading encs (drop (length e) s))"
      "\<exists>p. drop (length e) s = p @ strip_leading encs (drop (length e) s)"
      by auto
    have "\<exists>p. s = p @ strip_leading encs (drop (length e) s)"
      using IH(2) by (metis append.assoc append_take_drop_id)
    with IH(1) Some show ?thesis by (subst (1 2) strip_leading.simps) simp
  qed
qed

lemma no_leading_prefix: "no_leading encs (p @ q) \<Longrightarrow> no_leading encs p"
  by (auto simp: no_leading_def has_prefix_iff)

text \<open>A string without a space at either end is what \<^verbatim>\<open>TrimSpace\<close> returns, and is left alone
  by it.\<close>

definition trimmed :: "string \<Rightarrow> bool" where
  "trimmed s \<longleftrightarrow> no_leading space_encodings s \<and> no_leading (map rev space_encodings) (rev s)"

lemma trim_space_id [simp]: "trimmed s \<Longrightarrow> trim_space s = s"
  by (simp add: trimmed_def trim_space_def strip_leading_id)

lemma trimmed_Nil [simp]: "trimmed []"
  by (simp add: trimmed_def no_leading_def has_prefix_def)

lemma trimmed_trim_space [simp]: "trimmed (trim_space s)"
proof -
  define a where "a = strip_leading space_encodings s"
  define b where "b = strip_leading (map rev space_encodings) (rev a)"
  have a: "no_leading space_encodings a"
    by (simp add: a_def strip_leading_spec)
  have b: "no_leading (map rev space_encodings) b" and "\<exists>p. rev a = p @ b"
    by (simp_all add: b_def strip_leading_spec)
  then obtain p where "a = rev b @ rev p" by (metis rev_append rev_rev_ident)
  with a have "no_leading space_encodings (rev b)" by (metis no_leading_prefix)
  with b show ?thesis by (simp add: trimmed_def trim_space_def a_def b_def)
qed

lemma trim_space_idem [simp]: "trim_space (trim_space s) = trim_space s"
  by simp

lemma trim_space_subset: "set (trim_space s) \<subseteq> set s"
proof -
  define a where "a = strip_leading space_encodings s"
  have "\<exists>p. s = p @ a" and "\<exists>p. rev a = p @ strip_leading (map rev space_encodings) (rev a)"
    by (simp_all add: a_def strip_leading_spec)
  then show ?thesis unfolding trim_space_def a_def [symmetric]
    by (metis Un_upper2 order.trans set_append set_rev)
qed

section \<open>Lemmas: decimal numbers\<close>

lemma of_char_digit_char: "d < 10 \<Longrightarrow> of_char (digit_char d) = 48 + d"
  by (simp add: digit_char_def)

lemma is_digit_digit_char [simp]: "d < 10 \<Longrightarrow> is_digit (digit_char d)"
  by (simp add: is_digit_def less_eq_char_def of_char_digit_char)

lemma digit_val_digit_char [simp]: "d < 10 \<Longrightarrow> digit_val (digit_char d) = d"
  by (simp add: digit_val_def of_char_digit_char)

lemma show_nat_nonempty [simp]: "show_nat n \<noteq> []"
  by (subst show_nat.simps) simp

lemma decimal_value_append:
  "decimal_value acc (xs @ [c]) = 10 * decimal_value acc xs + digit_val c"
  by (induction xs arbitrary: acc) auto

lemma show_nat_digits: "list_all is_digit (show_nat n)"
proof (induction n rule: show_nat.induct)
  case (1 n)
  then show ?case by (subst show_nat.simps) simp
qed

lemma decimal_value_show_nat [simp]: "decimal_value 0 (show_nat n) = n"
proof (induction n rule: show_nat.induct)
  case (1 n)
  then show ?case by (subst show_nat.simps) (simp add: decimal_value_append)
qed

lemma show_nat_inject [simp]: "show_nat m = show_nat n \<longleftrightarrow> m = n"
  by (metis decimal_value_show_nat)

lemma unat16_bound: "unat (w :: 16 word) < 65536"
proof -
  have "unat w < 2 ^ LENGTH(16)" by (rule unsigned_less)
  then show ?thesis by simp
qed

text \<open>Printing and parsing a decimal number are inverse.\<close>

lemma parse_uint_show_nat: "n < 2 ^ bits \<Longrightarrow> parse_uint bits (show_nat n) = Some n"
  by (simp add: parse_uint_def show_nat_digits)

lemma parse_uint_bound: "parse_uint bits s = Some n \<Longrightarrow> n < 2 ^ bits"
  by (auto simp: parse_uint_def split: if_splits)

end
