(* ===== verification/Labels.thy ===== *)
theory Labels
  imports Prelude
begin

text \<open>
  The \<^verbatim>\<open>labels\<close> package (\<^verbatim>\<open>labels/labels.go\<close>): the \<^verbatim>\<open>tsserve.*\<close> vocabulary parsed into a
  service definition. A nil label map is \<open>None\<close>; an error return is \<open>Inl\<close> of the error.
\<close>

section \<open>Data\<close>

definition Prefix :: string where
  "Prefix = ''tsserve.''"

definition Enable :: string where
  "Enable = Prefix @ ''enable''"

definition Service :: string where
  "Service = Prefix @ ''service''"

definition Port :: string where
  "Port = Prefix @ ''port''"

definition Network :: string where
  "Network = Prefix @ ''network''"

definition Scheme :: string where
  "Scheme = Prefix @ ''scheme''"

definition Caps :: string where
  "Caps = Prefix @ ''caps''"

lemmas label_names = Prefix_def Enable_def Service_def Port_def Network_def Scheme_def Caps_def

record ServiceDef =
  sd_service :: string
  sd_port :: "16 word"
  sd_network :: string
  sd_scheme :: string
  sd_caps :: "string list"

datatype label_error =
    ErrDisabled
  | MissingLabel string
  | NotAService string
  | InvalidPort string
  | InvalidScheme string

type_synonym labels = "(string, string) gomap option"

section \<open>Operations\<close>

definition ValidateService :: "string \<Rightarrow> label_error option" where
  "ValidateService svc =
     (if svc = [] then Some (MissingLabel Service)
      else if \<not> has_prefix svc ''svc:'' then Some (NotAService svc)
      else None)"

definition ParseCaps :: "string \<Rightarrow> string list" where
  "ParseCaps raw = filter (\<lambda>c. c \<noteq> []) (map trim_space (split_on (CHR '','') raw))"

definition Parse :: "labels \<Rightarrow> label_error + ServiceDef" where
  "Parse labels =
     (case labels of
        None \<Rightarrow> Inl ErrDisabled
      | Some ls \<Rightarrow>
          if m_str ls Enable \<noteq> ''true'' then Inl ErrDisabled
          else let svc = m_str ls Service in
          (case ValidateService svc of
             Some e \<Rightarrow> Inl e
           | None \<Rightarrow>
               let portStr = m_str ls Port in
               if portStr = [] then Inl (MissingLabel Port)
               else (case parse_uint 16 portStr of
                       None \<Rightarrow> Inl (InvalidPort portStr)
                     | Some port \<Rightarrow>
                         if port = 0 then Inl (InvalidPort portStr)
                         else let network = (if m_str ls Network = [] then ''bridge''
                                             else m_str ls Network);
                                  scheme = (if m_str ls Scheme = [] then ''http''
                                            else m_str ls Scheme)
                              in if scheme \<noteq> ''http'' \<and> scheme \<noteq> ''https''
                                 then Inl (InvalidScheme scheme)
                                 else Inr \<lparr>sd_service = svc, sd_port = of_nat port,
                                           sd_network = network, sd_scheme = scheme,
                                           sd_caps = ParseCaps (m_str ls Caps)\<rparr>)))"

section \<open>Properties\<close>

definition valid_def :: "ServiceDef \<Rightarrow> bool" where
  "valid_def d \<longleftrightarrow>
     has_prefix (sd_service d) ''svc:'' \<and> sd_port d \<noteq> 0 \<and> sd_network d \<noteq> [] \<and>
     sd_scheme d \<in> {''http'', ''https''} \<and>
     (\<forall>c\<in>set (sd_caps d). c \<noteq> [] \<and> trimmed c \<and> CHR '','' \<notin> set c)"

lemma ValidateService_None: "ValidateService svc = None \<longleftrightarrow> has_prefix svc ''svc:''"
  by (auto simp: ValidateService_def has_prefix_def)

lemma ParseCaps_entries:
  assumes "c \<in> set (ParseCaps raw)"
  shows "c \<noteq> [] \<and> trimmed c \<and> CHR '','' \<notin> set c"
proof -
  from assms obtain w where "w \<in> set (split_on (CHR '','') raw)" and c: "c = trim_space w" "c \<noteq> []"
    by (auto simp: ParseCaps_def)
  then have "CHR '','' \<notin> set w" using split_on_fields by blast
  with c trim_space_subset [of w] show ?thesis by auto
qed

lemma ParseCaps_join:
  assumes "\<forall>c\<in>set caps. c \<noteq> [] \<and> trimmed c \<and> CHR '','' \<notin> set c"
  shows "ParseCaps (join '','' caps) = caps"
proof (cases "caps = []")
  case True
  then show ?thesis by (simp add: ParseCaps_def)
next
  case False
  with assms have "split_on (CHR '','') (join '','' caps) = caps"
    by (intro split_on_join) auto
  moreover have "map trim_space caps = caps"
    using assms by (intro map_idI) auto
  ultimately show ?thesis
    using assms by (auto simp: ParseCaps_def filter_id_conv)
qed

text \<open>The label map a valid definition is written as.\<close>

definition render :: "ServiceDef \<Rightarrow> labels" where
  "render d = Some [(Enable, ''true''), (Service, sd_service d), (Port, show_nat (unat (sd_port d))),
                    (Network, sd_network d), (Scheme, sd_scheme d), (Caps, join '','' (sd_caps d))]"

definition rendered :: "ServiceDef \<Rightarrow> (string, string) gomap" where
  "rendered d = the (render d)"

lemma m_str_rendered:
  "m_str (rendered d) Enable = ''true''" "m_str (rendered d) Service = sd_service d"
  "m_str (rendered d) Port = show_nat (unat (sd_port d))" "m_str (rendered d) Network = sd_network d"
  "m_str (rendered d) Scheme = sd_scheme d" "m_str (rendered d) Caps = join '','' (sd_caps d)"
  by (simp_all add: rendered_def render_def m_str_def label_names)

lemma Parse_InrD:
  assumes "Parse ls = Inr d"
  obtains m port where "ls = Some m" "m_str m Enable = ''true''"
    "has_prefix (m_str m Service) ''svc:''" "parse_uint 16 (m_str m Port) = Some port" "port \<noteq> 0"
    "d = \<lparr>sd_service = m_str m Service, sd_port = of_nat port,
          sd_network = (if m_str m Network = [] then ''bridge'' else m_str m Network),
          sd_scheme = (if m_str m Scheme = [] then ''http'' else m_str m Scheme),
          sd_caps = ParseCaps (m_str m Caps)\<rparr>"
    "sd_scheme d \<in> {''http'', ''https''}"
  using assms
  by (auto simp: Parse_def Let_def ValidateService_None split: option.splits if_splits)

text \<open>Every definition \<^verbatim>\<open>labels.Parse\<close> accepts is well formed: the service carries the
  \<^verbatim>\<open>svc:\<close> prefix, the port is the label's number and not 0, the network is set, the scheme is
  http or https, and every capability is a non-empty trimmed comma-free name.\<close>

lemma Parse_valid:
  assumes "Parse ls = Inr d"
  shows "valid_def d \<and> (\<exists>m. ls = Some m \<and> m_str m Enable = ''true'' \<and>
           parse_uint 16 (m_str m Port) = Some (unat (sd_port d)))"
  using assms
proof (rule Parse_InrD)
  fix m port
  assume *: "ls = Some m" "m_str m Enable = ''true''" "has_prefix (m_str m Service) ''svc:''"
    "parse_uint 16 (m_str m Port) = Some port" "port \<noteq> 0"
    "d = \<lparr>sd_service = m_str m Service, sd_port = of_nat port,
          sd_network = (if m_str m Network = [] then ''bridge'' else m_str m Network),
          sd_scheme = (if m_str m Scheme = [] then ''http'' else m_str m Scheme),
          sd_caps = ParseCaps (m_str m Caps)\<rparr>"
    "sd_scheme d \<in> {''http'', ''https''}"
  from *(4) have "port < 2 ^ 16" by (rule parse_uint_bound)
  then have port: "unat (of_nat port :: 16 word) = port"
    by (simp add: unat_of_nat)
  with *(5) have "(of_nat port :: 16 word) \<noteq> 0" by (metis unat_0)
  with * port show ?thesis by (auto simp: valid_def_def dest: ParseCaps_entries)
qed

definition demo_labels :: labels where
  "demo_labels = Some [(Enable, ''true''), (Service, ''svc:web''), (Port, ''80'')]"

definition demo_service :: ServiceDef where
  "demo_service = \<lparr>sd_service = ''svc:web'', sd_port = 80, sd_network = ''bridge'', sd_scheme = ''http'',
     sd_caps = []\<rparr>"

lemma demo_parse: "Parse demo_labels = Inr demo_service"
  by (simp add: demo_labels_def demo_service_def Parse_def m_str_def label_names ValidateService_def
      has_prefix_def parse_uint_def is_digit_def less_eq_char_def digit_val_def ParseCaps_def)

lemma Parse_valid_witness: "Parse demo_labels = Inr demo_service \<and> valid_def demo_service"
  using demo_parse Parse_valid [OF demo_parse] by simp

text \<open>C36: parsing inverts writing. The label map written for a well-formed definition is parsed
  back to exactly that definition.\<close>

theorem Parse_render:
  assumes "valid_def d"
  shows "Parse (render d) = Inr d"
proof -
  from assms have port: "unat (sd_port d) \<noteq> 0" by (simp add: valid_def_def unat_eq_0)
  have uint: "parse_uint 16 (show_nat (unat (sd_port d))) = Some (unat (sd_port d))"
    using unat16_bound [of "sd_port d"] by (intro parse_uint_show_nat) simp
  from assms have svc: "ValidateService (sd_service d) = None"
    and set: "sd_network d \<noteq> []" "sd_scheme d \<noteq> []"
    and scheme: "sd_scheme d = ''http'' \<or> sd_scheme d = ''https''"
    by (auto simp: valid_def_def ValidateService_None)
  have caps: "ParseCaps (join '','' (sd_caps d)) = sd_caps d"
    using assms by (intro ParseCaps_join) (simp add: valid_def_def)
  have "render d = Some (rendered d)" by (simp add: rendered_def render_def)
  with port uint svc set scheme caps show ?thesis
    by (auto simp: Parse_def m_str_rendered Let_def)
qed

theorem Parse_render_witness:
  "valid_def \<lparr>sd_service = ''svc:a'', sd_port = 8080, sd_network = ''n'', sd_scheme = ''https'',
     sd_caps = [''x'', ''y'']\<rparr> \<and>
   Parse (render \<lparr>sd_service = ''svc:a'', sd_port = 8080, sd_network = ''n'',
     sd_scheme = ''https'', sd_caps = [''x'', ''y'']\<rparr>) =
   Inr \<lparr>sd_service = ''svc:a'', sd_port = 8080, sd_network = ''n'', sd_scheme = ''https'',
     sd_caps = [''x'', ''y'']\<rparr>"
proof -
  have "valid_def \<lparr>sd_service = ''svc:a'', sd_port = 8080, sd_network = ''n'',
     sd_scheme = ''https'', sd_caps = [''x'', ''y'']\<rparr>"
    by (simp add: valid_def_def has_prefix_def trimmed_def no_leading_def space_encodings_def)
  with Parse_render [OF this] show ?thesis by simp
qed

end
