(* ===== verification/Pool.thy ===== *)
theory Pool
  imports Prelude
begin

text \<open>
  Backends and backend pools (\<^verbatim>\<open>proxy/pool.go\<close>). A pool is the member list the last
  mutation published, in pool order, and the 64-bit round-robin position. Mutation builds a
  fresh list and publishes it (copy-on-write), so one value of the list is what a request sees
  for as long as it walks the pool. The invoker of a function backend is described by the
  function ARN and qualifier it invokes (\<^verbatim>\<open>FunctionInvoker\<close> of \<^verbatim>\<open>proxy/invoker.go\<close>).
\<close>

section \<open>Data\<close>

record Origin =
  o_account :: string
  o_cluster :: string
  o_region :: string

record FunctionInvoker =
  fi_arn :: string
  fi_qualifier :: string

record backend =
  b_key :: string
  b_addr :: string
  b_registeredAt :: nanos
  b_origin :: Origin
  b_invoker :: "FunctionInvoker option"
  b_target :: string

record backendPool =
  members :: "backend list"
  nextPos :: "64 word"

section \<open>Operations\<close>

definition backendURL :: "string \<Rightarrow> string \<Rightarrow> string" where
  "backendURL scheme addr = scheme @ ''://'' @ addr"

definition targetURL :: "backend \<Rightarrow> string \<Rightarrow> string" where
  "targetURL b scheme =
     (if b_invoker b \<noteq> None then b_target b else backendURL scheme (b_addr b))"

definition newBackendPool :: backendPool where
  "newBackendPool = \<lparr>members = [], nextPos = 0\<rparr>"

definition pool_list :: "backendPool \<Rightarrow> backend list" where
  "pool_list p = members p"

definition pool_add :: "backendPool \<Rightarrow> backend \<Rightarrow> backendPool \<times> nat" where
  "pool_add p b = (let next = pool_list p @ [b] in (p\<lparr>members := next\<rparr>, length next))"

definition pool_remove :: "backendPool \<Rightarrow> string \<Rightarrow> backendPool \<times> nat" where
  "pool_remove p key =
     (let next = filter (\<lambda>b. b_key b \<noteq> key) (pool_list p) in (p\<lparr>members := next\<rparr>, length next))"

text \<open>\<^verbatim>\<open>rotation\<close> advances the position only when there is a member to assign.\<close>

definition rotation :: "backendPool \<Rightarrow> backendPool \<times> backend list \<times> nat" where
  "rotation p =
     (let ms = pool_list p in
      if length ms = 0 then (p, [], 0)
      else let p' = p\<lparr>nextPos := nextPos p + 1\<rparr>;
               pos = nextPos p' - 1
           in (p', ms, unat (pos mod of_nat (length ms))))"

text \<open>A run of \<open>n\<close> requests: the indices they are assigned, in order.\<close>

fun rotations :: "nat \<Rightarrow> backendPool \<Rightarrow> nat list" where
  "rotations 0 p = []"
| "rotations (Suc n) p = (case rotation p of (p', _, i) \<Rightarrow> i # rotations n p')"

section \<open>Lemmas\<close>

definition pool_keys :: "backendPool \<Rightarrow> string list" where
  "pool_keys p = map b_key (members p)"

lemma pool_keys_new [simp]: "pool_keys newBackendPool = []"
  by (simp add: pool_keys_def newBackendPool_def)

lemma members_new [simp]: "members newBackendPool = []"
  by (simp add: newBackendPool_def)

lemma pool_add_simps [simp]:
  "members (fst (pool_add p b)) = members p @ [b]"
  "nextPos (fst (pool_add p b)) = nextPos p"
  "snd (pool_add p b) = Suc (length (members p))"
  by (simp_all add: pool_add_def pool_list_def Let_def)

lemma pool_remove_simps [simp]:
  "members (fst (pool_remove p k)) = filter (\<lambda>b. b_key b \<noteq> k) (members p)"
  "nextPos (fst (pool_remove p k)) = nextPos p"
  "snd (pool_remove p k) = length (filter (\<lambda>b. b_key b \<noteq> k) (members p))"
  by (simp_all add: pool_remove_def pool_list_def Let_def)

lemma pool_keys_add [simp]: "pool_keys (fst (pool_add p b)) = pool_keys p @ [b_key b]"
  by (simp add: pool_keys_def)

lemma pool_keys_remove [simp]:
  "pool_keys (fst (pool_remove p k)) = filter (\<lambda>x. x \<noteq> k) (pool_keys p)"
  by (simp add: pool_keys_def filter_map comp_def)

lemma pool_add_eq: "pool_add p b = (p\<lparr>members := members p @ [b]\<rparr>, Suc (length (members p)))"
  by (simp add: pool_add_def pool_list_def)

lemma pool_remove_eq: "pool_remove p k = (p\<lparr>members := filter (\<lambda>b. b_key b \<noteq> k) (members p)\<rparr>,
    length (filter (\<lambda>b. b_key b \<noteq> k) (members p)))"
  by (simp add: pool_remove_def pool_list_def Let_def)

lemma pool_keys_members [simp]: "pool_keys (p\<lparr>members := ms\<rparr>) = map b_key ms"
  by (simp add: pool_keys_def)

lemma rotation_empty: "members p = [] \<Longrightarrow> rotation p = (p, [], 0)"
  by (simp add: rotation_def pool_list_def)

lemma unat_word_mod_length:
  fixes w :: "64 word"
  assumes "n < 2 ^ 64"
  shows "unat (w mod of_nat n) = unat w mod n"
proof -
  have "unat (of_nat n :: 64 word) = n"
    using assms by (simp add: unat_of_nat)
  then show ?thesis by (simp add: unat_mod)
qed

lemma rotation_nonempty:
  assumes "members p \<noteq> []" and "length (members p) < 2 ^ 64"
  shows "rotation p =
    (p\<lparr>nextPos := nextPos p + 1\<rparr>, members p, unat (nextPos p) mod length (members p))"
  using assms by (simp add: rotation_def pool_list_def Let_def unat_word_mod_length)

lemma rotations_members:
  assumes "members p \<noteq> []" and "length (members p) < 2 ^ 64"
    and "unat (nextPos p) + n \<le> 2 ^ 64"
  shows "rotations n p = map (\<lambda>i. i mod length (members p)) [unat (nextPos p) ..< unat (nextPos p) + n]"
  using assms
proof (induction n arbitrary: p)
  case 0
  then show ?case by simp
next
  case (Suc n)
  let ?p' = "p\<lparr>nextPos := nextPos p + 1\<rparr>"
  show ?case
  proof (cases n)
    case 0
    then show ?thesis using Suc.prems by (simp add: rotation_nonempty)
  next
    case (Suc m)
    with Suc.prems have "unat (nextPos p) + 1 < 2 ^ 64" by simp
    then have nxt: "unat (nextPos p + 1) = Suc (unat (nextPos p))"
      by (simp add: unat_word_ariths)
    have "rotations n ?p' =
        map (\<lambda>i. i mod length (members p)) [Suc (unat (nextPos p)) ..< Suc (unat (nextPos p)) + n]"
      using Suc.IH [of ?p'] Suc.prems nxt by simp
    moreover have "[unat (nextPos p) ..< unat (nextPos p) + Suc n] =
        unat (nextPos p) # [Suc (unat (nextPos p)) ..< Suc (unat (nextPos p)) + n]"
      by (subst upt_conv_Cons) simp_all
    ultimately show ?thesis
      using Suc.prems by (simp add: rotation_nonempty del: upt_Suc)
  qed
qed

lemma count_list_distinct_mem: "distinct xs \<Longrightarrow> x \<in> set xs \<Longrightarrow> count_list xs x = 1"
  by (induction xs) (auto simp: count_list_0_iff)

text \<open>A block of \<open>n\<close> consecutive numbers meets every residue modulo \<open>n\<close> exactly once.\<close>

lemma count_residues_step:
  fixes n :: nat
  assumes "0 < n"
  shows "count_list (map (\<lambda>i. i mod n) [Suc s ..< Suc s + n]) r =
         count_list (map (\<lambda>i. i mod n) [s ..< s + n]) r"
proof -
  have "[s ..< s + n] = s # [Suc s ..< s + n]" using assms by (simp add: upt_conv_Cons)
  moreover have "[Suc s ..< Suc s + n] = [Suc s ..< s + n] @ [s + n]"
    using assms by (simp add: upt_Suc_append)
  ultimately show ?thesis by simp
qed

lemma count_residues:
  fixes n :: nat
  assumes "r < n"
  shows "count_list (map (\<lambda>i. i mod n) [s ..< s + n]) r = 1"
proof (induction s)
  case 0
  have "map (\<lambda>i. i mod n) [0 ..< n] = [0 ..< n]"
    by (intro map_idI) simp
  moreover have "count_list [0 ..< n] r = 1"
    using assms by (simp add: count_list_distinct_mem)
  ultimately show ?case by simp
next
  case (Suc s)
  from assms have "0 < n" by simp
  with Suc show ?case by (simp only: count_residues_step)
qed

lemma count_residues_blocks:
  fixes n :: nat
  assumes "r < n"
  shows "count_list (map (\<lambda>i. i mod n) [s ..< s + k * n]) r = k"
proof (induction k)
  case 0
  then show ?case by simp
next
  case (Suc k)
  have "[s ..< s + Suc k * n] = [s ..< s + k * n] @ [s + k * n ..< (s + k * n) + n]"
    using upt_add_eq_append [of s "s + k * n" n] by (simp add: algebra_simps)
  with Suc count_residues [OF assms, of "s + k * n"] show ?case by simp
qed

text \<open>C37: round robin is fair. As long as the 64-bit position does not wrap, any \<open>k * n\<close>
  consecutive requests against a pool of \<open>n\<close> members assign every member exactly \<open>k\<close> times.\<close>

theorem rotation_fair:
  assumes "i < length (members p)" and "length (members p) < 2 ^ 64"
    and "unat (nextPos p) + k * length (members p) \<le> 2 ^ 64"
  shows "count_list (rotations (k * length (members p)) p) i = k"
proof -
  from assms(1) have "members p \<noteq> []" by auto
  then show ?thesis
    using assms by (simp add: rotations_members count_residues_blocks)
qed

definition example_backend :: "string \<Rightarrow> backend" where
  "example_backend k = \<lparr>b_key = k, b_addr = k @ '':80'', b_registeredAt = 0,
     b_origin = \<lparr>o_account = [], o_cluster = [], o_region = []\<rparr>, b_invoker = None, b_target = []\<rparr>"

theorem rotation_fair_witness:
  "count_list (rotations (2 * length (members
      \<lparr>members = [example_backend ''a'', example_backend ''b'', example_backend ''c''],
       nextPos = 7\<rparr>))
     \<lparr>members = [example_backend ''a'', example_backend ''b'', example_backend ''c''],
      nextPos = 7\<rparr>) 1 = 2"
  by (rule rotation_fair) simp_all

text \<open>A request is assigned a member of the pool it saw, or, exactly when the pool is empty,
  none; the members it walks are the pool's and the pool itself is not changed by it.\<close>

lemma rotation_assigns:
  assumes "length (members p) < 2 ^ 64"
  shows "case rotation p of (p', ms, i) \<Rightarrow>
           members p' = members p \<and> ms = members p \<and>
           (if members p = [] then nextPos p' = nextPos p
            else i < length (members p) \<and> nextPos p' = nextPos p + 1)"
  using assms by (cases "members p = []") (simp_all add: rotation_empty rotation_nonempty)

end
