(* ===== verification/Manager.thy ===== *)
theory Manager
  imports Pool
begin

text \<open>
  The manager (\<^verbatim>\<open>proxy/manager.go\<close>): the index of advertised services, the registration keys,
  and the operations on them. Advertised-service records are shared by pointer and compared by
  pointer, so they live in a store \<open>m_recs\<close> and the index maps a service name to the address of
  its record. Each definition named \<open>..._locked\<close> is one critical section under \<^verbatim>\<open>Manager.mu\<close>;
  the calls into tsnet lie between the sections. A closed channel is a \<open>bool\<close>; closing a closed
  channel and calling an unset \<^verbatim>\<open>closeFn\<close> set \<open>m_panicked\<close>, as they panic in Go.
\<close>

section \<open>Data\<close>

record PServiceDef =
  pd_service :: string
  pd_port :: "16 word"
  pd_network :: string
  pd_scheme :: string
  pd_caps :: "string list"
  pd_origin :: Origin

record FunctionDef =
  fd_service :: string
  fd_caps :: "string list"
  fd_origin :: Origin
  fd_invoker :: "FunctionInvoker option"

text \<open>The errors of a registration. \<^verbatim>\<open>FatalError\<close> and \<open>ListenError\<close> carry the service name and
  the text of the \<^verbatim>\<open>ListenService\<close> error they wrap.\<close>

datatype mgr_error =
    ErrShuttingDown
  | ConflictError (ce_service: string) (ce_key: string) (ce_field: string)
      (ce_advertised: string) (ce_offered: string)
  | FatalError string string
  | ListenError string string
  | NoInvoker string

record advertisedService =
  as_name :: string
  as_scheme :: string
  as_caps :: "string list"
  as_pool :: backendPool
  as_ready :: bool
  as_advertised :: bool \<comment> \<open>whether the channel is closed\<close>
  as_withdrawing :: "bool option" \<comment> \<open>\<open>None\<close>: nil; else whether the channel is closed\<close>
  as_closeFn :: bool \<comment> \<open>whether cancel and closeFn have been set\<close>

record gauges =
  g_active :: int
  g_backends :: "(string, int) gomap"

record Manager =
  m_services :: "(string, nat) gomap"
  m_byKey :: "(string, string) gomap"
  m_shutdown :: bool
  m_metrics :: "gauges option"
  m_recs :: "nat \<rightharpoonup> advertisedService"
  m_next :: nat
  m_panicked :: bool

text \<open>The two channels a registration can wait on.\<close>

datatype chan = AdvertisedOf nat | WithdrawingOf nat

record ServiceMode =
  sm_https :: bool
  sm_port :: "16 word"
  sm_acceptAppCaps :: "(string, string list) gomap"

definition SchemeLambda :: string where
  "SchemeLambda = ''lambda''"

section \<open>Gauges\<close>

definition setPoolSize :: "string \<Rightarrow> nat \<Rightarrow> Manager \<Rightarrow> Manager" where
  "setPoolSize service n m =
     m\<lparr>m_metrics := map_option (\<lambda>g. g\<lparr>g_backends := m_put service (int n) (g_backends g)\<rparr>) (m_metrics m)\<rparr>"

definition serviceAdvertised :: "string \<Rightarrow> nat \<Rightarrow> Manager \<Rightarrow> Manager" where
  "serviceAdvertised service n m =
     setPoolSize service n
       (m\<lparr>m_metrics := map_option (\<lambda>g. g\<lparr>g_active := g_active g + 1\<rparr>) (m_metrics m)\<rparr>)"

definition serviceWithdrawn :: "string \<Rightarrow> Manager \<Rightarrow> Manager" where
  "serviceWithdrawn service m =
     m\<lparr>m_metrics := map_option (\<lambda>g. g\<lparr>g_active := g_active g - 1,
                                     g_backends := m_del service (g_backends g)\<rparr>) (m_metrics m)\<rparr>"

definition allServicesWithdrawn :: "Manager \<Rightarrow> Manager" where
  "allServicesWithdrawn m =
     m\<lparr>m_metrics := map_option (\<lambda>g. g\<lparr>g_active := 0, g_backends := m_empty\<rparr>) (m_metrics m)\<rparr>"

section \<open>Records and channels\<close>

definition upd_rec :: "nat \<Rightarrow> (advertisedService \<Rightarrow> advertisedService) \<Rightarrow> Manager \<Rightarrow> Manager" where
  "upd_rec r f m = m\<lparr>m_recs := (m_recs m)(r := map_option f (m_recs m r))\<rparr>"

definition close_advertised :: "nat \<Rightarrow> Manager \<Rightarrow> Manager" where
  "close_advertised r m =
     (case m_recs m r of
        Some rec \<Rightarrow> if as_advertised rec then m\<lparr>m_panicked := True\<rparr>
                    else upd_rec r (\<lambda>x. x\<lparr>as_advertised := True\<rparr>) m
      | None \<Rightarrow> m\<lparr>m_panicked := True\<rparr>)"

definition close_withdrawing :: "nat \<Rightarrow> Manager \<Rightarrow> Manager" where
  "close_withdrawing r m =
     (case m_recs m r of
        Some rec \<Rightarrow> if as_withdrawing rec = Some False
                    then upd_rec r (\<lambda>x. x\<lparr>as_withdrawing := Some True\<rparr>) m
                    else m\<lparr>m_panicked := True\<rparr>
      | None \<Rightarrow> m\<lparr>m_panicked := True\<rparr>)"

definition chan_closed :: "Manager \<Rightarrow> chan \<Rightarrow> bool" where
  "chan_closed m ch =
     (case ch of
        AdvertisedOf r \<Rightarrow> (case m_recs m r of Some rec \<Rightarrow> as_advertised rec | None \<Rightarrow> False)
      | WithdrawingOf r \<Rightarrow>
          (case m_recs m r of Some rec \<Rightarrow> as_withdrawing rec = Some True | None \<Rightarrow> False))"

text \<open>Calling the record's \<^verbatim>\<open>cancel\<close> and \<^verbatim>\<open>closeFn\<close>; an unset one panics. What they do to the
  listener happens in tsnet.\<close>

definition call_closeFn :: "nat \<Rightarrow> Manager \<Rightarrow> Manager" where
  "call_closeFn r m =
     (case m_recs m r of
        Some rec \<Rightarrow> if as_closeFn rec then m else m\<lparr>m_panicked := True\<rparr>
      | None \<Rightarrow> m\<lparr>m_panicked := True\<rparr>)"

definition releaseLocked :: "nat \<Rightarrow> Manager \<Rightarrow> Manager" where
  "releaseLocked r m =
     (case m_recs m r of
        None \<Rightarrow> m\<lparr>m_panicked := True\<rparr>
      | Some rec \<Rightarrow>
          let m1 = (if map_of (m_services m) (as_name rec) = Some r
                    then m\<lparr>m_services := m_del (as_name rec) (m_services m)\<rparr> else m)
          in if \<not> as_ready rec then close_advertised r m1 else m1)"

definition abandon :: "nat \<Rightarrow> Manager \<Rightarrow> Manager" where
  "abandon r m = releaseLocked r m"

definition transition :: "nat \<Rightarrow> advertisedService \<Rightarrow> chan option" where
  "transition r rec =
     (if as_withdrawing rec \<noteq> None then Some (WithdrawingOf r)
      else if \<not> as_ready rec then Some (AdvertisedOf r)
      else None)"

section \<open>Capabilities and conflicts\<close>

definition capsSubset :: "string list \<Rightarrow> string list \<Rightarrow> bool" where
  "capsSubset a b \<longleftrightarrow> list_all (\<lambda>c. c \<in> set b) a"

definition sameCaps :: "string list \<Rightarrow> string list \<Rightarrow> bool" where
  "sameCaps a b \<longleftrightarrow> capsSubset a b \<and> capsSubset b a"

definition sortedCaps :: "string list \<Rightarrow> string list" where
  "sortedCaps caps = sort caps"

definition conflictWith :: "advertisedService \<Rightarrow> string \<Rightarrow> PServiceDef \<Rightarrow> mgr_error option" where
  "conflictWith rec key def =
     (if pd_scheme def \<noteq> as_scheme rec
      then Some (ConflictError (as_name rec) key ''scheme'' (as_scheme rec) (pd_scheme def))
      else if \<not> sameCaps (as_caps rec) (pd_caps def)
      then Some (ConflictError (as_name rec) key ''caps''
                   (join '','' (sortedCaps (as_caps rec))) (join '','' (sortedCaps (pd_caps def))))
      else None)"

definition isMagicDNSError :: "string \<Rightarrow> bool" where
  "isMagicDNSError err =
     (let s = to_lower err in
      contains s ''magicdns'' \<or> contains s ''https certificates'' \<or>
      contains s ''https is not enabled'' \<or> contains s ''https not enabled'')"

definition short :: "string \<Rightarrow> string" where
  "short key =
     (case cut_after key '':function:'' of
        Some fn \<Rightarrow> if has_prefix key ''arn:'' then fn else take 12 (after_last (CHR ''/'') key)
      | None \<Rightarrow> take 12 (after_last (CHR ''/'') key))"

section \<open>Register and advertise\<close>

definition NewManager :: "gauges option \<Rightarrow> Manager" where
  "NewManager mc = \<lparr>m_services = m_empty, m_byKey = m_empty, m_shutdown = False, m_metrics = mc,
                    m_recs = Map.empty, m_next = 0, m_panicked = False\<rparr>"

datatype reg_out = Return "mgr_error option" | Advertise nat | Wait chan

text \<open>One turn of the loop in \<^verbatim>\<open>register\<close>: the critical section, and what follows it.\<close>

definition register_locked ::
  "string \<Rightarrow> PServiceDef \<Rightarrow> backend \<Rightarrow> Manager \<Rightarrow> Manager \<times> reg_out" where
  "register_locked key def b m =
     (if m_shutdown m then (m, Return (Some ErrShuttingDown))
      else if map_of (m_byKey m) key \<noteq> None then (m, Return None)
      else case map_of (m_services m) (pd_service def) of
        None \<Rightarrow>
          let r = m_next m;
              rec = \<lparr>as_name = pd_service def, as_scheme = pd_scheme def, as_caps = pd_caps def,
                     as_pool = newBackendPool, as_ready = False, as_advertised = False,
                     as_withdrawing = None, as_closeFn = False\<rparr>
          in (m\<lparr>m_recs := (m_recs m)(r \<mapsto> rec), m_next := Suc r,
               m_services := m_put (pd_service def) r (m_services m)\<rparr>, Advertise r)
      | Some r \<Rightarrow>
          (case m_recs m r of
             None \<Rightarrow> (m\<lparr>m_panicked := True\<rparr>, Return None)
           | Some rec \<Rightarrow>
               (case transition r rec of
                  Some ch \<Rightarrow> (m, Wait ch)
                | None \<Rightarrow>
                    (case conflictWith rec key def of
                       Some e \<Rightarrow> (m, Return (Some e))
                     | None \<Rightarrow>
                         (let (pool, size) = pool_add (as_pool rec) b;
                              m1 = upd_rec r (\<lambda>x. x\<lparr>as_pool := pool\<rparr>) m;
                              m2 = m1\<lparr>m_byKey := m_put key (as_name rec) (m_byKey m1)\<rparr>
                          in (setPoolSize (as_name rec) size m2, Return None))))))"

text \<open>The mode \<^verbatim>\<open>advertise\<close> passes to \<^verbatim>\<open>ListenService\<close>.\<close>

definition advertise_mode :: "advertisedService \<Rightarrow> ServiceMode" where
  "advertise_mode rec =
     \<lparr>sm_https = True, sm_port = 443,
      sm_acceptAppCaps = (if length (as_caps rec) > 0 then [(''/'', as_caps rec)] else m_empty)\<rparr>"

text \<open>The error \<^verbatim>\<open>advertise\<close> returns when \<^verbatim>\<open>ListenService\<close> fails with the given text.\<close>

definition listen_error :: "string \<Rightarrow> string \<Rightarrow> mgr_error" where
  "listen_error name err = (if isMagicDNSError err then FatalError name err else ListenError name err)"

text \<open>The critical section of \<^verbatim>\<open>advertise\<close> once the listener is open; \<open>False\<close> when the manager
  was shut down meanwhile and the listener has to be closed again.\<close>

definition advertise_locked :: "nat \<Rightarrow> string \<Rightarrow> backend \<Rightarrow> Manager \<Rightarrow> Manager \<times> bool" where
  "advertise_locked r key b m =
     (if m_shutdown m then (releaseLocked r m, False)
      else case m_recs m r of
        None \<Rightarrow> (m\<lparr>m_panicked := True\<rparr>, True)
      | Some rec \<Rightarrow>
          (let (pool, size) = pool_add (as_pool rec) b;
               m1 = upd_rec r (\<lambda>x. x\<lparr>as_closeFn := True, as_pool := pool, as_ready := True\<rparr>) m;
               m2 = close_advertised r m1;
               m3 = m2\<lparr>m_byKey := m_put key (as_name rec) (m_byKey m2)\<rparr>
           in (serviceAdvertised (as_name rec) size m3, True)))"

section \<open>Deregister\<close>

text \<open>The first critical section of \<^verbatim>\<open>Deregister\<close>: the record to tear down and its name, when
  the last backend has left.\<close>

definition deregister_locked :: "string \<Rightarrow> Manager \<Rightarrow> Manager \<times> (nat \<times> string) option" where
  "deregister_locked key m =
     (case map_of (m_byKey m) key of
        None \<Rightarrow> (m, None)
      | Some name \<Rightarrow>
          let m1 = m\<lparr>m_byKey := m_del key (m_byKey m)\<rparr> in
          (case map_of (m_services m1) name of
             None \<Rightarrow> (m1, None)
           | Some r \<Rightarrow>
               (case m_recs m1 r of
                  None \<Rightarrow> (m1\<lparr>m_panicked := True\<rparr>, None)
                | Some rec \<Rightarrow>
                    if \<not> as_ready rec then (m1, None)
                    else let (pool, size) = pool_remove (as_pool rec) key;
                             m2 = upd_rec r (\<lambda>x. x\<lparr>as_pool := pool\<rparr>) m1
                         in if size > 0 then (setPoolSize name size m2, None)
                            else (upd_rec r (\<lambda>x. x\<lparr>as_withdrawing := Some False\<rparr>) m2, Some (r, name)))))"

text \<open>The second critical section, after the listener has been closed.\<close>

definition deregister_finish :: "nat \<Rightarrow> string \<Rightarrow> Manager \<Rightarrow> Manager" where
  "deregister_finish r name m =
     (let m1 = (if map_of (m_services m) name = Some r
                then serviceWithdrawn name (m\<lparr>m_services := m_del name (m_services m)\<rparr>) else m)
      in close_withdrawing r m1)"

section \<open>Close and Snapshot\<close>

text \<open>The record at an address is serving: listener open, at least one backend.\<close>

definition serving :: "Manager \<Rightarrow> nat \<Rightarrow> bool" where
  "serving m r = (case m_recs m r of
                    Some rec \<Rightarrow> as_ready rec \<and> as_withdrawing rec = None | None \<Rightarrow> False)"

definition close_locked :: "Manager \<Rightarrow> Manager \<times> nat list" where
  "close_locked m =
     (let recs = filter (serving m) (map snd (m_services m))
      in (allServicesWithdrawn (m\<lparr>m_shutdown := True, m_services := m_empty, m_byKey := m_empty\<rparr>), recs))"

record BackendView =
  bv_backend :: string
  bv_key :: string
  bv_registeredAt :: nanos
  bv_origin :: Origin

record ServiceView =
  sv_service :: string
  sv_scheme :: string
  sv_caps :: "string list"
  sv_backends :: "BackendView list"

definition backend_view :: "string \<Rightarrow> backend \<Rightarrow> BackendView" where
  "backend_view scheme b =
     \<lparr>bv_backend = targetURL b scheme, bv_key = b_key b, bv_registeredAt = b_registeredAt b,
      bv_origin = b_origin b\<rparr>"

definition service_view :: "advertisedService \<Rightarrow> ServiceView" where
  "service_view rec =
     \<lparr>sv_service = as_name rec, sv_scheme = as_scheme rec, sv_caps = as_caps rec,
      sv_backends = map (backend_view (as_scheme rec)) (pool_list (as_pool rec))\<rparr>"

definition Snapshot :: "Manager \<Rightarrow> ServiceView list" where
  "Snapshot m =
     sort_key sv_service
       (map (\<lambda>r. service_view (the (m_recs m r))) (filter (serving m) (map snd (m_services m))))"

section \<open>The operations run by one caller\<close>

text \<open>
  The whole operations as one goroutine runs them with no other operation in between.
  \<open>listen\<close> is the outcome of \<^verbatim>\<open>ListenService\<close> for a service name and mode: \<open>None\<close> for an open
  listener, or the text of its error. \<open>None\<close> as the result of a registration means that it would
  wait for a transition made by another caller.
\<close>

definition advertise ::
  "(string \<Rightarrow> ServiceMode \<Rightarrow> string option) \<Rightarrow> nat \<Rightarrow> string \<Rightarrow> backend \<Rightarrow> Manager
     \<Rightarrow> Manager \<times> mgr_error option" where
  "advertise listen r key b m =
     (case m_recs m r of
        None \<Rightarrow> (m\<lparr>m_panicked := True\<rparr>, None)
      | Some rec \<Rightarrow>
          (case listen (as_name rec) (advertise_mode rec) of
             Some err \<Rightarrow> (abandon r m, Some (listen_error (as_name rec) err))
           | None \<Rightarrow> (case advertise_locked r key b m of
                        (m', True) \<Rightarrow> (m', None)
                      | (m', False) \<Rightarrow> (m', Some ErrShuttingDown))))"

definition register ::
  "(string \<Rightarrow> ServiceMode \<Rightarrow> string option) \<Rightarrow> string \<Rightarrow> PServiceDef \<Rightarrow> backend \<Rightarrow> Manager
     \<Rightarrow> (Manager \<times> mgr_error option) option" where
  "register listen key def b m =
     (case register_locked key def b m of
        (m', Return e) \<Rightarrow> Some (m', e)
      | (m', Advertise r) \<Rightarrow> Some (advertise listen r key b m')
      | (m', Wait ch) \<Rightarrow> None)"

definition hostport_backend :: "nanos \<Rightarrow> string \<Rightarrow> PServiceDef \<Rightarrow> string \<Rightarrow> backend" where
  "hostport_backend now key def backendIP =
     \<lparr>b_key = key, b_addr = join_host_port backendIP (show_nat (unat (pd_port def))),
      b_registeredAt = now, b_origin = pd_origin def, b_invoker = None, b_target = []\<rparr>"

definition RegisterHostPort ::
  "(string \<Rightarrow> ServiceMode \<Rightarrow> string option) \<Rightarrow> nanos \<Rightarrow> string \<Rightarrow> PServiceDef \<Rightarrow> string \<Rightarrow> Manager
     \<Rightarrow> (Manager \<times> mgr_error option) option" where
  "RegisterHostPort listen now key def backendIP m =
     register listen key def (hostport_backend now key def backendIP) m"

definition Target :: "FunctionInvoker \<Rightarrow> string" where
  "Target f = SchemeLambda @ ''://'' @ fi_arn f @ (if fi_qualifier f \<noteq> [] then '':'' @ fi_qualifier f else [])"

definition function_service_def :: "FunctionDef \<Rightarrow> PServiceDef" where
  "function_service_def def =
     \<lparr>pd_service = fd_service def, pd_port = 0, pd_network = [], pd_scheme = SchemeLambda,
      pd_caps = fd_caps def, pd_origin = fd_origin def\<rparr>"

definition function_backend :: "nanos \<Rightarrow> string \<Rightarrow> FunctionDef \<Rightarrow> FunctionInvoker \<Rightarrow> backend" where
  "function_backend now key def f =
     \<lparr>b_key = key, b_addr = [], b_registeredAt = now, b_origin = fd_origin def,
      b_invoker = Some f, b_target = Target f\<rparr>"

definition RegisterFunction ::
  "(string \<Rightarrow> ServiceMode \<Rightarrow> string option) \<Rightarrow> nanos \<Rightarrow> string \<Rightarrow> FunctionDef \<Rightarrow> Manager
     \<Rightarrow> (Manager \<times> mgr_error option) option" where
  "RegisterFunction listen now key def m =
     (case fd_invoker def of
        None \<Rightarrow> Some (m, Some (NoInvoker key))
      | Some f \<Rightarrow>
          register listen key (function_service_def def) (function_backend now key def f) m)"

definition Deregister :: "string \<Rightarrow> Manager \<Rightarrow> Manager" where
  "Deregister key m =
     (case deregister_locked key m of
        (m', None) \<Rightarrow> m'
      | (m', Some (r, name)) \<Rightarrow> deregister_finish r name (call_closeFn r m'))"

definition Close :: "Manager \<Rightarrow> Manager" where
  "Close m = (case close_locked m of (m', recs) \<Rightarrow> fold call_closeFn recs m')"

section \<open>Lemmas on the helpers\<close>

lemma capsSubset_iff: "capsSubset a b \<longleftrightarrow> set a \<subseteq> set b"
  by (auto simp: capsSubset_def list_all_iff)

lemma sameCaps_iff: "sameCaps a b \<longleftrightarrow> set a = set b"
  by (auto simp: sameCaps_def capsSubset_iff)

lemma conflictWith_None:
  "conflictWith rec key def = None \<longleftrightarrow>
     pd_scheme def = as_scheme rec \<and> set (pd_caps def) = set (as_caps rec)"
  by (auto simp: conflictWith_def sameCaps_iff)

text \<open>What the helpers leave alone.\<close>

lemma gauge_frames [simp]:
  "m_services (setPoolSize s n m) = m_services m" "m_byKey (setPoolSize s n m) = m_byKey m"
  "m_recs (setPoolSize s n m) = m_recs m" "m_next (setPoolSize s n m) = m_next m"
  "m_shutdown (setPoolSize s n m) = m_shutdown m" "m_panicked (setPoolSize s n m) = m_panicked m"
  "m_services (serviceAdvertised s n m) = m_services m" "m_byKey (serviceAdvertised s n m) = m_byKey m"
  "m_recs (serviceAdvertised s n m) = m_recs m" "m_next (serviceAdvertised s n m) = m_next m"
  "m_shutdown (serviceAdvertised s n m) = m_shutdown m"
  "m_panicked (serviceAdvertised s n m) = m_panicked m"
  "m_services (serviceWithdrawn s m) = m_services m" "m_byKey (serviceWithdrawn s m) = m_byKey m"
  "m_recs (serviceWithdrawn s m) = m_recs m" "m_next (serviceWithdrawn s m) = m_next m"
  "m_shutdown (serviceWithdrawn s m) = m_shutdown m" "m_panicked (serviceWithdrawn s m) = m_panicked m"
  "m_services (allServicesWithdrawn m) = m_services m" "m_byKey (allServicesWithdrawn m) = m_byKey m"
  "m_recs (allServicesWithdrawn m) = m_recs m" "m_next (allServicesWithdrawn m) = m_next m"
  "m_shutdown (allServicesWithdrawn m) = m_shutdown m"
  "m_panicked (allServicesWithdrawn m) = m_panicked m"
  by (simp_all add: setPoolSize_def serviceAdvertised_def serviceWithdrawn_def allServicesWithdrawn_def)

lemma upd_rec_frames [simp]:
  "m_services (upd_rec r f m) = m_services m" "m_byKey (upd_rec r f m) = m_byKey m"
  "m_next (upd_rec r f m) = m_next m" "m_shutdown (upd_rec r f m) = m_shutdown m"
  "m_panicked (upd_rec r f m) = m_panicked m" "m_metrics (upd_rec r f m) = m_metrics m"
  "m_recs (upd_rec r f m) = (m_recs m)(r := map_option f (m_recs m r))"
  by (simp_all add: upd_rec_def)

lemma call_closeFn_armed:
  "m_recs m r = Some rec \<Longrightarrow> as_closeFn rec \<Longrightarrow> call_closeFn r m = m"
  by (simp add: call_closeFn_def)

end
