(* ===== verification/Manager_Steps.thy ===== *)
theory Manager_Steps
  imports Manager
begin

text \<open>
  The manager under concurrency. Any number of goroutines (numbered by \<open>nat\<close>) call
  \<^verbatim>\<open>RegisterHostPort\<close>, \<^verbatim>\<open>RegisterFunction\<close>, \<^verbatim>\<open>Deregister\<close> and \<^verbatim>\<open>Close\<close>; a step is one critical
  section under \<^verbatim>\<open>Manager.mu\<close>, one call into tsnet (opening or closing a listener, which
  \<^verbatim>\<open>serveMu\<close> serialises), or one wake-up from a channel. Besides the manager the state holds the
  program counter of every goroutine and what tsnet sees: the listeners open now and how often
  each has been closed. Whether \<^verbatim>\<open>ListenService\<close> succeeds is not determined.

  With the flag \<open>disc\<close> set, an operation on a key starts only when no other goroutine is in an
  operation on that key. Discovery keeps to this: a key belongs to one reader, and a reader is
  one goroutine.
\<close>

section \<open>The state and its steps\<close>

datatype pc =
    Idle
  | Registering string PServiceDef backend
  | Waiting string PServiceDef backend chan
  | Listening nat string backend
  | Listened nat string backend
  | ListenFailed nat string string
  | Unlisten nat string
  | Returned string "mgr_error option"
  | TearDown nat string string
  | Withdrawn nat string string
  | Closing "nat list"

record sys =
  mgr :: Manager
  threads :: "nat \<Rightarrow> pc"
  opened :: "nat set"
  closes :: "nat \<Rightarrow> nat"

fun key_of :: "pc \<Rightarrow> string option" where
  "key_of (Registering k d b) = Some k"
| "key_of (Waiting k d b ch) = Some k"
| "key_of (Listening r k b) = Some k"
| "key_of (Listened r k b) = Some k"
| "key_of (ListenFailed r k e) = Some k"
| "key_of (Unlisten r k) = Some k"
| "key_of (Returned k e) = Some k"
| "key_of (TearDown r n k) = Some k"
| "key_of (Withdrawn r n k) = Some k"
| "key_of _ = None"

definition key_free :: "sys \<Rightarrow> string \<Rightarrow> bool" where
  "key_free s k \<longleftrightarrow> (\<forall>t. key_of (threads s t) \<noteq> Some k)"

definition go :: "nat \<Rightarrow> pc \<Rightarrow> sys \<Rightarrow> sys" where
  "go t p s = s\<lparr>threads := (threads s)(t := p)\<rparr>"

text \<open>Closing the listener of a record, in tsnet.\<close>

definition close_listener :: "nat \<Rightarrow> sys \<Rightarrow> sys" where
  "close_listener r s = s\<lparr>opened := opened s - {r}, closes := (closes s)(r := Suc (closes s r))\<rparr>"

definition after_register :: "string \<Rightarrow> PServiceDef \<Rightarrow> backend \<Rightarrow> reg_out \<Rightarrow> pc" where
  "after_register k d b out =
     (case out of Return e \<Rightarrow> Returned k e | Advertise r \<Rightarrow> Listening r k b | Wait ch \<Rightarrow> Waiting k d b ch)"

definition name_of :: "Manager \<Rightarrow> nat \<Rightarrow> string" where
  "name_of m r = (case m_recs m r of Some rec \<Rightarrow> as_name rec | None \<Rightarrow> [])"

inductive mgr_step :: "bool \<Rightarrow> sys \<Rightarrow> sys \<Rightarrow> bool" for disc where
  call_register:
    "threads s t = Idle \<Longrightarrow> disc \<longrightarrow> key_free s k \<Longrightarrow> b_key b = k \<Longrightarrow>
     mgr_step disc s (go t (Registering k d b) s)"
| do_register:
    "threads s t = Registering k d b \<Longrightarrow> register_locked k d b (mgr s) = (m', out) \<Longrightarrow>
     mgr_step disc s (go t (after_register k d b out) (s\<lparr>mgr := m'\<rparr>))"
| wake:
    "threads s t = Waiting k d b ch \<Longrightarrow> chan_closed (mgr s) ch \<Longrightarrow>
     mgr_step disc s (go t (Registering k d b) s)"
| listen_ok:
    "threads s t = Listening r k b \<Longrightarrow>
     mgr_step disc s (go t (Listened r k b) (s\<lparr>opened := insert r (opened s)\<rparr>))"
| listen_err:
    "threads s t = Listening r k b \<Longrightarrow>
     mgr_step disc s (go t (ListenFailed r k e) s)"
| do_abandon:
    "threads s t = ListenFailed r k e \<Longrightarrow>
     mgr_step disc s (go t (Returned k (Some (listen_error (name_of (mgr s) r) e)))
                        (s\<lparr>mgr := abandon r (mgr s)\<rparr>))"
| do_publish:
    "threads s t = Listened r k b \<Longrightarrow> advertise_locked r k b (mgr s) = (m', ok) \<Longrightarrow>
     mgr_step disc s (go t (if ok then Returned k None else Unlisten r k) (s\<lparr>mgr := m'\<rparr>))"
| do_unlisten:
    "threads s t = Unlisten r k \<Longrightarrow>
     mgr_step disc s (go t (Returned k (Some ErrShuttingDown)) (close_listener r s))"
| return:
    "threads s t = Returned k e \<Longrightarrow> mgr_step disc s (go t Idle s)"
| do_deregister:
    "threads s t = Idle \<Longrightarrow> disc \<longrightarrow> key_free s k \<Longrightarrow> deregister_locked k (mgr s) = (m', out) \<Longrightarrow>
     mgr_step disc s (go t (case out of None \<Rightarrow> Idle | Some (r, n) \<Rightarrow> TearDown r n k) (s\<lparr>mgr := m'\<rparr>))"
| tear_down:
    "threads s t = TearDown r n k \<Longrightarrow>
     mgr_step disc s (go t (Withdrawn r n k) (close_listener r (s\<lparr>mgr := call_closeFn r (mgr s)\<rparr>)))"
| finish_withdraw:
    "threads s t = Withdrawn r n k \<Longrightarrow>
     mgr_step disc s (go t Idle (s\<lparr>mgr := deregister_finish r n (mgr s)\<rparr>))"
| do_close:
    "threads s t = Idle \<Longrightarrow> close_locked (mgr s) = (m', rs) \<Longrightarrow>
     mgr_step disc s (go t (Closing rs) (s\<lparr>mgr := m'\<rparr>))"
| close_next:
    "threads s t = Closing (r # rs) \<Longrightarrow>
     mgr_step disc s (go t (Closing rs) (close_listener r (s\<lparr>mgr := call_closeFn r (mgr s)\<rparr>)))"
| close_done:
    "threads s t = Closing [] \<Longrightarrow> mgr_step disc s (go t Idle s)"

definition init_sys :: "gauges option \<Rightarrow> sys" where
  "init_sys mc = \<lparr>mgr = NewManager mc, threads = (\<lambda>_. Idle), opened = {}, closes = (\<lambda>_. 0)\<rparr>"

definition fresh_gauges :: "gauges" where
  "fresh_gauges = \<lparr>g_active = 0, g_backends = m_empty\<rparr>"

inductive reach :: "bool \<Rightarrow> sys \<Rightarrow> bool" for disc where
  start: "mc \<in> {None, Some fresh_gauges} \<Longrightarrow> reach disc (init_sys mc)"
| step: "reach disc s \<Longrightarrow> mgr_step disc s s' \<Longrightarrow> reach disc s'"

section \<open>The invariant\<close>

text \<open>The life of an advertised-service record; the number is the goroutine that is moving it.\<close>

datatype stage = Free | Adv nat | Opened nat | Failed nat | Unlist nat
  | Serving | Tear nat | Down nat | Shut nat | Gone

fun owner :: "stage \<Rightarrow> nat option" where
  "owner (Adv t) = Some t"
| "owner (Opened t) = Some t"
| "owner (Failed t) = Some t"
| "owner (Unlist t) = Some t"
| "owner (Tear t) = Some t"
| "owner (Down t) = Some t"
| "owner (Shut t) = Some t"
| "owner _ = None"

text \<open>The stage a goroutine's program counter gives a record.\<close>

fun tied :: "nat \<Rightarrow> pc \<Rightarrow> nat \<Rightarrow> stage option" where
  "tied t (Listening r' k b) r = (if r = r' then Some (Adv t) else None)"
| "tied t (Listened r' k b) r = (if r = r' then Some (Opened t) else None)"
| "tied t (ListenFailed r' k e) r = (if r = r' then Some (Failed t) else None)"
| "tied t (Unlisten r' k) r = (if r = r' then Some (Unlist t) else None)"
| "tied t (TearDown r' n k) r = (if r = r' then Some (Tear t) else None)"
| "tied t (Withdrawn r' n k) r = (if r = r' then Some (Down t) else None)"
| "tied t (Closing rs) r = (if r \<in> set rs then Some (Shut t) else None)"
| "tied t _ r = None"

fun indexed_stage :: "stage \<Rightarrow> bool" where
  "indexed_stage (Adv t) = True"
| "indexed_stage (Opened t) = True"
| "indexed_stage (Failed t) = True"
| "indexed_stage Serving = True"
| "indexed_stage (Tear t) = True"
| "indexed_stage (Down t) = True"
| "indexed_stage _ = False"

text \<open>Listener open, by stage.\<close>

fun open_stage :: "stage \<Rightarrow> bool" where
  "open_stage (Opened t) = True"
| "open_stage (Unlist t) = True"
| "open_stage Serving = True"
| "open_stage (Tear t) = True"
| "open_stage (Shut t) = True"
| "open_stage _ = False"

definition pending :: "advertisedService \<Rightarrow> bool" where
  "pending rec \<longleftrightarrow> \<not> as_ready rec \<and> as_withdrawing rec = None \<and> members (as_pool rec) = []"

definition live_rec :: "advertisedService \<Rightarrow> bool" where
  "live_rec rec \<longleftrightarrow> as_ready rec \<and> as_advertised rec \<and> as_closeFn rec"

text \<open>What the record's fields are, by stage.\<close>

fun fields_ok :: "stage \<Rightarrow> bool \<Rightarrow> advertisedService \<Rightarrow> bool" where
  "fields_ok Free sd rec = False"
| "fields_ok (Adv t) sd rec = (pending rec \<and> \<not> as_advertised rec)"
| "fields_ok (Opened t) sd rec = (pending rec \<and> \<not> as_advertised rec)"
| "fields_ok (Failed t) sd rec = (pending rec \<and> \<not> as_advertised rec)"
| "fields_ok (Unlist t) sd rec = (pending rec \<and> as_advertised rec \<and> sd)"
| "fields_ok Serving sd rec =
     (live_rec rec \<and> as_withdrawing rec = None \<and> members (as_pool rec) \<noteq> [] \<and> \<not> sd)"
| "fields_ok (Tear t) sd rec =
     (live_rec rec \<and> as_withdrawing rec = Some False \<and> members (as_pool rec) = [])"
| "fields_ok (Down t) sd rec =
     (live_rec rec \<and> as_withdrawing rec = Some False \<and> members (as_pool rec) = [])"
| "fields_ok (Shut t) sd rec = (live_rec rec \<and> as_withdrawing rec = None \<and> sd)"
| "fields_ok Gone sd rec = (as_advertised rec \<and> as_withdrawing rec \<noteq> Some False)"

fun closes_ok :: "stage \<Rightarrow> nat \<Rightarrow> bool" where
  "closes_ok Gone c = (c \<le> 1)"
| "closes_ok (Down t) c = (c = 1)"
| "closes_ok _ c = (c = 0)"

text \<open>The service name still leads to the record, unless the manager has been shut down.\<close>

definition held :: "Manager \<Rightarrow> nat \<Rightarrow> string \<Rightarrow> bool" where
  "held m r n \<longleftrightarrow> m_shutdown m \<or> map_of (m_services m) n = Some r"

definition rec_fits :: "stage \<Rightarrow> Manager \<Rightarrow> nat \<Rightarrow> nat \<Rightarrow> advertisedService \<Rightarrow> bool" where
  "rec_fits x m r c rec \<longleftrightarrow>
     fields_ok x (m_shutdown m) rec \<and> r < m_next m \<and> closes_ok x c \<and>
     (indexed_stage x \<longrightarrow> held m r (as_name rec))"

definition rec_ok :: "(nat \<Rightarrow> stage) \<Rightarrow> sys \<Rightarrow> nat \<Rightarrow> bool" where
  "rec_ok st s r \<longleftrightarrow>
     (m_recs (mgr s) r = None \<longrightarrow> st r = Free \<and> closes s r = 0) \<and>
     (\<forall>rec. m_recs (mgr s) r = Some rec \<longrightarrow> rec_fits (st r) (mgr s) r (closes s r) rec) \<and>
     (r \<in> opened s \<longleftrightarrow> open_stage (st r))"

definition keys_distinct :: "('k, 'v) gomap \<Rightarrow> bool" where
  "keys_distinct m \<longleftrightarrow> distinct (map fst m)"

definition index_ok :: "(nat \<Rightarrow> stage) \<Rightarrow> Manager \<Rightarrow> bool" where
  "index_ok st m \<longleftrightarrow>
     (\<forall>n r. map_of (m_services m) n = Some r \<longrightarrow>
        indexed_stage (st r) \<and> (\<exists>rec. m_recs m r = Some rec \<and> as_name rec = n)) \<and>
     (m_shutdown m \<longrightarrow> m_services m = []) \<and> keys_distinct (m_services m)"

definition threads_ok :: "(nat \<Rightarrow> stage) \<Rightarrow> (nat \<Rightarrow> pc) \<Rightarrow> bool" where
  "threads_ok st th \<longleftrightarrow>
     (\<forall>t r. tied t (th t) r = (if owner (st r) = Some t then Some (st r) else None))"

fun pc_ok :: "Manager \<Rightarrow> pc \<Rightarrow> bool" where
  "pc_ok m (Registering k d b) = (b_key b = k)"
| "pc_ok m (Waiting k d b (AdvertisedOf r)) = (b_key b = k \<and> m_recs m r \<noteq> None)"
| "pc_ok m (Waiting k d b (WithdrawingOf r)) =
     (b_key b = k \<and> (\<exists>rec. m_recs m r = Some rec \<and> as_withdrawing rec \<noteq> None))"
| "pc_ok m (Listening r k b) = (b_key b = k)"
| "pc_ok m (Listened r k b) = (b_key b = k)"
| "pc_ok m (TearDown r n k) = (\<exists>rec. m_recs m r = Some rec \<and> as_name rec = n)"
| "pc_ok m (Withdrawn r n k) = (\<exists>rec. m_recs m r = Some rec \<and> as_name rec = n)"
| "pc_ok m (Closing rs) = distinct rs"
| "pc_ok m _ = True"

definition unique_ok :: "(nat \<Rightarrow> stage) \<Rightarrow> Manager \<Rightarrow> bool" where
  "unique_ok st m \<longleftrightarrow>
     (\<forall>r1 r2 c1 c2. m_recs m r1 = Some c1 \<longrightarrow> m_recs m r2 = Some c2 \<longrightarrow> as_name c1 = as_name c2 \<longrightarrow>
        st r1 \<noteq> Gone \<longrightarrow> st r2 \<noteq> Gone \<longrightarrow> r1 = r2)"

definition byKey_ok :: "(nat \<Rightarrow> stage) \<Rightarrow> Manager \<Rightarrow> bool" where
  "byKey_ok st m \<longleftrightarrow>
     (\<forall>k n. map_of (m_byKey m) k = Some n \<longrightarrow>
        (\<exists>r rec. map_of (m_services m) n = Some r \<and> m_recs m r = Some rec \<and> st r = Serving \<and>
                 k \<in> set (pool_keys (as_pool rec))))"

definition sys_inv :: "(nat \<Rightarrow> stage) \<Rightarrow> sys \<Rightarrow> bool" where
  "sys_inv st s \<longleftrightarrow>
     (\<forall>r. rec_ok st s r) \<and> index_ok st (mgr s) \<and> threads_ok st (threads s) \<and>
     (\<forall>t. pc_ok (mgr s) (threads s t)) \<and> unique_ok st (mgr s) \<and> byKey_ok st (mgr s) \<and>
     \<not> m_panicked (mgr s)"

end
