(* ===== verification/Manager_Invariant.thy ===== *)
theory Manager_Invariant
  imports Manager_Steps
begin

text \<open>
  Every reachable state of the concurrent manager satisfies \<open>sys_inv\<close> for some assignment of
  stages to records. A step moves at most one record to another stage (\<open>sys_inv_focus\<close>), leaves
  the index alone (\<open>sys_inv_local\<close>) or drops a record from it (\<open>sys_inv_drop\<close>); only \<^verbatim>\<open>Close\<close>
  moves several at once (\<open>step_close\<close>).
\<close>


lemma tied_stage: "threads_ok st th \<Longrightarrow> tied t (th t) r = Some x \<Longrightarrow> st r = x \<and> owner x = Some t"
  by (auto simp: threads_ok_def split: if_splits)

lemma threads_ok_keep:
  assumes "threads_ok st th" and "\<And>r. tied t p r = tied t (th t) r"
  shows "threads_ok st (th(t := p))"
  using assms by (auto simp: threads_ok_def)

lemma threads_ok_move:
  assumes "threads_ok st th"
    and "owner (st r) = None \<or> owner (st r) = Some t" and "owner x = None \<or> owner x = Some t"
    and "\<And>r'. r' \<noteq> r \<Longrightarrow> tied t p r' = tied t (th t) r'"
    and "tied t p r = (if owner x = Some t then Some x else None)"
  shows "threads_ok (st(r := x)) (th(t := p))"
  using assms by (auto simp: threads_ok_def)

lemma go_simps [simp]:
  "mgr (go t p s) = mgr s" "threads (go t p s) = (threads s)(t := p)" "opened (go t p s) = opened s"
  "closes (go t p s) = closes s"
  by (simp_all add: go_def)

lemma close_listener_simps [simp]:
  "mgr (close_listener r s) = mgr s" "threads (close_listener r s) = threads s"
  "opened (close_listener r s) = opened s - {r}"
  "closes (close_listener r s) = (closes s)(r := Suc (closes s r))"
  by (simp_all add: close_listener_def)

lemma sys_inv_go:
  assumes "sys_inv st s" and "\<And>r. tied t p r = tied t (threads s t) r" and "pc_ok (mgr s) p"
  shows "sys_inv st (go t p s)"
  using assms by (simp add: sys_inv_def threads_ok_keep rec_ok_def)

fun pc_rec :: "pc \<Rightarrow> nat option" where
  "pc_rec (Waiting k d b (AdvertisedOf r)) = Some r"
| "pc_rec (Waiting k d b (WithdrawingOf r)) = Some r"
| "pc_rec (TearDown r n k) = Some r"
| "pc_rec (Withdrawn r n k) = Some r"
| "pc_rec _ = None"

lemma pc_ok_no_rec: "pc_rec p = None \<Longrightarrow> pc_ok m p = pc_ok m' p"
  by (cases p rule: pc_rec.cases) simp_all

lemma pc_ok_rec:
  assumes "pc_ok m p" "pc_rec p = Some r" "m_recs m r = Some rec" "m_recs m' r = Some rec'"
    "as_name rec' = as_name rec" "as_withdrawing rec \<noteq> None \<longrightarrow> as_withdrawing rec' \<noteq> None"
  shows "pc_ok m' p"
  using assms by (cases p rule: pc_rec.cases) auto

lemma pc_rec_exists: "pc_ok m p \<Longrightarrow> pc_rec p = Some r \<Longrightarrow> \<exists>rec. m_recs m r = Some rec"
  by (cases p rule: pc_rec.cases) auto

lemma pc_ok_mono:
  assumes "pc_ok m p"
    and "\<And>r rec. m_recs m r = Some rec \<Longrightarrow> \<exists>rec'. m_recs m' r = Some rec' \<and> as_name rec' = as_name rec \<and>
            (as_withdrawing rec \<noteq> None \<longrightarrow> as_withdrawing rec' \<noteq> None)"
  shows "pc_ok m' p"
proof (cases "pc_rec p")
  case None
  with assms(1) pc_ok_no_rec show ?thesis by blast
next
  case (Some r)
  with assms(1) obtain rec where r: "m_recs m r = Some rec" using pc_rec_exists by blast
  from assms(2) [OF this] obtain rec' where "m_recs m' r = Some rec'" "as_name rec' = as_name rec"
    "as_withdrawing rec \<noteq> None \<longrightarrow> as_withdrawing rec' \<noteq> None" by blast
  with pc_ok_rec [OF assms(1) Some r] show ?thesis by blast
qed

lemma rec_fits_mono:
  assumes "rec_fits x m r c rec" "m_shutdown m' = m_shutdown m" "m_next m \<le> m_next m'"
    "\<And>n. held m r n \<Longrightarrow> held m' r n"
  shows "rec_fits x m' r c rec"
  using assms by (simp add: rec_fits_def)

lemma rec_ok_mono:
  assumes "rec_ok st s r" "m_recs (mgr s') r = m_recs (mgr s) r" "closes s' r = closes s r"
    "r \<in> opened s' \<longleftrightarrow> r \<in> opened s" "st' r = st r"
    "m_shutdown (mgr s') = m_shutdown (mgr s)" "m_next (mgr s) \<le> m_next (mgr s')"
    "\<And>n. held (mgr s) r n \<Longrightarrow> held (mgr s') r n"
  shows "rec_ok st' s' r"
  using assms(1-5) rec_fits_mono [OF _ assms(6-8)] by (simp add: rec_ok_def)

lemma sys_inv_focus:
  assumes inv: "sys_inv st s"
    and th: "threads s' = (threads s)(t := p)"
    and op: "opened s' - {r} = opened s - {r}"
    and cl: "\<And>r'. r' \<noteq> r \<Longrightarrow> closes s' r' = closes s r'"
    and recs: "\<And>r'. r' \<noteq> r \<Longrightarrow> m_recs (mgr s') r' = m_recs (mgr s) r'"
    and sd: "m_shutdown (mgr s') = m_shutdown (mgr s)"
    and nx: "m_next (mgr s) \<le> m_next (mgr s')"
    and svc: "\<And>n r'. r' \<noteq> r \<Longrightarrow>
       (map_of (m_services (mgr s')) n = Some r') = (map_of (m_services (mgr s)) n = Some r')"
    and svc_r: "\<And>n. map_of (m_services (mgr s')) n = Some r \<Longrightarrow> indexed_stage x \<and> n = as_name rec'"
    and idx: "m_shutdown (mgr s) \<Longrightarrow> m_services (mgr s') = []" "keys_distinct (m_services (mgr s'))"
    and rec': "m_recs (mgr s') r = Some rec'" "rec_fits x (mgr s') r (closes s' r) rec'"
      "r \<in> opened s' \<longleftrightarrow> open_stage x"
    and old: "\<And>rec. m_recs (mgr s) r = Some rec \<Longrightarrow> st r \<noteq> Gone \<and> as_name rec = as_name rec' \<and>
            (as_withdrawing rec \<noteq> None \<longrightarrow> as_withdrawing rec' \<noteq> None)"
    and new: "\<And>r' rec. m_recs (mgr s) r = None \<Longrightarrow> m_recs (mgr s) r' = Some rec \<Longrightarrow>
            st r' \<noteq> Gone \<Longrightarrow> as_name rec \<noteq> as_name rec'"
    and own: "owner (st r) = None \<or> owner (st r) = Some t" "owner x = None \<or> owner x = Some t"
      "\<And>r'. r' \<noteq> r \<Longrightarrow> tied t p r' = tied t (threads s t) r'"
      "tied t p r = (if owner x = Some t then Some x else None)"
    and p: "pc_ok (mgr s') p"
    and key: "byKey_ok (st(r := x)) (mgr s')"
    and pan: "\<not> m_panicked (mgr s')"
  shows "sys_inv (st(r := x)) s'"
  unfolding sys_inv_def
proof (intro conjI allI)
  fix r'
  show "rec_ok (st(r := x)) s' r'"
  proof (cases "r' = r")
    case True
    with rec' show ?thesis by (simp add: rec_ok_def)
  next
    case False
    from inv have ok: "rec_ok st s r'" by (simp add: sys_inv_def)
    have op': "r' \<in> opened s' \<longleftrightarrow> r' \<in> opened s" using op False by blast
    have "held (mgr s) r' n \<Longrightarrow> held (mgr s') r' n" for n
      using svc [OF False, of n] sd by (simp add: held_def)
    with rec_ok_mono [OF ok recs [OF False] cl [OF False] op' _ sd nx] False
    show ?thesis by simp
  qed
next
  show "index_ok (st(r := x)) (mgr s')"
    unfolding index_ok_def
  proof (intro conjI allI impI)
    fix n r'
    assume n: "map_of (m_services (mgr s')) n = Some r'"
    from inv have "index_ok st (mgr s)" by (simp add: sys_inv_def)
    then have old: "indexed_stage (st r') \<and> (\<exists>rec. m_recs (mgr s) r' = Some rec \<and> as_name rec = n)"
      if "r' \<noteq> r"
      using n svc [OF that] unfolding index_ok_def by blast
    show "indexed_stage ((st(r := x)) r')"
      using n svc_r old by (cases "r' = r") auto
    show "\<exists>rec. m_recs (mgr s') r' = Some rec \<and> as_name rec = n"
      using n svc_r old recs rec'(1) by (cases "r' = r") auto
  qed (simp_all add: idx sd)
next
  show "threads_ok (st(r := x)) (threads s')"
    using threads_ok_move [of st "threads s" r t x p, OF _ own] inv by (simp add: th sys_inv_def)
next
  fix t'
  have mono: "\<exists>rec'. m_recs (mgr s') r' = Some rec' \<and> as_name rec' = as_name rec \<and>
            (as_withdrawing rec \<noteq> None \<longrightarrow> as_withdrawing rec' \<noteq> None)"
    if "m_recs (mgr s) r' = Some rec" for r' rec
  proof (cases "r' = r")
    case True
    with that old [of rec] rec'(1) show ?thesis by simp
  next
    case False
    with that recs [of r'] show ?thesis by simp
  qed
  from inv have "pc_ok (mgr s) (threads s t')" by (simp add: sys_inv_def)
  then have "pc_ok (mgr s') (threads s t')" by (rule pc_ok_mono) (rule mono)
  with p show "pc_ok (mgr s') (threads s' t')" by (simp add: th)
next
  have u: "m_recs (mgr s) r1 = Some c1 \<Longrightarrow> m_recs (mgr s) r2 = Some c2 \<Longrightarrow> as_name c1 = as_name c2 \<Longrightarrow>
        st r1 \<noteq> Gone \<Longrightarrow> st r2 \<noteq> Gone \<Longrightarrow> r1 = r2" for r1 r2 c1 c2
    using inv by (simp add: sys_inv_def unique_ok_def)
  have v: "r2 = r" if "m_recs (mgr s) r2 = Some c2" "as_name c2 = as_name rec'" "st r2 \<noteq> Gone" for r2 c2
  proof (cases "m_recs (mgr s) r")
    case None
    with that new [of r2 c2] show ?thesis by blast
  next
    case (Some c)
    with that old [of c] u [of r2 c2 r c] show ?thesis by simp
  qed
  have old_rec: "m_recs (mgr s) r' = Some c \<and> st r' \<noteq> Gone"
    if "m_recs (mgr s') r' = Some c" "(st(r := x)) r' \<noteq> Gone" "r' \<noteq> r" for r' c
    using that recs [of r'] by simp
  have eq_r: "r' = r" if "m_recs (mgr s') r' = Some c" "(st(r := x)) r' \<noteq> Gone" "as_name c = as_name rec'"
    for r' c
    using v old_rec [OF that(1,2)] that(3) by blast
  show "unique_ok (st(r := x)) (mgr s')"
    unfolding unique_ok_def
  proof (intro allI impI)
    fix r1 r2 c1 c2
    assume c: "m_recs (mgr s') r1 = Some c1" "m_recs (mgr s') r2 = Some c2" "as_name c1 = as_name c2"
      "(st(r := x)) r1 \<noteq> Gone" "(st(r := x)) r2 \<noteq> Gone"
    show "r1 = r2"
    proof (cases "r1 = r \<or> r2 = r")
      case True
      with c rec'(1) have "as_name c1 = as_name rec'" "as_name c2 = as_name rec'" by auto
      with eq_r c show ?thesis by blast
    next
      case False
      with old_rec c u c(3) show ?thesis by blast
    qed
  qed
qed (simp_all add: key pan)

lemma next_unused: "sys_inv st s \<Longrightarrow> m_recs (mgr s) (m_next (mgr s)) = None"
  by (cases "m_recs (mgr s) (m_next (mgr s))") (auto simp: sys_inv_def rec_ok_def rec_fits_def)

lemma stage_rec:
  assumes "sys_inv st s" "st r \<noteq> Free"
  obtains rec where "m_recs (mgr s) r = Some rec" "rec_fits (st r) (mgr s) r (closes s r) rec"
    "r \<in> opened s \<longleftrightarrow> open_stage (st r)"
  using assms by (cases "m_recs (mgr s) r") (auto simp: sys_inv_def rec_ok_def)

lemma tied_in:
  assumes "sys_inv st s" "tied t (threads s t) r = Some x"
  shows "st r = x \<and> owner x = Some t"
  using assms tied_stage [of st "threads s" t r x] by (simp add: sys_inv_def)

lemma index_lookup:
  assumes "sys_inv st s" "map_of (m_services (mgr s)) n = Some r"
  obtains rec where "indexed_stage (st r)" "m_recs (mgr s) r = Some rec" "as_name rec = n"
    "\<not> m_shutdown (mgr s)"
  using assms by (fastforce simp: sys_inv_def index_ok_def)

lemma byKey_ok_stage:
  "byKey_ok st m \<Longrightarrow> st r \<noteq> Serving \<Longrightarrow> byKey_ok (st(r := x)) m"
  unfolding byKey_ok_def by (metis fun_upd_other)

lemma byKey_ok_update:
  assumes ok: "byKey_ok st m" and "m_byKey m' = m_byKey m" and "st r \<noteq> Serving"
    and "\<And>n r'. r' \<noteq> r \<Longrightarrow> map_of (m_services m) n = Some r' \<Longrightarrow> map_of (m_services m') n = Some r'"
    and "\<And>r'. r' \<noteq> r \<Longrightarrow> m_recs m' r' = m_recs m r'"
  shows "byKey_ok (st(r := x)) m'"
  unfolding byKey_ok_def
proof (intro allI impI)
  fix k n
  assume "map_of (m_byKey m') k = Some n"
  with assms(1,2) obtain r' rec where "map_of (m_services m) n = Some r'" "m_recs m r' = Some rec"
    "st r' = Serving" "k \<in> set (pool_keys (as_pool rec))"
    unfolding byKey_ok_def by metis
  moreover from this assms(3) have "r' \<noteq> r" by auto
  ultimately show "\<exists>r' rec. map_of (m_services m') n = Some r' \<and> m_recs m' r' = Some rec \<and>
      (st(r := x)) r' = Serving \<and> k \<in> set (pool_keys (as_pool rec))"
    using assms(4,5) by auto
qed

text \<open>A step that leaves the service index alone.\<close>

lemma sys_inv_local:
  assumes inv: "sys_inv st s" and rec: "m_recs (mgr s) r = Some rec" "st r \<noteq> Gone"
    and th: "threads s' = (threads s)(t := p)"
    and op: "opened s' - {r} = opened s - {r}"
    and cl: "\<And>r'. r' \<noteq> r \<Longrightarrow> closes s' r' = closes s r'"
    and recs: "m_recs (mgr s') = (m_recs (mgr s))(r \<mapsto> rec')"
    and same: "m_shutdown (mgr s') = m_shutdown (mgr s)" "m_next (mgr s') = m_next (mgr s)"
      "m_services (mgr s') = m_services (mgr s)" "m_panicked (mgr s') = m_panicked (mgr s)"
    and stage: "indexed_stage (st r) \<Longrightarrow> indexed_stage x \<or> m_shutdown (mgr s)"
    and fits: "rec_fits x (mgr s') r (closes s' r) rec'" "r \<in> opened s' \<longleftrightarrow> open_stage x"
    and kept: "as_name rec' = as_name rec" "as_withdrawing rec \<noteq> None \<Longrightarrow> as_withdrawing rec' \<noteq> None"
    and own: "owner (st r) = None \<or> owner (st r) = Some t" "owner x = None \<or> owner x = Some t"
      "\<And>r'. r' \<noteq> r \<Longrightarrow> tied t p r' = tied t (threads s t) r'"
      "tied t p r = (if owner x = Some t then Some x else None)"
    and p: "pc_ok (mgr s') p" and key: "byKey_ok (st(r := x)) (mgr s')"
  shows "sys_inv (st(r := x)) s'"
proof (rule sys_inv_focus [OF inv th op cl _ same(1)])
  show "\<And>n. map_of (m_services (mgr s')) n = Some r \<Longrightarrow> indexed_stage x \<and> n = as_name rec'"
  proof -
    fix n assume "map_of (m_services (mgr s')) n = Some r"
    then have "map_of (m_services (mgr s)) n = Some r" by (simp add: same)
    from index_lookup [OF inv this] obtain c where
      "indexed_stage (st r)" "m_recs (mgr s) r = Some c" "as_name c = n" "\<not> m_shutdown (mgr s)" .
    with stage rec kept show "indexed_stage x \<and> n = as_name rec'" by auto
  qed
  show "m_shutdown (mgr s) \<Longrightarrow> m_services (mgr s') = []" "keys_distinct (m_services (mgr s'))"
    "\<not> m_panicked (mgr s')"
    using inv by (simp_all add: same sys_inv_def index_ok_def)
qed (use recs same rec fits kept own p key in auto)

lemma pc_in: "sys_inv st s \<Longrightarrow> threads s t = p \<Longrightarrow> pc_ok (mgr s) p"
  by (auto simp: sys_inv_def)

lemma byKey_in: "sys_inv st s \<Longrightarrow> byKey_ok st (mgr s)"
  by (simp add: sys_inv_def)

lemma step_listen_ok:
  assumes inv: "sys_inv st s" and pc: "threads s t = Listening r k b"
  shows "sys_inv (st(r := Opened t)) (go t (Listened r k b) (s\<lparr>opened := insert r (opened s)\<rparr>))"
proof -
  have st: "st r = Adv t" using tied_in [OF inv, of t r] pc by simp
  then obtain rec where rec: "m_recs (mgr s) r = Some rec" "rec_fits (st r) (mgr s) r (closes s r) rec"
    using stage_rec [OF inv, of r] by auto
  show ?thesis
    by (rule sys_inv_local [OF inv rec(1), where t = t and rec' = rec])
      (use st rec pc pc_in [OF inv pc] byKey_in [OF inv] in
        \<open>auto simp: rec_fits_def intro: byKey_ok_stage\<close>)
qed

lemma step_listen_err:
  assumes inv: "sys_inv st s" and pc: "threads s t = Listening r k b"
  shows "sys_inv (st(r := Failed t)) (go t (ListenFailed r k e) s)"
proof -
  have st: "st r = Adv t" using tied_in [OF inv, of t r] pc by simp
  then obtain rec where rec: "m_recs (mgr s) r = Some rec" "rec_fits (st r) (mgr s) r (closes s r) rec"
    "r \<notin> opened s"
    using stage_rec [OF inv, of r] by auto
  show ?thesis
    by (rule sys_inv_local [OF inv rec(1), where t = t and rec' = rec])
      (use st rec pc byKey_in [OF inv] in \<open>auto simp: rec_fits_def intro: byKey_ok_stage\<close>)
qed

lemma step_unlisten:
  assumes inv: "sys_inv st s" and pc: "threads s t = Unlisten r k"
  shows "sys_inv (st(r := Gone)) (go t (Returned k e) (close_listener r s))"
proof -
  have st: "st r = Unlist t" using tied_in [OF inv, of t r] pc by simp
  then obtain rec where rec: "m_recs (mgr s) r = Some rec" "rec_fits (st r) (mgr s) r (closes s r) rec"
    using stage_rec [OF inv, of r] by auto
  show ?thesis
    by (rule sys_inv_local [OF inv rec(1), where t = t and rec' = rec])
      (use st rec pc byKey_in [OF inv] in \<open>auto simp: rec_fits_def pending_def intro: byKey_ok_stage\<close>)
qed

lemma step_tear_down:
  assumes inv: "sys_inv st s" and pc: "threads s t = TearDown r n k"
  shows "sys_inv (st(r := Down t))
    (go t (Withdrawn r n k) (close_listener r (s\<lparr>mgr := call_closeFn r (mgr s)\<rparr>)))"
proof -
  have st: "st r = Tear t" using tied_in [OF inv, of t r] pc by simp
  then obtain rec where rec: "m_recs (mgr s) r = Some rec" "rec_fits (st r) (mgr s) r (closes s r) rec"
    using stage_rec [OF inv, of r] by auto
  then have m: "call_closeFn r (mgr s) = mgr s"
    using st by (auto simp: rec_fits_def live_rec_def intro: call_closeFn_armed)
  show ?thesis unfolding m
    by (rule sys_inv_local [OF inv rec(1), where t = t and rec' = rec])
      (use st rec pc pc_in [OF inv pc] byKey_in [OF inv] in
        \<open>auto simp: rec_fits_def intro: byKey_ok_stage\<close>)
qed

lemma step_close_next:
  assumes inv: "sys_inv st s" and pc: "threads s t = Closing (r # rs)"
  shows "sys_inv (st(r := Gone))
    (go t (Closing rs) (close_listener r (s\<lparr>mgr := call_closeFn r (mgr s)\<rparr>)))"
proof -
  have st: "st r = Shut t" using tied_in [OF inv, of t r] pc by simp
  then obtain rec where rec: "m_recs (mgr s) r = Some rec" "rec_fits (st r) (mgr s) r (closes s r) rec"
    using stage_rec [OF inv, of r] by auto
  then have m: "call_closeFn r (mgr s) = mgr s"
    using st by (auto simp: rec_fits_def live_rec_def intro: call_closeFn_armed)
  show ?thesis unfolding m
    by (rule sys_inv_local [OF inv rec(1), where t = t and rec' = rec])
      (use st rec pc pc_in [OF inv pc] byKey_in [OF inv] in
        \<open>auto simp: rec_fits_def live_rec_def intro: byKey_ok_stage\<close>)
qed

text \<open>A step that drops a record from the index.\<close>

lemma sys_inv_drop:
  assumes inv: "sys_inv st s" and rec: "m_recs (mgr s) r = Some rec" "held (mgr s) r (as_name rec)"
      "st r \<noteq> Gone" "st r \<noteq> Serving"
    and m': "m_recs m' = (m_recs (mgr s))(r \<mapsto> rec')" "m_byKey m' = m_byKey (mgr s)"
      "m_services m' = (if map_of (m_services (mgr s)) (as_name rec) = Some r
        then m_del (as_name rec) (m_services (mgr s)) else m_services (mgr s))"
      "m_shutdown m' = m_shutdown (mgr s)" "m_next m' = m_next (mgr s)"
      "m_panicked m' = m_panicked (mgr s)"
    and rec': "as_name rec' = as_name rec" "as_withdrawing rec \<noteq> None \<Longrightarrow> as_withdrawing rec' \<noteq> None"
      "rec_fits x m' r (closes s r) rec'" "r \<in> opened s \<longleftrightarrow> open_stage x"
    and own: "owner (st r) = None \<or> owner (st r) = Some t" "owner x = None \<or> owner x = Some t"
      "\<And>r'. r' \<noteq> r \<Longrightarrow> tied t p r' = tied t (threads s t) r'"
      "tied t p r = (if owner x = Some t then Some x else None)"
    and p: "pc_ok m' p"
  shows "sys_inv (st(r := x)) (go t p (s\<lparr>mgr := m'\<rparr>))"
proof -
  let ?s = "go t p (s\<lparr>mgr := m'\<rparr>)"
  have idx: "map_of (m_services (mgr s)) n = Some r \<Longrightarrow> n = as_name rec" for n
    using index_lookup [OF inv] rec(1) by fastforce
  have sd: "m_shutdown (mgr s) \<Longrightarrow> m_services (mgr s) = []" "keys_distinct (m_services (mgr s))"
    using inv by (auto simp: sys_inv_def index_ok_def)
  have lookup: "map_of (m_services m') n = (if n = as_name rec then None else map_of (m_services (mgr s)) n)"
    for n using rec(2) sd(1) by (auto simp: held_def m'(3))
  have other: "map_of (m_services m') n = Some r' \<longleftrightarrow> map_of (m_services (mgr s)) n = Some r'"
    if "r' \<noteq> r" for n r'
    using that rec(2) sd(1) by (auto simp: lookup held_def)
  show ?thesis
  proof (rule sys_inv_focus [OF inv, where t = t and rec' = rec'])
    show "indexed_stage x \<and> n = as_name rec'" if "map_of (m_services (mgr ?s)) n = Some r" for n
      using that idx by (auto simp: lookup split: if_splits)
    show "keys_distinct (m_services (mgr ?s))"
      using sd(2) by (auto simp: m'(3) keys_distinct_def distinct_delete)
    show "byKey_ok (st(r := x)) (mgr ?s)"
      by (rule byKey_ok_update [OF byKey_in [OF inv]]) (use rec m' other in auto)
    show "m_shutdown (mgr s) \<Longrightarrow> m_services (mgr ?s) = []" using sd(1) by (simp add: m'(3))
    show "\<not> m_panicked (mgr ?s)" using inv by (simp add: sys_inv_def m')
    show "tied t p r = (if owner x = Some t then Some x else None)" by (rule own(4))
  qed (use rec rec' m' other own p in auto)
qed

lemma releaseLocked_pending:
  assumes "m_recs m r = Some rec" "\<not> as_ready rec" "\<not> as_advertised rec"
  shows "releaseLocked r m =
    m\<lparr>m_services := (if map_of (m_services m) (as_name rec) = Some r
                      then m_del (as_name rec) (m_services m) else m_services m),
      m_recs := (m_recs m)(r \<mapsto> rec\<lparr>as_advertised := True\<rparr>)\<rparr>"
  using assms by (simp add: releaseLocked_def close_advertised_def upd_rec_def)

text \<open>Dropping a record that is still pending: a failed listen, or a listen that ends after
  \<^verbatim>\<open>Close\<close>.\<close>

lemma step_release:
  assumes inv: "sys_inv st s" and st: "st r = Failed t \<or> st r = Opened t \<and> m_shutdown (mgr s)"
    and x: "x = (if st r = Failed t then Gone else Unlist t)"
    and own: "\<And>r'. r' \<noteq> r \<Longrightarrow> tied t p r' = tied t (threads s t) r'"
      "tied t p r = (if owner x = Some t then Some x else None)"
    and p: "\<And>m. pc_ok m p"
  shows "sys_inv (st(r := x)) (go t p (s\<lparr>mgr := releaseLocked r (mgr s)\<rparr>))"
proof -
  from st have "st r \<noteq> Free" by auto
  with stage_rec [OF inv] obtain rec where rec: "m_recs (mgr s) r = Some rec"
    "rec_fits (st r) (mgr s) r (closes s r) rec" "r \<in> opened s \<longleftrightarrow> open_stage (st r)"
    by blast
  then have pend: "pending rec" "\<not> as_advertised rec" "r < m_next (mgr s)"
    "held (mgr s) r (as_name rec)" "closes s r = 0"
    using st by (auto simp: rec_fits_def)
  then have m: "releaseLocked r (mgr s) = (mgr s)\<lparr>m_services :=
       (if map_of (m_services (mgr s)) (as_name rec) = Some r
        then m_del (as_name rec) (m_services (mgr s)) else m_services (mgr s)),
       m_recs := (m_recs (mgr s))(r \<mapsto> rec\<lparr>as_advertised := True\<rparr>)\<rparr>"
    using rec by (intro releaseLocked_pending) (auto simp: pending_def)
  show ?thesis
    by (rule sys_inv_drop [OF inv rec(1) pend(4), where t = t and rec' = "rec\<lparr>as_advertised := True\<rparr>"])
      (use st x rec pend own p in \<open>auto simp: m rec_fits_def pending_def\<close>)
qed

lemma step_finish_withdraw:
  assumes inv: "sys_inv st s" and pc: "threads s t = Withdrawn r n k"
  shows "sys_inv (st(r := Gone)) (go t Idle (s\<lparr>mgr := deregister_finish r n (mgr s)\<rparr>))"
proof -
  have st: "st r = Down t" using tied_in [OF inv, of t r] pc by simp
  with stage_rec [OF inv, of r] obtain rec where rec: "m_recs (mgr s) r = Some rec"
    "rec_fits (st r) (mgr s) r (closes s r) rec" "r \<in> opened s \<longleftrightarrow> open_stage (st r)"
    by auto
  then have f: "live_rec rec" "as_withdrawing rec = Some False" "r < m_next (mgr s)"
    "held (mgr s) r (as_name rec)" "closes s r = 1" "as_name rec = n"
    using st pc_in [OF inv pc] by (auto simp: rec_fits_def)
  show ?thesis
    by (rule sys_inv_drop [OF inv rec(1) f(4), where t = t and rec' = "rec\<lparr>as_withdrawing := Some True\<rparr>"])
      (use st rec f pc in \<open>auto simp: deregister_finish_def close_withdrawing_def rec_fits_def live_rec_def
        Let_def split: if_splits\<close>)
qed

lemma byKey_ok_add:
  assumes ok: "byKey_ok st m" and m': "m_byKey m' = m_put k n (m_byKey m)"
      "m_services m' = m_services m" "m_recs m' = (m_recs m)(r \<mapsto> rec')"
    and n: "map_of (m_services m) n = Some r" and k: "k \<in> set (pool_keys (as_pool rec'))"
    and keep: "\<And>rec k'. st r = Serving \<Longrightarrow> m_recs m r = Some rec \<Longrightarrow> k' \<in> set (pool_keys (as_pool rec)) \<Longrightarrow>
        k' \<in> set (pool_keys (as_pool rec'))"
  shows "byKey_ok (st(r := Serving)) m'"
  unfolding byKey_ok_def
proof (intro allI impI)
  fix k' n'
  assume k': "map_of (m_byKey m') k' = Some n'"
  show "\<exists>r' rec. map_of (m_services m') n' = Some r' \<and> m_recs m' r' = Some rec \<and>
      (st(r := Serving)) r' = Serving \<and> k' \<in> set (pool_keys (as_pool rec))"
  proof (cases "k' = k")
    case True
    with k' m' n k show ?thesis by auto
  next
    case False
    with k' m' have "map_of (m_byKey m) k' = Some n'" by simp
    with ok obtain r' rec where *: "map_of (m_services m) n' = Some r'" "m_recs m r' = Some rec"
      "st r' = Serving" "k' \<in> set (pool_keys (as_pool rec))"
      unfolding byKey_ok_def by metis
    show ?thesis
    proof (cases "r' = r")
      case True
      with * keep m' show ?thesis by auto
    next
      case False
      with * m' show ?thesis by auto
    qed
  qed
qed

definition published :: "backend \<Rightarrow> advertisedService \<Rightarrow> advertisedService" where
  "published b rec = rec\<lparr>as_closeFn := True, as_pool := (as_pool rec)\<lparr>members := members (as_pool rec) @ [b]\<rparr>,
     as_ready := True, as_advertised := True\<rparr>"

lemma advertise_locked_ok:
  assumes "m_recs m r = Some rec" "\<not> m_shutdown m" "\<not> as_advertised rec"
  obtains m' where "advertise_locked r k b m = (m', True)"
    "m_recs m' = (m_recs m)(r \<mapsto> published b rec)" "m_byKey m' = m_put k (as_name rec) (m_byKey m)"
    "m_services m' = m_services m" "m_next m' = m_next m" "m_shutdown m' = m_shutdown m"
    "m_panicked m' = m_panicked m"
    "m_metrics m' = map_option (\<lambda>g. g\<lparr>g_active := g_active g + 1,
       g_backends := m_put (as_name rec) (int (Suc (length (members (as_pool rec))))) (g_backends g)\<rparr>) (m_metrics m)"
  by (rule that [of "fst (advertise_locked r k b m)"])
    (use assms in \<open>simp_all add: advertise_locked_def pool_add_eq close_advertised_def published_def
        serviceAdvertised_def setPoolSize_def upd_rec_def option.map_comp comp_def\<close>)

lemma step_publish:
  assumes inv: "sys_inv st s" and pc: "threads s t = Listened r k b" and sd: "\<not> m_shutdown (mgr s)"
  shows "\<exists>m'. advertise_locked r k b (mgr s) = (m', True) \<and>
    sys_inv (st(r := Serving)) (go t (Returned k None) (s\<lparr>mgr := m'\<rparr>))"
proof -
  have st: "st r = Opened t" using tied_in [OF inv, of t r] pc by simp
  with stage_rec [OF inv, of r] obtain rec where rec: "m_recs (mgr s) r = Some rec"
    "rec_fits (st r) (mgr s) r (closes s r) rec" "r \<in> opened s"
    by auto
  then have f: "pending rec" "\<not> as_advertised rec" "map_of (m_services (mgr s)) (as_name rec) = Some r"
    using st sd by (auto simp: rec_fits_def held_def)
  from advertise_locked_ok [OF rec(1) sd f(2), of k b] obtain m' where
    m': "advertise_locked r k b (mgr s) = (m', True)"
    "m_recs m' = (m_recs (mgr s))(r \<mapsto> published b rec)"
    "m_byKey m' = m_put k (as_name rec) (m_byKey (mgr s))"
    "m_services m' = m_services (mgr s)" "m_next m' = m_next (mgr s)"
    "m_shutdown m' = m_shutdown (mgr s)" "m_panicked m' = m_panicked (mgr s)" .
  have "byKey_ok (st(r := Serving)) m'"
    by (rule byKey_ok_add [OF byKey_in [OF inv] m'(3,4,2) f(3)])
      (use st pc_in [OF inv pc] in \<open>auto simp: published_def\<close>)
  then have "sys_inv (st(r := Serving)) (go t (Returned k None) (s\<lparr>mgr := m'\<rparr>))"
    by (intro sys_inv_local [OF inv rec(1), where t = t and rec' = "published b rec"])
      (use st rec f sd m' pc in \<open>auto simp: rec_fits_def published_def pending_def live_rec_def held_def\<close>)
  with m'(1) show ?thesis by blast
qed

lemma indexed_serving:
  assumes inv: "sys_inv st s" and n: "map_of (m_services (mgr s)) n = Some r"
    and rec: "m_recs (mgr s) r = Some rec" and tr: "transition r rec = None"
  shows "st r = Serving"
proof -
  from index_lookup [OF inv n] have i: "indexed_stage (st r)" by blast
  have "rec_fits (st r) (mgr s) r (closes s r) rec"
    using inv rec by (simp add: sys_inv_def rec_ok_def)
  then show ?thesis
    using i tr by (cases "st r") (auto simp: rec_fits_def transition_def pending_def split: if_splits)
qed

definition joined :: "backend \<Rightarrow> advertisedService \<Rightarrow> advertisedService" where
  "joined b rec = rec\<lparr>as_pool := (as_pool rec)\<lparr>members := members (as_pool rec) @ [b]\<rparr>\<rparr>"

definition claimed :: "PServiceDef \<Rightarrow> advertisedService" where
  "claimed def = \<lparr>as_name = pd_service def, as_scheme = pd_scheme def, as_caps = pd_caps def,
     as_pool = newBackendPool, as_ready = False, as_advertised = False,
     as_withdrawing = None, as_closeFn = False\<rparr>"

lemma register_locked_cases [consumes 2]:
  assumes reg: "register_locked k d b m = (m', out)"
    and idx: "\<forall>n r. map_of (m_services m) n = Some r \<longrightarrow> (\<exists>rec. m_recs m r = Some rec \<and> as_name rec = n)"
  obtains
    (shutdown) "m' = m" "out = Return (Some ErrShuttingDown)" "m_shutdown m"
  | (known) "m' = m" "out = Return None" "map_of (m_byKey m) k \<noteq> None" "\<not> m_shutdown m"
  | (claim) "\<not> m_shutdown m" "map_of (m_byKey m) k = None"
      "map_of (m_services m) (pd_service d) = None" "out = Advertise (m_next m)"
      "m' = m\<lparr>m_recs := (m_recs m)(m_next m \<mapsto> claimed d), m_next := Suc (m_next m),
           m_services := m_put (pd_service d) (m_next m) (m_services m)\<rparr>"
  | (wait) r rec ch where "m' = m" "out = Wait ch" "map_of (m_services m) (pd_service d) = Some r"
      "m_recs m r = Some rec" "transition r rec = Some ch" "map_of (m_byKey m) k = None"
  | (conflict) r rec e where "m' = m" "out = Return (Some e)" "m_recs m r = Some rec"
      "map_of (m_services m) (pd_service d) = Some r" "conflictWith rec k d = Some e"
      "map_of (m_byKey m) k = None" "\<not> m_shutdown m"
  | (join) r rec where "\<not> m_shutdown m" "map_of (m_byKey m) k = None"
      "map_of (m_services m) (pd_service d) = Some r" "m_recs m r = Some rec"
      "as_name rec = pd_service d" "transition r rec = None" "conflictWith rec k d = None"
      "out = Return None"
      "m' = setPoolSize (as_name rec) (Suc (length (members (as_pool rec))))
              (m\<lparr>m_recs := (m_recs m)(r \<mapsto> joined b rec),
                 m_byKey := m_put k (as_name rec) (m_byKey m)\<rparr>)"
proof (cases "map_of (m_services m) (pd_service d)")
  case None
  then show ?thesis
    using reg that(1-3) by (auto simp: register_locked_def claimed_def Let_def split: if_splits)
next
  case (Some r)
  with idx obtain rec where rec: "m_recs m r = Some rec" "as_name rec = pd_service d" by blast
  show ?thesis
  proof (cases "m_shutdown m \<or> map_of (m_byKey m) k \<noteq> None")
    case True
    then show ?thesis using reg that(1,2) by (auto simp: register_locked_def split: if_splits)
  next
    case go: False
    show ?thesis
    proof (cases "transition r rec")
      case (Some ch)
      with go reg rec \<open>map_of (m_services m) (pd_service d) = Some r\<close> show ?thesis
        by (intro that(4) [of ch r rec]) (auto simp: register_locked_def)
    next
      case None
      show ?thesis
      proof (cases "conflictWith rec k d")
        case (Some e)
        with go reg rec None \<open>map_of (m_services m) (pd_service d) = Some r\<close> show ?thesis
          by (intro that(5) [of e r rec]) (auto simp: register_locked_def)
      next
        case no: None
        with go reg rec None \<open>map_of (m_services m) (pd_service d) = Some r\<close> show ?thesis
          by (intro that(6) [of r rec])
            (auto simp: register_locked_def pool_add_eq upd_rec_def joined_def)
      qed
    qed
  qed
qed

lemma step_join:
  assumes inv: "sys_inv st s" and pc: "threads s t = Registering k d b"
    and n: "map_of (m_services (mgr s)) (as_name rec) = Some r" and rec: "m_recs (mgr s) r = Some rec"
    and tr: "transition r rec = None"
    and m': "m' = setPoolSize (as_name rec) (Suc (length (members (as_pool rec))))
              ((mgr s)\<lparr>m_recs := (m_recs (mgr s))(r \<mapsto> joined b rec),
                 m_byKey := m_put k (as_name rec) (m_byKey (mgr s))\<rparr>)"
  shows "sys_inv st (go t (Returned k None) (s\<lparr>mgr := m'\<rparr>))"
proof -
  have st: "st r = Serving" by (rule indexed_serving [OF inv n rec tr])
  with stage_rec [OF inv, of r] rec have f: "rec_fits Serving (mgr s) r (closes s r) rec" "r \<in> opened s"
    by auto
  have "byKey_ok (st(r := Serving)) m'"
    by (rule byKey_ok_add [OF byKey_in [OF inv], where n = "as_name rec" and k = k and rec' = "joined b rec"])
      (use n rec pc_in [OF inv pc] in \<open>auto simp: m' joined_def pool_keys_def\<close>)
  then have "sys_inv (st(r := Serving)) (go t (Returned k None) (s\<lparr>mgr := m'\<rparr>))"
    by (intro sys_inv_local [OF inv rec, where t = t and rec' = "joined b rec"])
      (use st f pc in \<open>auto simp: m' rec_fits_def joined_def live_rec_def held_def\<close>)
  with st show ?thesis by (simp add: fun_upd_idem)
qed

lemma step_claim:
  assumes inv: "sys_inv st s" and pc: "threads s t = Registering k d b" and sd: "\<not> m_shutdown (mgr s)"
    and n: "map_of (m_services (mgr s)) (pd_service d) = None" and r: "r = m_next (mgr s)"
    and m': "m' = (mgr s)\<lparr>m_recs := (m_recs (mgr s))(r \<mapsto> claimed d), m_next := Suc r,
           m_services := m_put (pd_service d) r (m_services (mgr s))\<rparr>"
  shows "sys_inv (st(r := Adv t)) (go t (Listening r k b) (s\<lparr>mgr := m'\<rparr>))"
proof -
  let ?s = "go t (Listening r k b) (s\<lparr>mgr := m'\<rparr>)"
  have ok: "rec_ok st s r'" for r' using inv by (simp add: sys_inv_def)
  have fresh: "m_recs (mgr s) r = None"
    using ok [of r] by (cases "m_recs (mgr s) r") (auto simp: rec_ok_def rec_fits_def r)
  with ok [of r] have st: "st r = Free" "closes s r = 0" "r \<notin> opened s" by (auto simp: rec_ok_def)
  have idx: "map_of (m_services (mgr s)) n \<noteq> Some r" for n
    using index_lookup [OF inv, of n r] fresh by auto
  show ?thesis
  proof (rule sys_inv_focus [OF inv, where t = t and rec' = "claimed d"])
    show "indexed_stage (Adv t) \<and> n = as_name (claimed d)" if "map_of (m_services (mgr ?s)) n = Some r" for n
      using that idx by (auto simp: m' claimed_def split: if_splits)
    show "as_name rec \<noteq> as_name (claimed d)"
      if "m_recs (mgr s) r' = Some rec" "st r' \<noteq> Gone" for r' rec
    proof -
      from that ok [of r'] have "rec_fits (st r') (mgr s) r' (closes s r') rec" by (simp add: rec_ok_def)
      with that(2) sd have "map_of (m_services (mgr s)) (as_name rec) = Some r'"
        by (cases "st r'") (auto simp: rec_fits_def held_def)
      with n show ?thesis by (auto simp: claimed_def)
    qed
    show "byKey_ok (st(r := Adv t)) (mgr ?s)"
      by (rule byKey_ok_update [OF byKey_in [OF inv]]) (use st n in \<open>auto simp: m'\<close>)
    show "keys_distinct (m_services (mgr ?s))"
      using inv by (simp add: sys_inv_def index_ok_def keys_distinct_def m' distinct_update)
    show "\<not> m_panicked (mgr ?s)" using inv by (simp add: sys_inv_def m')
    show "rec_fits (Adv t) (mgr ?s) r (closes ?s r) (claimed d)"
      using st by (simp add: rec_fits_def m' claimed_def pending_def held_def)
    show "tied t (Listening r k b) r' = tied t (threads s t) r'" if "r' \<noteq> r" for r'
      using that pc by simp
  qed (use st fresh n sd idx pc pc_in [OF inv pc] in \<open>auto simp: m' r\<close>)
qed

lemma index_recs:
  "sys_inv st s \<Longrightarrow>
     \<forall>n r. map_of (m_services (mgr s)) n = Some r \<longrightarrow> (\<exists>rec. m_recs (mgr s) r = Some rec \<and> as_name rec = n)"
  by (auto simp: sys_inv_def index_ok_def)

lemma step_register:
  assumes inv: "sys_inv st s" and pc: "threads s t = Registering k d b"
    and reg: "register_locked k d b (mgr s) = (m', out)"
  shows "\<exists>st'. sys_inv st' (go t (after_register k d b out) (s\<lparr>mgr := m'\<rparr>))"
proof -
  have ret: "sys_inv st (go t (Returned k e) s)" for e
    using pc by (intro sys_inv_go [OF inv]) auto
  from reg index_recs [OF inv] show ?thesis
proof (cases rule: register_locked_cases)
  case claim
  then show ?thesis
    using step_claim [OF inv pc] by (auto simp: after_register_def)
next
  case (join r rec)
  then show ?thesis
    using step_join [OF inv pc, of rec r m'] by (auto simp: after_register_def)
next
  case (wait r rec ch)
  with pc_in [OF inv pc] have "pc_ok (mgr s) (Waiting k d b ch)"
    by (auto simp: transition_def split: if_splits)
  with wait sys_inv_go [OF inv, of t "Waiting k d b ch"] pc show ?thesis
    by (auto simp: after_register_def)
qed (use ret in \<open>auto simp: after_register_def\<close>)
qed

definition left_by :: "string \<Rightarrow> advertisedService \<Rightarrow> advertisedService" where
  "left_by k rec =
     rec\<lparr>as_pool := (as_pool rec)\<lparr>members := filter (\<lambda>b. b_key b \<noteq> k) (members (as_pool rec))\<rparr>\<rparr>"

lemma deregister_locked_cases [consumes 2]:
  assumes reg: "deregister_locked k m = (m', out)"
    and idx: "\<forall>n. map_of (m_byKey m) k = Some n \<longrightarrow>
       (\<exists>r rec. map_of (m_services m) n = Some r \<and> m_recs m r = Some rec \<and> as_ready rec)"
  obtains
    (unknown) "m' = m" "out = None" "map_of (m_byKey m) k = None"
  | (leave) n r rec where "map_of (m_byKey m) k = Some n" "map_of (m_services m) n = Some r"
      "m_recs m r = Some rec" "members (as_pool (left_by k rec)) \<noteq> []" "out = None"
      "m' = setPoolSize n (length (members (as_pool (left_by k rec))))
              (m\<lparr>m_byKey := m_del k (m_byKey m), m_recs := (m_recs m)(r \<mapsto> left_by k rec)\<rparr>)"
  | (last) n r rec where "map_of (m_byKey m) k = Some n" "map_of (m_services m) n = Some r"
      "m_recs m r = Some rec" "members (as_pool (left_by k rec)) = []" "out = Some (r, n)"
      "m' = m\<lparr>m_byKey := m_del k (m_byKey m),
              m_recs := (m_recs m)(r \<mapsto> (left_by k rec)\<lparr>as_withdrawing := Some False\<rparr>)\<rparr>"
proof (cases "map_of (m_byKey m) k")
  case None
  with reg that(1) show ?thesis by (auto simp: deregister_locked_def)
next
  case (Some n)
  with idx obtain r rec where r: "map_of (m_services m) n = Some r" "m_recs m r = Some rec" "as_ready rec"
    by auto
  show ?thesis
  proof (cases "members (as_pool (left_by k rec)) = []")
    case True
    with reg r Some show ?thesis
      by (intro that(3) [of n r rec])
        (auto simp: deregister_locked_def pool_remove_eq upd_rec_def left_by_def)
  next
    case False
    with reg r Some show ?thesis
      by (intro that(2) [of n r rec])
        (auto simp: deregister_locked_def pool_remove_eq upd_rec_def left_by_def)
  qed
qed

lemma byKey_serving:
  assumes inv: "sys_inv st s" and k: "map_of (m_byKey (mgr s)) k = Some n"
  obtains r rec where "map_of (m_services (mgr s)) n = Some r" "m_recs (mgr s) r = Some rec"
    "st r = Serving" "as_name rec = n" "k \<in> set (pool_keys (as_pool rec))"
    "rec_fits Serving (mgr s) r (closes s r) rec" "r \<in> opened s" "\<not> m_shutdown (mgr s)"
proof -
  from byKey_in [OF inv] k obtain r rec where r: "map_of (m_services (mgr s)) n = Some r"
    "m_recs (mgr s) r = Some rec" "st r = Serving" "k \<in> set (pool_keys (as_pool rec))"
    unfolding byKey_ok_def by metis
  moreover from index_recs [OF inv] r have "as_name rec = n" by fastforce
  moreover from stage_rec [OF inv, of r] r have "rec_fits Serving (mgr s) r (closes s r) rec" "r \<in> opened s"
    by auto
  ultimately show ?thesis using that by (auto simp: rec_fits_def)
qed

lemma byKey_ok_del:
  assumes ok: "byKey_ok st m" and m': "m_byKey m' = m_del k (m_byKey m)"
      "m_services m' = m_services m" "m_recs m' = (m_recs m)(r \<mapsto> rec')"
    and rec: "m_recs m r = Some rec" and keys: "pool_keys (as_pool rec') = filter (\<lambda>x. x \<noteq> k) (pool_keys (as_pool rec))"
    and x: "pool_keys (as_pool rec') \<noteq> [] \<Longrightarrow> x = Serving"
  shows "byKey_ok (st(r := x)) m'"
  unfolding byKey_ok_def
proof (intro allI impI)
  fix k' n'
  assume k': "map_of (m_byKey m') k' = Some n'"
  with m' have ne: "k' \<noteq> k" and "map_of (m_byKey m) k' = Some n'" by (auto split: if_splits)
  with ok obtain r' c where *: "map_of (m_services m) n' = Some r'" "m_recs m r' = Some c"
    "st r' = Serving" "k' \<in> set (pool_keys (as_pool c))"
    unfolding byKey_ok_def by metis
  show "\<exists>r' rec. map_of (m_services m') n' = Some r' \<and> m_recs m' r' = Some rec \<and>
      (st(r := x)) r' = Serving \<and> k' \<in> set (pool_keys (as_pool rec))"
  proof (cases "r' = r")
    case True
    with * rec keys ne have "k' \<in> set (pool_keys (as_pool rec'))" by auto
    moreover from this x have "x = Serving" by fastforce
    ultimately show ?thesis using * True m' by auto
  next
    case False
    with * m' show ?thesis by auto
  qed
qed

lemma left_by_keys [simp]: "pool_keys (as_pool (left_by k rec)) = filter (\<lambda>x. x \<noteq> k) (pool_keys (as_pool rec))"
  by (simp add: left_by_def pool_keys_def filter_map comp_def)

lemma left_by_simps [simp]:
  "as_name (left_by k rec) = as_name rec" "as_ready (left_by k rec) = as_ready rec"
  "as_advertised (left_by k rec) = as_advertised rec" "as_closeFn (left_by k rec) = as_closeFn rec"
  "as_withdrawing (left_by k rec) = as_withdrawing rec"
  by (simp_all add: left_by_def)

lemma pool_keys_empty: "pool_keys p = [] \<longleftrightarrow> members p = []"
  by (simp add: pool_keys_def)

lemma byKey_idx:
  "sys_inv st s \<Longrightarrow> \<forall>n. map_of (m_byKey (mgr s)) k = Some n \<longrightarrow>
     (\<exists>r rec. map_of (m_services (mgr s)) n = Some r \<and> m_recs (mgr s) r = Some rec \<and> as_ready rec)"
  by (meson byKey_serving rec_fits_def fields_ok.simps(6) live_rec_def)

lemma step_deregister:
  assumes inv: "sys_inv st s" and pc: "threads s t = Idle"
    and dereg: "deregister_locked k (mgr s) = (m', out)"
  shows "\<exists>st'. sys_inv st' (go t (case out of None \<Rightarrow> Idle | Some (r, n) \<Rightarrow> TearDown r n k) (s\<lparr>mgr := m'\<rparr>))"
  using dereg byKey_idx [OF inv]
proof (cases rule: deregister_locked_cases)
  case unknown
  have "sys_inv st (go t Idle s)" using pc by (intro sys_inv_go [OF inv]) auto
  with unknown show ?thesis by auto
next
  case (leave n r rec)
  with byKey_serving [OF inv leave(1)] have f: "st r = Serving" "as_name rec = n"
    "rec_fits Serving (mgr s) r (closes s r) rec" "r \<in> opened s" by force+
  have "byKey_ok (st(r := Serving)) m'"
    by (rule byKey_ok_del [OF byKey_in [OF inv], where rec' = "left_by k rec" and k = k and rec = rec])
      (use leave in auto)
  then have "sys_inv (st(r := Serving)) (go t Idle (s\<lparr>mgr := m'\<rparr>))"
    by (intro sys_inv_local [OF inv leave(3), where t = t and rec' = "left_by k rec"])
      (use leave f pc in \<open>auto simp: rec_fits_def live_rec_def held_def\<close>)
  with leave(5) show ?thesis by auto
next
  case (last n r rec)
  with byKey_serving [OF inv last(1)] have f: "st r = Serving" "as_name rec = n"
    "rec_fits Serving (mgr s) r (closes s r) rec" "r \<in> opened s" by force+
  let ?rec = "(left_by k rec)\<lparr>as_withdrawing := Some False\<rparr>"
  have "byKey_ok (st(r := Tear t)) m'"
    by (rule byKey_ok_del [OF byKey_in [OF inv], where rec' = ?rec and k = k and rec = rec])
      (use last pool_keys_empty [of "as_pool (left_by k rec)"] in auto)
  then have "sys_inv (st(r := Tear t)) (go t (TearDown r n k) (s\<lparr>mgr := m'\<rparr>))"
    by (intro sys_inv_local [OF inv last(3), where t = t and rec' = ?rec])
      (use last f pc in \<open>auto simp: rec_fits_def live_rec_def held_def\<close>)
  with last(5) show ?thesis by auto
qed

lemma distinct_snd:
  assumes "distinct (map fst xs)" and "\<And>n r. (n, r) \<in> set xs \<Longrightarrow> f r = n"
  shows "distinct (map snd xs)"
  using assms
proof (induction xs)
  case Nil
  then show ?case by simp
next
  case (Cons x xs)
  obtain n r where x: "x = (n, r)" by fastforce
  have "r \<notin> snd ` set xs"
  proof
    assume "r \<in> snd ` set xs"
    then obtain n' where "(n', r) \<in> set xs" by auto
    moreover from this Cons.prems(2) [of n' r] Cons.prems(2) [of n r] x have "n' = n" by simp
    ultimately show False using Cons.prems(1) x by force
  qed
  moreover have "distinct (map snd xs)" using Cons by simp
  ultimately show ?case by (simp add: x)
qed

lemma index_values_distinct:
  assumes "sys_inv st s"
  shows "distinct (map snd (m_services (mgr s)))"
proof (rule distinct_snd [where f = "name_of (mgr s)"])
  show d: "distinct (map fst (m_services (mgr s)))"
    using assms by (simp add: sys_inv_def index_ok_def keys_distinct_def)
  fix n r assume "(n, r) \<in> set (m_services (mgr s))"
  with d have "map_of (m_services (mgr s)) n = Some r" by simp
  with index_recs [OF assms] show "name_of (mgr s) r = n" by (fastforce simp: name_of_def)
qed

lemma serving_stage:
  assumes inv: "sys_inv st s" and n: "map_of (m_services (mgr s)) n = Some r"
  shows "serving (mgr s) r \<longleftrightarrow> st r = Serving"
proof -
  from index_lookup [OF inv n] obtain rec where rec: "indexed_stage (st r)" "m_recs (mgr s) r = Some rec" .
  have "rec_fits (st r) (mgr s) r (closes s r) rec"
    using inv rec by (simp add: sys_inv_def rec_ok_def)
  then show ?thesis using rec
    by (cases "st r") (auto simp: rec_fits_def serving_def pending_def live_rec_def)
qed

lemma stage_serving_index:
  assumes inv: "sys_inv st s" and "st r = Serving"
  shows "r \<in> set (map snd (m_services (mgr s)))" "serving (mgr s) r"
proof -
  from assms obtain rec where "m_recs (mgr s) r = Some rec" "rec_fits Serving (mgr s) r (closes s r) rec"
    using stage_rec [OF inv, of r] by auto
  then have "map_of (m_services (mgr s)) (as_name rec) = Some r"
    by (auto simp: rec_fits_def held_def)
  then show "r \<in> set (map snd (m_services (mgr s)))" "serving (mgr s) r"
    using serving_stage [OF inv] assms(2) by (force dest: map_of_SomeD, blast)
qed

lemma step_close:
  assumes inv: "sys_inv st s" and pc: "threads s t = Idle" and cl: "close_locked (mgr s) = (m', rs)"
  shows "sys_inv (\<lambda>r. if r \<in> set rs then Shut t else st r) (go t (Closing rs) (s\<lparr>mgr := m'\<rparr>))"
proof -
  let ?st = "\<lambda>r. if r \<in> set rs then Shut t else st r"
  from cl have rs: "rs = filter (serving (mgr s)) (map snd (m_services (mgr s)))"
    and m': "m_recs m' = m_recs (mgr s)" "m_services m' = []" "m_byKey m' = []" "m_shutdown m'"
      "m_next m' = m_next (mgr s)" "m_panicked m' = m_panicked (mgr s)"
    by (auto simp: close_locked_def Let_def)
  have d: "distinct (map fst (m_services (mgr s)))"
    using inv by (simp add: sys_inv_def index_ok_def keys_distinct_def)
  have mem: "r \<in> set rs \<longleftrightarrow> st r = Serving" for r
  proof
    assume "r \<in> set rs"
    then obtain n where "(n, r) \<in> set (m_services (mgr s))" "serving (mgr s) r" by (auto simp: rs)
    with d serving_stage [OF inv, of n r] show "st r = Serving" by simp
  next
    assume "st r = Serving"
    with stage_serving_index [OF inv] show "r \<in> set rs" by (simp add: rs)
  qed
  have "rec_ok ?st (go t (Closing rs) (s\<lparr>mgr := m'\<rparr>)) r" for r
  proof -
    have "rec_ok st s r" using inv by (simp add: sys_inv_def)
    then show ?thesis
      by (cases "st r") (auto simp: rec_ok_def rec_fits_def held_def m' mem)
  qed
  moreover have "index_ok ?st m'" by (simp add: index_ok_def m' keys_distinct_def)
  moreover have "threads_ok ?st ((threads s)(t := Closing rs))"
    using inv pc by (auto simp: sys_inv_def threads_ok_def mem) (metis tied.simps(8) option.simps(3))+
  moreover have "pc_ok m' (((threads s)(t := Closing rs)) t')" for t'
  proof (cases "t' = t")
    case True
    with index_values_distinct [OF inv] show ?thesis by (simp add: rs)
  next
    case False
    have "pc_ok (mgr s) (threads s t')" using inv by (simp add: sys_inv_def)
    then have "pc_ok m' (threads s t')" by (rule pc_ok_mono) (auto simp: m')
    with False show ?thesis by simp
  qed
  moreover have "unique_ok ?st m'"
  proof -
    have gone: "?st r \<noteq> Gone \<longleftrightarrow> st r \<noteq> Gone" for r by (simp add: mem)
    have "unique_ok st (mgr s)" using inv by (simp add: sys_inv_def)
    then show ?thesis unfolding unique_ok_def m' gone .
  qed
  moreover have "byKey_ok ?st m'" by (simp add: byKey_ok_def m')
  moreover have "\<not> m_panicked m'" using inv by (simp add: sys_inv_def m')
  ultimately show ?thesis by (simp add: sys_inv_def)
qed

lemma sys_inv_init: "sys_inv (\<lambda>_. Free) (init_sys mc)"
  by (simp add: sys_inv_def init_sys_def NewManager_def rec_ok_def index_ok_def threads_ok_def
      unique_ok_def byKey_ok_def keys_distinct_def)

lemma sys_inv_step:
  assumes step: "mgr_step disc s s'" and inv: "sys_inv st s"
  shows "\<exists>st'. sys_inv st' s'"
  using step
proof (cases rule: mgr_step.cases)
  case (call_register t k b d)
  then show ?thesis using sys_inv_go [OF inv, of t "Registering k d b"] by auto
next
  case (do_register t k d b m' out)
  then show ?thesis using step_register [OF inv] by blast
next
  case (wake t k d b ch)
  then show ?thesis
    using sys_inv_go [OF inv, of t "Registering k d b"] pc_in [OF inv, of t] by (cases ch) auto
next
  case (do_abandon t r k e)
  then have "st r = Failed t" using tied_in [OF inv, of t r] by simp
  then show ?thesis using do_abandon
    step_release [OF inv, where x = Gone and t = t and r = r and
      p = "Returned k (Some (listen_error (name_of (mgr s) r) e))"]
    by (auto simp: abandon_def)
next
  case (do_publish t r k b m' ok)
  show ?thesis
  proof (cases "m_shutdown (mgr s)")
    case True
    have "st r = Opened t" using tied_in [OF inv, of t r] do_publish by simp
    with True do_publish
      step_release [OF inv, where x = "Unlist t" and t = t and p = "Unlisten r k" and r = r]
    show ?thesis by (auto simp: advertise_locked_def)
  next
    case False
    with step_publish [OF inv do_publish(2)] do_publish show ?thesis by auto
  qed
next
  case (return t k e)
  then show ?thesis using sys_inv_go [OF inv, of t Idle] by auto
next
  case (do_deregister t k m' out)
  then show ?thesis using step_deregister [OF inv] by blast
next
  case (close_done t)
  then show ?thesis using sys_inv_go [OF inv, of t Idle] by auto
next
  case (listen_ok t r k b)
  then show ?thesis using step_listen_ok [OF inv, of t r k b] by auto
next
  case (listen_err t r k b e)
  then show ?thesis using step_listen_err [OF inv, of t r k b] by auto
next
  case (do_unlisten t r k)
  then show ?thesis using step_unlisten [OF inv, of t r k] by auto
next
  case (tear_down t r n k)
  then show ?thesis using step_tear_down [OF inv, of t r n k] by auto
next
  case (finish_withdraw t r n k)
  then show ?thesis using step_finish_withdraw [OF inv, of t r n k] by auto
next
  case (do_close t m' rs)
  then show ?thesis using step_close [OF inv, of t m' rs] by auto
next
  case (close_next t r rs)
  then show ?thesis using step_close_next [OF inv, of t r rs] by auto
qed

lemma reach_inv: "reach disc s \<Longrightarrow> \<exists>st. sys_inv st s"
proof (induction rule: reach.induct)
  case (start mc)
  then show ?case using sys_inv_init by blast
next
  case (step s s')
  then show ?case using sys_inv_step by blast
qed

end
