(* ===== verification/Manager_Ownership.thy ===== *)
theory Manager_Ownership
  imports Manager_Invariant
begin

text \<open>
  The second invariant of the manager, for callers that keep to one operation per key at a time
  (\<open>disc\<close>): the registration keys and the members of the indexed pools are the same thing. A
  registration that has claimed a record has not yet recorded its key; one that returned
  successfully has, unless the manager has been shut down.
\<close>

definition keys_owned :: "sys \<Rightarrow> bool" where
  "keys_owned s \<longleftrightarrow>
     (\<forall>t t' k. key_of (threads s t) = Some k \<longrightarrow> key_of (threads s t') = Some k \<longrightarrow> t = t')"

fun pc_key_ok :: "Manager \<Rightarrow> pc \<Rightarrow> bool" where
  "pc_key_ok m (Listening r k b) = (map_of (m_byKey m) k = None)"
| "pc_key_ok m (Listened r k b) = (map_of (m_byKey m) k = None)"
| "pc_key_ok m (ListenFailed r k e) = (map_of (m_byKey m) k = None)"
| "pc_key_ok m (Returned k None) = (m_shutdown m \<or> map_of (m_byKey m) k \<noteq> None)"
| "pc_key_ok m _ = True"

definition pools_owned :: "Manager \<Rightarrow> bool" where
  "pools_owned m \<longleftrightarrow>
     (\<forall>n r rec. map_of (m_services m) n = Some r \<longrightarrow> m_recs m r = Some rec \<longrightarrow>
        distinct (pool_keys (as_pool rec)) \<and>
        (\<forall>k\<in>set (pool_keys (as_pool rec)). map_of (m_byKey m) k = Some n))"

definition own_inv :: "sys \<Rightarrow> bool" where
  "own_inv s \<longleftrightarrow> keys_owned s \<and> (\<forall>t. pc_key_ok (mgr s) (threads s t)) \<and> pools_owned (mgr s)"

lemma keys_owned_move:
  assumes "keys_owned s" "key_of p = None \<or> key_of p = key_of (threads s t) \<or> (\<exists>k. key_of p = Some k \<and> key_free s k)"
    "threads s' = (threads s)(t := p)"
  shows "keys_owned s'"
  using assms unfolding keys_owned_def key_free_def by (metis fun_upd_apply option.distinct(1))

lemma pc_key_ok_other:
  assumes "pc_key_ok m p" "key_of p \<noteq> Some k" "m_shutdown m' = m_shutdown m"
    "\<And>k'. k' \<noteq> k \<Longrightarrow> map_of (m_byKey m') k' = map_of (m_byKey m) k'"
  shows "pc_key_ok m' p"
  using assms by (cases "(m, p)" rule: pc_key_ok.cases) auto

lemma other_key:
  assumes "keys_owned s" "key_of (threads s t) = Some k" "t' \<noteq> t"
  shows "key_of (threads s t') \<noteq> Some k"
  using assms unfolding keys_owned_def by blast

lemma pools_owned_add:
  assumes own: "pools_owned m" and k: "map_of (m_byKey m) k = None"
    and inj: "\<And>n' r'. map_of (m_services m) n' = Some r' \<Longrightarrow> r' = r \<Longrightarrow> n' = n"
    and rec: "m_recs m r = Some rec" "map_of (m_services m) n = Some r"
    and m': "m_byKey m' = m_put k n (m_byKey m)" "m_services m' = m_services m"
      "m_recs m' = (m_recs m)(r \<mapsto> rec')"
    and rec': "pool_keys (as_pool rec') = pool_keys (as_pool rec) @ [k]"
  shows "pools_owned m'"
  unfolding pools_owned_def
proof (intro allI impI)
  fix n' r' c
  assume n': "map_of (m_services m') n' = Some r'" and c: "m_recs m' r' = Some c"
  have fresh: "k \<notin> set (pool_keys (as_pool c'))" if "m_recs m r' = Some c'" for c'
    using own that n' k m'(2) unfolding pools_owned_def by fastforce
  show "distinct (pool_keys (as_pool c)) \<and> (\<forall>k\<in>set (pool_keys (as_pool c)). map_of (m_byKey m') k = Some n')"
  proof (cases "r' = r")
    case True
    with inj n' m'(2) have "n' = n" by simp
    moreover have "distinct (pool_keys (as_pool rec)) \<and> (\<forall>k\<in>set (pool_keys (as_pool rec)). map_of (m_byKey m) k = Some n)"
      using own rec unfolding pools_owned_def by blast
    ultimately show ?thesis using True c m' rec' fresh rec by auto
  next
    case False
    with c m' have c': "m_recs m r' = Some c" by simp
    with own n' m'(2) have "distinct (pool_keys (as_pool c)) \<and> (\<forall>k\<in>set (pool_keys (as_pool c)). map_of (m_byKey m) k = Some n')"
      unfolding pools_owned_def by simp
    with fresh [OF c'] m'(1) show ?thesis by auto
  qed
qed

lemma pools_owned_shrink:
  assumes own: "pools_owned m"
    and "\<And>n r. map_of (m_services m') n = Some r \<Longrightarrow> map_of (m_services m) n = Some r"
    and "\<And>r rec. m_recs m' r = Some rec \<Longrightarrow> \<exists>c. m_recs m r = Some c \<and> as_pool c = as_pool rec"
    and "m_byKey m' = m_byKey m"
  shows "pools_owned m'"
  unfolding pools_owned_def
proof (intro allI impI)
  fix n r rec
  assume "map_of (m_services m') n = Some r" "m_recs m' r = Some rec"
  with assms(2,3) obtain c where "map_of (m_services m) n = Some r" "m_recs m r = Some c"
    "as_pool c = as_pool rec" by blast
  with own assms(4) show "distinct (pool_keys (as_pool rec)) \<and>
      (\<forall>k\<in>set (pool_keys (as_pool rec)). map_of (m_byKey m') k = Some n)"
    unfolding pools_owned_def by metis
qed

lemma pools_owned_del:
  assumes own: "pools_owned m" and k: "map_of (m_byKey m) k = Some n"
    and n: "map_of (m_services m) n = Some r" "m_recs m r = Some rec"
    and m': "m_byKey m' = m_del k (m_byKey m)" "m_services m' = m_services m"
      "m_recs m' = (m_recs m)(r \<mapsto> rec')"
    and rec': "pool_keys (as_pool rec') = filter (\<lambda>x. x \<noteq> k) (pool_keys (as_pool rec))"
  shows "pools_owned m'"
  unfolding pools_owned_def
proof (intro allI impI)
  fix n' r' c
  assume n': "map_of (m_services m') n' = Some r'" and c: "m_recs m' r' = Some c"
  show "distinct (pool_keys (as_pool c)) \<and> (\<forall>k\<in>set (pool_keys (as_pool c)). map_of (m_byKey m') k = Some n')"
  proof (cases "r' = r")
    case True
    have "distinct (pool_keys (as_pool rec)) \<and> (\<forall>k\<in>set (pool_keys (as_pool rec)). map_of (m_byKey m) k = Some n')"
      using own n(2) n' True m'(2) unfolding pools_owned_def by metis
    then show ?thesis using True c m' rec' by auto
  next
    case False
    with c m' have c': "m_recs m r' = Some c" by simp
    with own n' m'(2) have *: "distinct (pool_keys (as_pool c)) \<and> (\<forall>k\<in>set (pool_keys (as_pool c)). map_of (m_byKey m) k = Some n')"
      unfolding pools_owned_def by simp
    have "k \<notin> set (pool_keys (as_pool c))"
      using * k n n' m'(2) False by auto
    with * m'(1) show ?thesis by auto
  qed
qed

lemma index_inj:
  assumes "sys_inv st s" "map_of (m_services (mgr s)) n = Some r" "map_of (m_services (mgr s)) n' = Some r"
  shows "n' = n"
  using index_lookup [OF assms(1,2)] index_lookup [OF assms(1,3)] by (metis option.inject)

text \<open>Only the goroutine moves, to a place that makes no claim about its key.\<close>

lemma own_move:
  assumes own: "own_inv s" and m: "mgr s' = mgr s" and th: "threads s' = (threads s)(t := p)"
    and p: "key_of p = None \<or> key_of p = key_of (threads s t) \<or> (\<exists>k. key_of p = Some k \<and> key_free s k)"
      "pc_key_ok (mgr s) p"
  shows "own_inv s'"
  using own keys_owned_move [OF _ p(1) th] p(2) by (simp add: own_inv_def m th)

lemma own_update:
  assumes own: "own_inv s" and th: "threads s' = (threads s)(t := p)"
    and k: "key_of (threads s t) = Some k" "key_of p = Some k" "pc_key_ok (mgr s') p"
    and m: "m_shutdown (mgr s') = m_shutdown (mgr s)"
      "\<And>k'. k' \<noteq> k \<Longrightarrow> map_of (m_byKey (mgr s')) k' = map_of (m_byKey (mgr s)) k'"
    and pools: "pools_owned (mgr s')"
  shows "own_inv s'"
proof -
  from own have ko: "keys_owned s" and pk: "\<And>t. pc_key_ok (mgr s) (threads s t)"
    by (auto simp: own_inv_def)
  have "pc_key_ok (mgr s') (threads s t')" if "t' \<noteq> t" for t'
    by (rule pc_key_ok_other [OF pk other_key [OF ko k(1) that] m])
  moreover have "keys_owned s'" using keys_owned_move [OF ko _ th] k by simp
  ultimately show ?thesis using k(3) pools by (simp add: own_inv_def th)
qed

lemma own_register:
  assumes inv: "sys_inv st s" and own: "own_inv s" and pc: "threads s t = Registering k d b"
    and reg: "register_locked k d b (mgr s) = (m', out)"
  shows "own_inv (go t (after_register k d b out) (s\<lparr>mgr := m'\<rparr>))"
  using reg index_recs [OF inv]
proof (cases rule: register_locked_cases)
  case claim
  have "pools_owned m'"
    using own claim unfolding own_inv_def pools_owned_def
    by (auto simp: claimed_def split: if_splits)
  with claim show ?thesis
    by (intro own_update [OF own, where t = t and k = k]) (auto simp: pc after_register_def)
next
  case (join r rec)
  have "pools_owned m'"
  proof (rule pools_owned_add [where n = "as_name rec" and rec' = "joined b rec"])
    show "pools_owned (mgr s)" using own by (simp add: own_inv_def)
    show "n' = as_name rec" if "map_of (m_services (mgr s)) n' = Some r'" "r' = r" for n' r'
      using index_inj [OF inv] join that by metis
    show "pool_keys (as_pool (joined b rec)) = pool_keys (as_pool rec) @ [k]"
      using pc_in [OF inv pc] by (simp add: joined_def pool_keys_def)
  qed (use join in auto)
  with join show ?thesis
    by (intro own_update [OF own, where t = t and k = k]) (auto simp: pc after_register_def)
qed (use own_move [OF own, where t = t] pc in \<open>auto simp: after_register_def\<close>)

lemma own_publish:
  assumes inv: "sys_inv st s" and own: "own_inv s" and pc: "threads s t = Listened r k b"
    and sd: "\<not> m_shutdown (mgr s)" and adv: "advertise_locked r k b (mgr s) = (m', True)"
  shows "own_inv (go t (Returned k None) (s\<lparr>mgr := m'\<rparr>))"
proof -
  have st: "st r = Opened t" using tied_in [OF inv, of t r] pc by simp
  with stage_rec [OF inv, of r] sd obtain rec where rec: "m_recs (mgr s) r = Some rec"
    "\<not> as_advertised rec" "map_of (m_services (mgr s)) (as_name rec) = Some r"
    by (auto simp: rec_fits_def held_def)
  from advertise_locked_ok [OF rec(1) sd rec(2), of k b] adv have
    m': "m_recs m' = (m_recs (mgr s))(r \<mapsto> published b rec)"
    "m_byKey m' = m_put k (as_name rec) (m_byKey (mgr s))"
    "m_services m' = m_services (mgr s)" "m_shutdown m' = m_shutdown (mgr s)"
    by (metis prod.inject)+
  have "pc_key_ok (mgr s) (threads s t)" using own by (simp add: own_inv_def)
  then have k: "map_of (m_byKey (mgr s)) k = None" by (simp add: pc)
  have "pools_owned m'"
  proof (rule pools_owned_add [OF _ k, where n = "as_name rec" and rec' = "published b rec"])
    show "pools_owned (mgr s)" using own by (simp add: own_inv_def)
    show "n' = as_name rec" if "map_of (m_services (mgr s)) n' = Some r'" "r' = r" for n' r'
      using index_inj [OF inv] rec that by metis
    show "pool_keys (as_pool (published b rec)) = pool_keys (as_pool rec) @ [k]"
      using pc_in [OF inv pc] by (simp add: published_def pool_keys_def)
  qed (use rec m' in auto)
  with m' show ?thesis
    by (intro own_update [OF own, where t = t and k = k]) (auto simp: pc)
qed

lemma releaseLocked_frames:
  "m_byKey (releaseLocked r m) = m_byKey m" "m_shutdown (releaseLocked r m) = m_shutdown m"
  "map_of (m_services (releaseLocked r m)) n = Some r' \<Longrightarrow> map_of (m_services m) n = Some r'"
  "m_recs (releaseLocked r m) r' = Some rec \<Longrightarrow> \<exists>c. m_recs m r' = Some c \<and> as_pool c = as_pool rec"
  by (auto simp: releaseLocked_def close_advertised_def Let_def split: option.splits if_splits)

lemma deregister_finish_frames:
  "m_byKey (deregister_finish r n m) = m_byKey m" "m_shutdown (deregister_finish r n m) = m_shutdown m"
  "map_of (m_services (deregister_finish r n m)) n' = Some r' \<Longrightarrow> map_of (m_services m) n' = Some r'"
  "m_recs (deregister_finish r n m) r' = Some rec \<Longrightarrow> \<exists>c. m_recs m r' = Some c \<and> as_pool c = as_pool rec"
  by (auto simp: deregister_finish_def close_withdrawing_def Let_def split: option.splits if_splits)

lemma call_closeFn_frames [simp]:
  "m_byKey (call_closeFn r m) = m_byKey m" "m_shutdown (call_closeFn r m) = m_shutdown m"
  "m_services (call_closeFn r m) = m_services m" "m_recs (call_closeFn r m) = m_recs m"
  "m_metrics (call_closeFn r m) = m_metrics m"
  by (auto simp: call_closeFn_def split: option.splits)

lemma pc_key_ok_cong:
  "m_byKey m' = m_byKey m \<Longrightarrow> m_shutdown m' = m_shutdown m \<Longrightarrow> pc_key_ok m' p = pc_key_ok m p"
  by (cases "(m, p)" rule: pc_key_ok.cases) auto

text \<open>The registration keys do not change and no pool grows.\<close>

lemma own_shrink:
  assumes own: "own_inv s" and th: "threads s' = (threads s)(t := p)"
    and p: "key_of p = None \<or> key_of p = key_of (threads s t)" "pc_key_ok (mgr s') p"
    and m: "m_byKey (mgr s') = m_byKey (mgr s)" "m_shutdown (mgr s') = m_shutdown (mgr s)"
    and svc: "\<And>n r. map_of (m_services (mgr s')) n = Some r \<Longrightarrow> map_of (m_services (mgr s)) n = Some r"
    and recs: "\<And>r rec. m_recs (mgr s') r = Some rec \<Longrightarrow> \<exists>c. m_recs (mgr s) r = Some c \<and> as_pool c = as_pool rec"
  shows "own_inv s'"
proof -
  have "keys_owned s'" using own keys_owned_move [OF _ _ th] p(1) by (auto simp: own_inv_def)
  moreover have "pc_key_ok (mgr s') (threads s' t')" for t'
    using own p(2) pc_key_ok_cong [OF m] by (simp add: own_inv_def th)
  moreover have "pools_owned (mgr s')"
    using own by (intro pools_owned_shrink [OF _ svc recs m(1)]) (simp add: own_inv_def)
  ultimately show ?thesis by (simp add: own_inv_def)
qed

lemma own_deregister:
  assumes inv: "sys_inv st s" and own: "own_inv s" and pc: "threads s t = Idle" and free: "key_free s k"
    and dereg: "deregister_locked k (mgr s) = (m', out)"
  shows "own_inv (go t (case out of None \<Rightarrow> Idle | Some (r, n) \<Rightarrow> TearDown r n k) (s\<lparr>mgr := m'\<rparr>))"
proof -
  have pk: "pc_key_ok m' (threads s t')"
    if "m_shutdown m' = m_shutdown (mgr s)" "m_byKey m' = m_del k (m_byKey (mgr s))" for t'
    by (rule pc_key_ok_other [where m = "mgr s" and k = k])
      (use own free that in \<open>auto simp: own_inv_def key_free_def\<close>)
  have ko: "keys_owned (go t p (s\<lparr>mgr := m'\<rparr>))" if "key_of p = None \<or> key_of p = Some k" for p
    by (rule keys_owned_move [where s = s and t = t and p = p])
      (use own free that in \<open>auto simp: own_inv_def\<close>)
  have po: "pools_owned (mgr s)" using own by (simp add: own_inv_def)
  from dereg byKey_idx [OF inv] show ?thesis
  proof (cases rule: deregister_locked_cases)
    case unknown
    then show ?thesis using own_move [OF own, where t = t and p = Idle] pc by auto
  next
    case (leave n r rec)
    have "pools_owned m'"
      by (rule pools_owned_del [OF po leave(1-3), where rec' = "left_by k rec"]) (use leave in auto)
    with leave pk ko [of Idle] show ?thesis by (simp add: own_inv_def)
  next
    case (last n r rec)
    have "pools_owned m'"
      by (rule pools_owned_del [OF po last(1-3), where rec' = "(left_by k rec)\<lparr>as_withdrawing := Some False\<rparr>"])
        (use last in auto)
    with last pk ko [of "TearDown r n k"] show ?thesis by (simp add: own_inv_def)
  qed
qed

lemma own_close:
  assumes own: "own_inv s" and pc: "threads s t = Idle" and cl: "close_locked (mgr s) = (m', rs)"
  shows "own_inv (go t (Closing rs) (s\<lparr>mgr := m'\<rparr>))"
proof -
  from cl have m': "m_services m' = []" "m_byKey m' = []" "m_shutdown m'"
    by (auto simp: close_locked_def Let_def)
  have "pc_key_ok m' p" for p by (cases "(m', p)" rule: pc_key_ok.cases) (auto simp: m')
  moreover have "keys_owned (go t (Closing rs) (s\<lparr>mgr := m'\<rparr>))"
    by (rule keys_owned_move [where s = s and t = t and p = "Closing rs"]) (use own in \<open>auto simp: own_inv_def\<close>)
  ultimately show ?thesis by (simp add: own_inv_def pools_owned_def m')
qed

lemma own_step:
  assumes step: "mgr_step True s s'" and inv: "sys_inv st s" and own: "own_inv s"
  shows "own_inv s'"
  using step
proof (cases rule: mgr_step.cases)
  case (call_register t k b d)
  then show ?thesis by (auto intro: own_move [OF own, where t = t and p = "Registering k d b"])
next
  case (do_register t k d b m' out)
  then show ?thesis using own_register [OF inv own] by simp
next
  case (do_abandon t r k e)
  then show ?thesis
    by (intro own_shrink [OF own, where t = t])
      (auto simp: abandon_def releaseLocked_frames(1,2) dest: releaseLocked_frames(3,4))
next
  case (do_publish t r k b m' ok)
  show ?thesis
  proof (cases "m_shutdown (mgr s)")
    case True
    with do_publish show ?thesis
      by (intro own_shrink [OF own, where t = t])
        (auto simp: advertise_locked_def releaseLocked_frames(1,2) dest: releaseLocked_frames(3,4))
  next
    case False
    with step_publish [OF inv do_publish(2)] do_publish own_publish [OF inv own do_publish(2) False]
    show ?thesis by auto
  qed
next
  case (do_deregister t k m' out)
  then show ?thesis using own_deregister [OF inv own] by simp
next
  case (finish_withdraw t r n k)
  then show ?thesis
    by (intro own_shrink [OF own, where t = t]) (auto simp: deregister_finish_frames(1,2) dest: deregister_finish_frames(3,4))
next
  case (do_close t m' rs)
  then show ?thesis using own_close [OF own] by simp
next
  case (wake t k d b ch)
  then show ?thesis by (auto intro: own_shrink [OF own, where t = t])
next
  case (listen_ok t r k b)
  moreover have "pc_key_ok (mgr s) (threads s t)" using own by (simp add: own_inv_def)
  ultimately show ?thesis by (intro own_shrink [OF own, where t = t]) auto
next
  case (listen_err t r k b e)
  moreover have "pc_key_ok (mgr s) (threads s t)" using own by (simp add: own_inv_def)
  ultimately show ?thesis by (intro own_shrink [OF own, where t = t]) auto
next
  case (do_unlisten t r k)
  then show ?thesis by (auto intro: own_shrink [OF own, where t = t])
next
  case (return t k e)
  then show ?thesis by (auto intro: own_shrink [OF own, where t = t])
next
  case (tear_down t r n k)
  then show ?thesis by (auto intro: own_shrink [OF own, where t = t])
next
  case (close_next t r rs)
  then show ?thesis by (auto intro: own_shrink [OF own, where t = t])
next
  case (close_done t)
  then show ?thesis by (auto intro: own_shrink [OF own, where t = t])
qed

lemma own_inv_init: "own_inv (init_sys mc)"
  by (simp add: own_inv_def init_sys_def keys_owned_def pools_owned_def NewManager_def)

lemma reach_own: "reach True s \<Longrightarrow> own_inv s"
proof (induction rule: reach.induct)
  case (start mc)
  show ?case by (rule own_inv_init)
next
  case (step s s')
  from reach_inv [OF step(1)] step show ?case using own_step by blast
qed

end
