(* ===== verification/Manager_Gauges.thy ===== *)
theory Manager_Gauges
  imports Manager_Ownership
begin

text \<open>
  The third invariant of the manager: the Prometheus gauges agree with the index, at every
  moment between two critical sections and for any interleaving of the callers.
\<close>

section \<open>The ready services\<close>

definition ready_at :: "Manager \<Rightarrow> string \<Rightarrow> advertisedService option" where
  "ready_at m n =
     (case map_of (m_services m) n of
        None \<Rightarrow> None
      | Some r \<Rightarrow> (case m_recs m r of
                    Some rec \<Rightarrow> if as_ready rec then Some rec else None
                  | None \<Rightarrow> None))"

definition gauges_match :: "(string \<rightharpoonup> advertisedService) \<Rightarrow> gauges option \<Rightarrow> bool" where
  "gauges_match f mc \<longleftrightarrow>
     (\<forall>g. mc = Some g \<longrightarrow>
        g_active g = int (card (dom f)) \<and>
        (\<forall>n. (f n = None \<longrightarrow> map_of (g_backends g) n = None) \<and>
             (\<forall>rec. f n = Some rec \<longrightarrow> as_withdrawing rec = None \<longrightarrow>
                map_of (g_backends g) n = Some (int (length (members (as_pool rec)))))))"

definition gauges_ok :: "Manager \<Rightarrow> bool" where
  "gauges_ok m \<longleftrightarrow> gauges_match (ready_at m) (m_metrics m)"

lemma finite_ready: "finite (dom (ready_at m))"
proof (rule finite_subset)
  show "dom (ready_at m) \<subseteq> dom (map_of (m_services m))"
    by (auto simp: ready_at_def split: option.splits)
qed (rule finite_dom_map_of)

lemma gauges_match_resize:
  assumes "gauges_match f mc" "f n = Some rec" "finite (dom f)"
    "as_withdrawing rec' = None \<longrightarrow> k = length (members (as_pool rec'))"
  shows "gauges_match (f(n \<mapsto> rec'))
    (map_option (\<lambda>g. g\<lparr>g_backends := m_put n (int k) (g_backends g)\<rparr>) mc)"
proof -
  have "insert n (dom f) = dom f" using assms(2) by auto
  with assms show ?thesis by (auto simp: gauges_match_def)
qed

lemma gauges_match_withdraw:
  assumes "gauges_match f mc" "f n = Some rec" "as_withdrawing rec' \<noteq> None"
  shows "gauges_match (f(n \<mapsto> rec')) mc"
proof -
  have "insert n (dom f) = dom f" using assms(2) by auto
  with assms show ?thesis by (auto simp: gauges_match_def)
qed

lemma gauges_match_new:
  assumes "gauges_match f mc" "f n = None" "finite (dom f)" "k = length (members (as_pool rec'))"
  shows "gauges_match (f(n \<mapsto> rec'))
    (map_option (\<lambda>g. g\<lparr>g_active := g_active g + 1, g_backends := m_put n (int k) (g_backends g)\<rparr>) mc)"
proof -
  have "n \<notin> dom f" using assms(2) by auto
  with assms show ?thesis by (auto simp: gauges_match_def)
qed

lemma gauges_match_gone:
  assumes "gauges_match f mc" "f n = Some rec" "finite (dom f)"
  shows "gauges_match (f(n := None))
    (map_option (\<lambda>g. g\<lparr>g_active := g_active g - 1, g_backends := m_del n (g_backends g)\<rparr>) mc)"
proof -
  have "n \<in> dom f" using assms(2) by auto
  then have "card (dom f) = Suc (card (dom f - {n}))"
    using assms(3) by (simp only: card_Suc_Diff1)
  with assms show ?thesis by (auto simp: gauges_match_def)
qed

section \<open>How the operations change them\<close>

lemma ready_at_update:
  assumes idx: "\<And>n'. map_of (m_services m) n' = Some r \<Longrightarrow> n' = n"
    and n: "map_of (m_services m) n = Some r"
    and m': "m_services m' = m_services m" "m_recs m' = (m_recs m)(r \<mapsto> rec')"
  shows "ready_at m' = (ready_at m)(n := (if as_ready rec' then Some rec' else None))"
proof
  fix n'
  have "map_of (m_services m) n' \<noteq> Some r" if "n' \<noteq> n" using idx that by blast
  then show "ready_at m' n' = ((ready_at m)(n := (if as_ready rec' then Some rec' else None))) n'"
    using n m' by (cases "n' = n"; cases "map_of (m_services m) n'") (auto simp: ready_at_def)
qed

lemma index_name:
  assumes "sys_inv st s" "map_of (m_services (mgr s)) n = Some r" "m_recs (mgr s) r = Some rec"
  shows "as_name rec = n"
  using assms by (auto elim: index_lookup)

lemma index_unique:
  assumes "sys_inv st s" "map_of (m_services (mgr s)) n = Some r" "map_of (m_services (mgr s)) n' = Some r"
  shows "n' = n"
  using assms by (metis index_lookup option.inject)

lemma ready_at_cong:
  "m_services m' = m_services m \<Longrightarrow> m_recs m' = m_recs m \<Longrightarrow> ready_at m' = ready_at m"
  by (rule ext) (simp add: ready_at_def cong: option.case_cong)

lemma gauges_ok_same:
  assumes "gauges_ok m" "ready_at m' = ready_at m" "m_metrics m' = m_metrics m"
  shows "gauges_ok m'"
  using assms by (simp add: gauges_ok_def)

lemma ready_at_drop:
  assumes n: "ready_at m n = None" and idx: "\<And>n'. map_of (m_services m) n' = Some r \<Longrightarrow> n' = n"
    and m': "\<And>n'. n' \<noteq> n \<Longrightarrow> map_of (m_services m') n' = map_of (m_services m) n'"
      "map_of (m_services m') n = None \<or> map_of (m_services m') n = map_of (m_services m) n \<and> map_of (m_services m) n \<noteq> Some r"
      "\<And>r'. r' \<noteq> r \<Longrightarrow> m_recs m' r' = m_recs m r'"
  shows "ready_at m' = ready_at m"
proof
  fix n' show "ready_at m' n' = ready_at m n'"
  proof (cases "n' = n")
    case True
    with n m'(2,3) show ?thesis by (cases "map_of (m_services m) n") (auto simp: ready_at_def)
  next
    case False
    then have "map_of (m_services m) n' \<noteq> Some r" using idx by blast
    then have "m_recs m' (the (map_of (m_services m) n')) = m_recs m (the (map_of (m_services m) n'))
       \<or> map_of (m_services m) n' = None"
      using m'(3) by (cases "map_of (m_services m) n'") auto
    with False m'(1) show ?thesis by (cases "map_of (m_services m) n'") (auto simp: ready_at_def)
  qed
qed

lemma gauges_register:
  assumes inv: "sys_inv st s" and g: "gauges_ok (mgr s)"
    and reg: "register_locked k d b (mgr s) = (m', out)"
  shows "gauges_ok m'"
  using reg index_recs [OF inv]
proof (cases rule: register_locked_cases)
  case claim
  have "m_recs (mgr s) (m_next (mgr s)) = None"
  proof (rule ccontr)
    assume "m_recs (mgr s) (m_next (mgr s)) \<noteq> None"
    then obtain c where "m_recs (mgr s) (m_next (mgr s)) = Some c" by auto
    with inv show False by (auto simp: sys_inv_def rec_ok_def rec_fits_def)
  qed
  then have "map_of (m_services (mgr s)) n \<noteq> Some (m_next (mgr s))" for n
    using index_recs [OF inv] by fastforce
  then have "ready_at m' = ready_at (mgr s)"
    using claim by (auto simp: ready_at_def claimed_def fun_eq_iff split: option.splits)
  with g claim show ?thesis by (auto intro: gauges_ok_same)
next
  case (join r rec)
  have rdy: "as_ready rec" using join by (auto simp: transition_def split: if_splits)
  have "ready_at m' = (ready_at (mgr s))(pd_service d \<mapsto> joined b rec)"
    by (subst ready_at_update [where m = "mgr s" and r = r and n = "pd_service d" and rec' = "joined b rec"])
      (use join rdy index_unique [OF inv] in \<open>auto simp: joined_def\<close>)
  moreover have "ready_at (mgr s) (pd_service d) = Some rec" using join rdy by (simp add: ready_at_def)
  moreover have "length (members (as_pool (joined b rec))) = Suc (length (members (as_pool rec)))"
    by (simp add: joined_def)
  moreover have "m_metrics m' = map_option (\<lambda>g. g\<lparr>g_backends :=
      m_put (pd_service d) (int (Suc (length (members (as_pool rec))))) (g_backends g)\<rparr>) (m_metrics (mgr s))"
    using join by (simp add: setPoolSize_def)
  ultimately show ?thesis
    using g by (simp only: gauges_ok_def) (rule gauges_match_resize [OF _ _ finite_ready], simp_all)
qed (use g in auto)

lemma gauges_publish:
  assumes inv: "sys_inv st s" and g: "gauges_ok (mgr s)" and pc: "threads s t = Listened r k b"
    and sd: "\<not> m_shutdown (mgr s)" and pub: "advertise_locked r k b (mgr s) = (m', ok)"
  shows "gauges_ok m'"
proof -
  have st: "st r = Opened t" using tied_in [OF inv, of t r] pc by simp
  then obtain rec where rec: "m_recs (mgr s) r = Some rec" and
    fits: "rec_fits (Opened t) (mgr s) r (closes s r) rec" using stage_rec [OF inv] by (metis stage.distinct(3))
  then have f: "\<not> as_ready rec" "\<not> as_advertised rec" "members (as_pool rec) = []"
    "map_of (m_services (mgr s)) (as_name rec) = Some r"
    using sd by (auto simp: rec_fits_def pending_def held_def)
  from rec sd f(2) obtain m'' where m'': "advertise_locked r k b (mgr s) = (m'', True)"
    "m_recs m'' = (m_recs (mgr s))(r \<mapsto> published b rec)" "m_services m'' = m_services (mgr s)"
    "m_metrics m'' = map_option (\<lambda>g. g\<lparr>g_active := g_active g + 1,
       g_backends := m_put (as_name rec) (int (Suc (length (members (as_pool rec))))) (g_backends g)\<rparr>) (m_metrics (mgr s))"
    by (rule advertise_locked_ok)
  with pub have [simp]: "m' = m''" by simp
  have "ready_at m'' = (ready_at (mgr s))(as_name rec \<mapsto> published b rec)"
    by (subst ready_at_update [where m = "mgr s" and r = r and n = "as_name rec" and rec' = "published b rec"])
      (use m'' f index_unique [OF inv] in \<open>auto simp: published_def\<close>)
  moreover have "ready_at (mgr s) (as_name rec) = None" using f rec by (simp add: ready_at_def)
  moreover have "Suc (length (members (as_pool rec))) = length (members (as_pool (published b rec)))"
    by (simp add: published_def)
  ultimately show ?thesis
    using g m''(4) by (simp only: gauges_ok_def \<open>m' = m''\<close>) (rule gauges_match_new [OF _ _ finite_ready], simp_all)
qed

lemma gauges_deregister:
  assumes inv: "sys_inv st s" and g: "gauges_ok (mgr s)"
    and dereg: "deregister_locked k (mgr s) = (m', out)"
  shows "gauges_ok m'"
  using dereg byKey_idx [OF inv]
proof (cases rule: deregister_locked_cases)
  case unknown
  with g show ?thesis by simp
next
  case (leave n r rec)
  have rdy: "as_ready rec" using byKey_idx [OF inv, of k] leave by auto
  have "ready_at m' = (ready_at (mgr s))(n \<mapsto> left_by k rec)"
    by (subst ready_at_update [where m = "mgr s" and r = r and n = n and rec' = "left_by k rec"])
      (use leave rdy index_unique [OF inv] in auto)
  moreover have "ready_at (mgr s) n = Some rec" using leave rdy by (simp add: ready_at_def)
  moreover have "m_metrics m' = map_option (\<lambda>g. g\<lparr>g_backends :=
      m_put n (int (length (members (as_pool (left_by k rec))))) (g_backends g)\<rparr>) (m_metrics (mgr s))"
    using leave by (simp add: setPoolSize_def)
  ultimately show ?thesis
    using g by (simp only: gauges_ok_def) (rule gauges_match_resize [OF _ _ finite_ready], simp_all)
next
  case (last n r rec)
  let ?rec' = "(left_by k rec)\<lparr>as_withdrawing := Some False\<rparr>"
  have rdy: "as_ready rec" using byKey_idx [OF inv, of k] last by auto
  have "ready_at m' = (ready_at (mgr s))(n \<mapsto> ?rec')"
    by (subst ready_at_update [where m = "mgr s" and r = r and n = n and rec' = ?rec'])
      (use last rdy index_unique [OF inv] in auto)
  moreover have "ready_at (mgr s) n = Some rec" using last rdy by (simp add: ready_at_def)
  moreover have "m_metrics m' = m_metrics (mgr s)" using last by simp
  ultimately show ?thesis
    using g by (simp only: gauges_ok_def) (rule gauges_match_withdraw, simp_all)
qed

lemma gauges_release:
  assumes inv: "sys_inv st s" and g: "gauges_ok (mgr s)"
    and st: "st r = Failed t \<or> st r = Opened t"
  shows "gauges_ok (releaseLocked r (mgr s))"
proof -
  from st obtain rec where rec: "m_recs (mgr s) r = Some rec" and
    fits: "rec_fits (st r) (mgr s) r (closes s r) rec"
    using stage_rec [OF inv] by (metis stage.distinct(3,5))
  with st have f: "\<not> as_ready rec" "\<not> as_advertised rec" by (auto simp: rec_fits_def pending_def)
  have "ready_at (releaseLocked r (mgr s)) = ready_at (mgr s)"
  proof (cases "map_of (m_services (mgr s)) (as_name rec) = Some r")
    case True
    then show ?thesis
      by (intro ready_at_drop [OF _ index_unique [OF inv True]])
        (use f rec in \<open>auto simp: releaseLocked_pending ready_at_def\<close>)
  next
    case False
    then have "map_of (m_services (mgr s)) n \<noteq> Some r" for n
      using index_name [OF inv _ rec] by blast
    then show ?thesis
      using False f rec by (auto simp: releaseLocked_pending ready_at_def fun_eq_iff split: option.splits)
  qed
  moreover have "m_metrics (releaseLocked r (mgr s)) = m_metrics (mgr s)"
    using f rec by (simp add: releaseLocked_pending)
  ultimately show ?thesis using g by (blast intro: gauges_ok_same)
qed

lemma gauges_finish:
  assumes inv: "sys_inv st s" and g: "gauges_ok (mgr s)" and pc: "threads s t = Withdrawn r n k"
  shows "gauges_ok (deregister_finish r n (mgr s))"
proof -
  have "st r = Down t" using tied_in [OF inv, of t r] pc by simp
  then obtain rec where rec: "m_recs (mgr s) r = Some rec" "as_ready rec" "as_withdrawing rec = Some False"
    using stage_rec [OF inv, of r] by (auto simp: rec_fits_def live_rec_def)
  let ?m = "deregister_finish r n (mgr s)"
  have recs: "m_recs ?m = (m_recs (mgr s))(r \<mapsto> rec\<lparr>as_withdrawing := Some True\<rparr>)"
    using rec by (simp add: deregister_finish_def close_withdrawing_def)
  show ?thesis
  proof (cases "map_of (m_services (mgr s)) n = Some r")
    case True
    then have svc: "m_services ?m = m_del n (m_services (mgr s))" and
      met: "m_metrics ?m = map_option (\<lambda>g. g\<lparr>g_active := g_active g - 1, g_backends := m_del n (g_backends g)\<rparr>)
         (m_metrics (mgr s))"
      using rec by (simp_all add: deregister_finish_def close_withdrawing_def serviceWithdrawn_def)
    have "ready_at ?m n' = ((ready_at (mgr s))(n := None)) n'" for n'
    proof -
      have "map_of (m_services (mgr s)) n' \<noteq> Some r" if "n' \<noteq> n"
        using index_unique [OF inv True] that by blast
      with svc recs show ?thesis
        by (cases "n' = n"; cases "map_of (m_services (mgr s)) n'") (simp_all add: ready_at_def)
    qed
    then have "ready_at ?m = (ready_at (mgr s))(n := None)" by (rule ext)
    moreover have "ready_at (mgr s) n = Some rec" using True rec by (simp add: ready_at_def)
    ultimately show ?thesis
      using g met by (simp only: gauges_ok_def) (rule gauges_match_gone [OF _ _ finite_ready], simp_all)
  next
    case False
    then have svc: "m_services ?m = m_services (mgr s)" "m_metrics ?m = m_metrics (mgr s)"
      using rec by (simp_all add: deregister_finish_def close_withdrawing_def)
    have "map_of (m_services (mgr s)) n' \<noteq> Some r" for n'
      using False index_name [OF inv _ rec(1)] pc_in [OF inv pc] rec(1) by auto
    then have "ready_at ?m = ready_at (mgr s)"
      using recs svc by (auto simp: ready_at_def fun_eq_iff split: option.splits)
    with g svc show ?thesis by (blast intro: gauges_ok_same)
  qed
qed

lemma gauges_close: "close_locked m = (m', rs) \<Longrightarrow> gauges_ok m'"
proof -
  assume "close_locked m = (m', rs)"
  then have "m_services m' = []" "m_metrics m' = map_option (\<lambda>g. g\<lparr>g_active := 0, g_backends := m_empty\<rparr>) (m_metrics m)"
    by (auto simp: close_locked_def allServicesWithdrawn_def)
  then show ?thesis by (auto simp: gauges_ok_def gauges_match_def ready_at_def dom_def)
qed

lemma gauges_step:
  assumes step: "mgr_step disc s s'" and inv: "sys_inv st s" and g: "gauges_ok (mgr s)"
  shows "gauges_ok (mgr s')"
  using step
proof (cases rule: mgr_step.cases)
  case (do_register t k d b m' out)
  then show ?thesis using gauges_register [OF inv g] by simp
next
  case (do_abandon t r k e)
  then have "st r = Failed t" using tied_in [OF inv, of t r] by simp
  then show ?thesis using do_abandon gauges_release [OF inv g] by (simp add: abandon_def)
next
  case (do_publish t r k b m' ok)
  then have st: "st r = Opened t" using tied_in [OF inv, of t r] by simp
  show ?thesis
  proof (cases "m_shutdown (mgr s)")
    case True
    then show ?thesis using do_publish st gauges_release [OF inv g] by (auto simp: advertise_locked_def)
  next
    case False
    then show ?thesis using do_publish gauges_publish [OF inv g] by simp
  qed
next
  case (do_deregister t k m' out)
  then show ?thesis using gauges_deregister [OF inv g] by simp
next
  case (tear_down t r n k)
  then show ?thesis by (auto intro: gauges_ok_same [OF g ready_at_cong])
next
  case (finish_withdraw t r n k)
  then show ?thesis using gauges_finish [OF inv g] by simp
next
  case (do_close t m' rs)
  then show ?thesis using gauges_close by simp
next
  case (close_next t r rs)
  then show ?thesis by (auto intro: gauges_ok_same [OF g ready_at_cong])
qed (use g in simp_all)

lemma gauges_init: "mc \<in> {None, Some fresh_gauges} \<Longrightarrow> gauges_ok (mgr (init_sys mc))"
  by (auto simp: gauges_ok_def gauges_match_def init_sys_def NewManager_def ready_at_def dom_def fresh_gauges_def)

lemma reach_gauges: "reach disc s \<Longrightarrow> gauges_ok (mgr s)"
proof (induction rule: reach.induct)
  case (step s s')
  from reach_inv [OF step(1)] step show ?case using gauges_step by blast
qed (rule gauges_init)

end
