(* ===== verification/Manager_Properties.thy ===== *)
theory Manager_Properties
  imports Manager_Gauges
begin

text \<open>
  The properties of the manager under concurrency, read off the three invariants, and a short
  run (one registration on a fresh manager, and a shutdown) at which they are instantiated.
\<close>

lemma reach_disc: "reach True s \<Longrightarrow> reach disc s"
proof (induction rule: reach.induct)
  case (step s s')
  have "mgr_step disc s s'" using step(2) by (cases rule: mgr_step.cases) (blast intro: mgr_step.intros)+
  with step show ?case by (blast intro: reach.step)
qed (rule reach.start)

section \<open>A run\<close>

definition demo_def :: PServiceDef where
  "demo_def = \<lparr>pd_service = ''svc:web'', pd_port = 80, pd_network = ''web'', pd_scheme = ''http'',
     pd_caps = [], pd_origin = \<lparr>o_account = [], o_cluster = [], o_region = []\<rparr>\<rparr>"

definition demo_rec :: advertisedService where
  "demo_rec = \<lparr>as_name = ''svc:web'', as_scheme = ''http'', as_caps = [],
     as_pool = \<lparr>members = [example_backend ''a''], nextPos = 0\<rparr>, as_ready = True,
     as_advertised = True, as_withdrawing = None, as_closeFn = True\<rparr>"

definition demo_mgr :: Manager where
  "demo_mgr = \<lparr>m_services = [(''svc:web'', 0)], m_byKey = [(''a'', ''svc:web'')], m_shutdown = False,
     m_metrics = Some \<lparr>g_active = 1, g_backends = [(''svc:web'', 1)]\<rparr>,
     m_recs = [0 \<mapsto> demo_rec], m_next = 1, m_panicked = False\<rparr>"

definition demo_state :: "Manager \<Rightarrow> pc \<Rightarrow> nat set \<Rightarrow> sys" where
  "demo_state m p op = \<lparr>mgr = m, threads = (\<lambda>_. Idle)(0 := p), opened = op, closes = (\<lambda>_. 0)\<rparr>"

lemma demo_simps [simp]:
  "mgr (demo_state m p op) = m" "threads (demo_state m p op) = (\<lambda>_. Idle)(0 := p)"
  "opened (demo_state m p op) = op" "closes (demo_state m p op) = (\<lambda>_. 0)"
  "go 0 p' (demo_state m p op) = demo_state m p' op"
  "(demo_state m p op)\<lparr>mgr := m'\<rparr> = demo_state m' p op"
  "(demo_state m p op)\<lparr>opened := op'\<rparr> = demo_state m p op'"
  by (simp_all add: demo_state_def go_def)

definition demo_listening :: sys where
  "demo_listening =
     demo_state ((NewManager (Some fresh_gauges))\<lparr>m_recs := [0 \<mapsto> claimed demo_def], m_next := 1,
       m_services := [(''svc:web'', 0)]\<rparr>) (Listening 0 ''a'' (example_backend ''a'')) {}"

abbreviation demo_fresh :: "pc \<Rightarrow> sys" where
  "demo_fresh p \<equiv> demo_state (NewManager (Some fresh_gauges)) p {}"

lemma demo_call: "mgr_step True (demo_fresh Idle) (demo_fresh (Registering ''a'' demo_def (example_backend ''a'')))"
  using mgr_step.call_register [of "demo_fresh Idle" 0 True "''a''" "example_backend ''a''" demo_def]
  by (simp add: key_free_def example_backend_def)

lemma demo_claim: "mgr_step True (demo_fresh (Registering ''a'' demo_def (example_backend ''a''))) demo_listening"
  using mgr_step.do_register [of "demo_fresh (Registering ''a'' demo_def (example_backend ''a''))" 0 "''a''" demo_def
      "example_backend ''a''"]
  by (simp add: register_locked_def NewManager_def Let_def after_register_def claimed_def demo_def_def
      demo_listening_def)

lemma demo_listen:
  "mgr_step True demo_listening (demo_state (mgr demo_listening) (Listened 0 ''a'' (example_backend ''a'')) {0})"
  using mgr_step.listen_ok [of demo_listening 0 0] by (simp add: demo_listening_def)

lemma demo_publish:
  "mgr_step True (demo_state (mgr demo_listening) (Listened 0 ''a'' (example_backend ''a'')) {0})
     (demo_state demo_mgr (Returned ''a'' None) {0})"
  using mgr_step.do_publish [of "demo_state (mgr demo_listening) (Listened 0 ''a'' (example_backend ''a'')) {0}"
      0 0 "''a''" "example_backend ''a''" demo_mgr True]
  by (simp add: demo_listening_def advertise_locked_def NewManager_def claimed_def demo_def_def
      pool_add_eq upd_rec_def close_advertised_def serviceAdvertised_def setPoolSize_def
      fresh_gauges_def demo_mgr_def demo_rec_def newBackendPool_def)

lemma demo_return: "mgr_step True (demo_state demo_mgr (Returned ''a'' None) {0}) (demo_state demo_mgr Idle {0})"
  using mgr_step.return [of "demo_state demo_mgr (Returned ''a'' None) {0}" 0 "''a''" None] by simp

lemmas demo_steps = demo_call demo_claim demo_listen demo_publish demo_return

lemma demo_start: "init_sys (Some fresh_gauges) = demo_fresh Idle"
  by (simp add: init_sys_def demo_state_def fun_upd_idem)

lemma demo_listening_run: "reach True demo_listening"
  using reach.start [of "Some fresh_gauges" True] demo_steps(1,2) by (auto simp: demo_start intro: reach.step)

lemma demo_run:
  "reach True (demo_state demo_mgr (Returned ''a'' None) {0})"
  "reach True (demo_state demo_mgr Idle {0})"
  using demo_listening_run demo_steps(3-5) by (blast intro: reach.step)+

section \<open>Properties\<close>

text \<open>C8: whatever the interleaving, the manager never closes a closed channel, never calls an unset
  closer and never follows a dangling record: no reachable state has panicked.\<close>

theorem never_panics:
  assumes "reach disc s"
  shows "\<not> m_panicked (mgr s)"
  using reach_inv [OF assms] by (auto simp: sys_inv_def)

theorem never_panics_witness: "\<not> m_panicked (mgr (demo_state demo_mgr Idle {0}))"
  by (rule never_panics [OF demo_run(2)])

text \<open>What tsnet is asked for a record: a listener is open, or \<^verbatim>\<open>ListenService\<close> is running.\<close>

definition in_tsnet :: "sys \<Rightarrow> nat \<Rightarrow> bool" where
  "in_tsnet s r \<longleftrightarrow> r \<in> opened s \<or> (\<exists>t k b. threads s t = Listening r k b)"

lemma in_tsnet_stage:
  assumes "sys_inv st s" "in_tsnet s r"
  obtains rec where "m_recs (mgr s) r = Some rec" "name_of (mgr s) r = as_name rec" "st r \<noteq> Gone"
proof -
  have st: "open_stage (st r) \<or> (\<exists>t. st r = Adv t)"
  proof (cases "r \<in> opened s")
    case True
    with assms(1) show ?thesis by (simp add: sys_inv_def rec_ok_def)
  next
    case False
    with assms(2) obtain t k b where "threads s t = Listening r k b" by (auto simp: in_tsnet_def)
    with tied_in [OF assms(1), of t r] show ?thesis by auto
  qed
  then have "st r \<noteq> Free" by auto
  then obtain rec where "m_recs (mgr s) r = Some rec" using stage_rec [OF assms(1)] by blast
  moreover have "st r \<noteq> Gone" using st by auto
  ultimately show thesis using that by (simp add: name_of_def)
qed

lemma listener_unique:
  assumes "reach disc s" "in_tsnet s r1" "in_tsnet s r2" "name_of (mgr s) r1 = name_of (mgr s) r2"
  shows "r1 = r2"
proof -
  obtain st where inv: "sys_inv st s" using reach_inv [OF assms(1)] ..
  from in_tsnet_stage [OF inv assms(2)] in_tsnet_stage [OF inv assms(3)] assms(4) inv
  show ?thesis unfolding sys_inv_def unique_ok_def by metis
qed

text \<open>C1: tsnet never has two listeners for one service name, counting one that is still being
  opened: a name is withdrawn completely before it is advertised again.\<close>

theorem one_listener_per_service:
  assumes "reach disc s" "in_tsnet s r1" "in_tsnet s r2" "name_of (mgr s) r1 = name_of (mgr s) r2"
  shows "r1 = r2"
  using assms by (rule listener_unique)

theorem one_listener_per_service_witness:
  "{r. in_tsnet (demo_state demo_mgr Idle {0}) r \<and> name_of demo_mgr r = ''svc:web''} = {0}"
proof -
  have "in_tsnet (demo_state demo_mgr Idle {0}) 0" by (simp add: in_tsnet_def)
  moreover have "name_of demo_mgr 0 = ''svc:web''" by (simp add: name_of_def demo_mgr_def demo_rec_def)
  ultimately show ?thesis using one_listener_per_service [OF demo_run(2)] by auto
qed

text \<open>A service is torn down at most once: its \<^verbatim>\<open>closeFn\<close>, which shuts the HTTP server, the idle
  connections and the listener, runs at most once, and afterwards the listener is not open.\<close>

lemma closed_once:
  assumes "reach disc s"
  shows "closes s r \<le> 1 \<and> (closes s r = 1 \<longrightarrow> r \<notin> opened s)"
proof -
  obtain st where inv: "sys_inv st s" using reach_inv [OF assms] ..
  then have ok: "rec_ok st s r" by (simp add: sys_inv_def)
  show ?thesis
  proof (cases "m_recs (mgr s) r")
    case None
    with ok show ?thesis by (simp add: rec_ok_def)
  next
    case (Some rec)
    with ok show ?thesis by (cases "st r") (auto simp: rec_ok_def rec_fits_def)
  qed
qed

text \<open>A goroutine that is not inside an operation, or waits or is about to retry.\<close>

fun at_rest :: "pc \<Rightarrow> bool" where
  "at_rest Idle = True"
| "at_rest (Registering k d b) = True"
| "at_rest (Waiting k d b ch) = True"
| "at_rest (Returned k e) = True"
| "at_rest _ = False"

lemma shutdown_quiescent:
  assumes "reach disc s" "m_shutdown (mgr s)" "\<And>t. at_rest (threads s t)"
  shows "opened s = {} \<and> m_services (mgr s) = [] \<and> m_byKey (mgr s) = [] \<and>
         register_locked k d b (mgr s) = (mgr s, Return (Some ErrShuttingDown))"
proof -
  obtain st where inv: "sys_inv st s" using reach_inv [OF assms(1)] ..
  have rest: "tied t (threads s t) r = None" for t r using assms(3) [of t] by (cases "threads s t") auto
  have "\<not> open_stage (st r)" for r
  proof
    assume op: "open_stage (st r)"
    have "owner (st r) \<noteq> Some t" for t
      using inv rest [of t r] by (auto simp: sys_inv_def threads_ok_def split: if_splits)
    then have "owner (st r) = None" by blast
    with op have "st r = Serving" by (cases "st r") auto
    moreover from this obtain rec where "rec_fits (st r) (mgr s) r (closes s r) rec"
      using stage_rec [OF inv, of r] by auto
    ultimately show False using assms(2) by (simp add: rec_fits_def)
  qed
  then have "opened s = {}" using inv by (auto simp: sys_inv_def rec_ok_def)
  moreover have svc: "m_services (mgr s) = []" using inv assms(2) by (simp add: sys_inv_def index_ok_def)
  moreover have "map_of (m_byKey (mgr s)) k = None" for k
    using byKey_serving [OF inv] assms(2) by (metis not_None_eq)
  then have "map_of (m_byKey (mgr s)) = Map.empty" by (intro ext)
  then have "m_byKey (mgr s) = []" by simp
  ultimately show ?thesis using assms(2) by (simp add: register_locked_def)
qed

text \<open>C9: shutdown leaves nothing behind. Once the manager has been shut down and the operations
  in flight have run to their end, no listener is open, the index and the keys are empty, and
  every later registration is refused.\<close>

theorem shutdown_closes_all:
  assumes "reach disc s" "m_shutdown (mgr s)" "\<And>t. at_rest (threads s t)"
  shows "opened s = {} \<and> m_services (mgr s) = [] \<and> m_byKey (mgr s) = [] \<and>
         register_locked k d b (mgr s) = (mgr s, Return (Some ErrShuttingDown))"
  using assms by (rule shutdown_quiescent)

definition demo_closed :: sys where
  "demo_closed = \<lparr>mgr = allServicesWithdrawn (demo_mgr\<lparr>m_shutdown := True, m_services := [], m_byKey := []\<rparr>),
     threads = (\<lambda>_. Idle)(0 := Idle), opened = {}, closes = (\<lambda>_. 0)(0 := 1)\<rparr>"

lemma demo_shutdown: "reach True demo_closed"
proof -
  let ?s = "demo_state demo_mgr Idle {0}" and ?m = "mgr demo_closed"
  have m: "close_locked demo_mgr = (?m, [0])"
    by (simp add: close_locked_def demo_mgr_def serving_def demo_rec_def demo_closed_def)
  have c: "call_closeFn 0 ?m = ?m"
    by (simp add: demo_closed_def call_closeFn_def demo_mgr_def demo_rec_def)
  have "reach True (demo_state ?m (Closing [0]) {0})"
    by (rule reach.step [OF demo_run(2)]) (use mgr_step.do_close [of ?s 0 ?m "[0]"] m in simp)
  then have "reach True (go 0 (Closing []) (close_listener 0 (demo_state ?m (Closing [0]) {0})))"
    by (rule reach.step) (use mgr_step.close_next [of "demo_state ?m (Closing [0]) {0}" 0 0 "[]"] c in simp)
  then have "reach True (go 0 Idle (go 0 (Closing []) (close_listener 0 (demo_state ?m (Closing [0]) {0}))))"
    by (rule reach.step) (rule mgr_step.close_done, simp)
  then show ?thesis
    by (simp add: demo_closed_def demo_state_def go_def close_listener_def)
qed

lemma closed_once_witness: "closes demo_closed 0 = 1 \<and> 0 \<notin> opened demo_closed"
  using closed_once [OF demo_shutdown, of 0] by (simp add: demo_closed_def)

theorem shutdown_closes_all_witness:
  "opened demo_closed = {} \<and> m_services (mgr demo_closed) = []"
  using shutdown_closes_all [OF demo_shutdown] by (simp add: demo_closed_def)

section \<open>Waiting registrations\<close>

text \<open>The goroutine \<open>t'\<close> can run on its own until \<open>Q\<close> holds.\<close>

definition can_reach :: "bool \<Rightarrow> nat \<Rightarrow> (sys \<Rightarrow> bool) \<Rightarrow> sys \<Rightarrow> bool" where
  "can_reach disc t' Q s \<longleftrightarrow>
     (\<exists>s'. (mgr_step disc)\<^sup>*\<^sup>* s s' \<and> (\<forall>t. t \<noteq> t' \<longrightarrow> threads s' t = threads s t) \<and> Q s')"

lemma can_reach_last:
  assumes "mgr_step disc s s'" "\<And>t. t \<noteq> t' \<Longrightarrow> threads s' t = threads s t" "Q s'"
  shows "can_reach disc t' Q s"
  using assms by (auto simp: can_reach_def)

lemma can_reach_step:
  assumes "mgr_step disc s s'" "\<And>t. t \<noteq> t' \<Longrightarrow> threads s' t = threads s t" "can_reach disc t' Q s'"
  shows "can_reach disc t' Q s"
proof -
  from assms(3) obtain s'' where "(mgr_step disc)\<^sup>*\<^sup>* s' s''" "\<forall>t. t \<noteq> t' \<longrightarrow> threads s'' t = threads s' t" "Q s''"
    by (auto simp: can_reach_def)
  with assms(1,2) show ?thesis unfolding can_reach_def by (metis converse_rtranclp_into_rtranclp)
qed

lemma owner_tied: "sys_inv st s \<Longrightarrow> owner (st r) = Some t \<Longrightarrow> tied t (threads s t) r = Some (st r)"
  by (simp add: sys_inv_def threads_ok_def)

lemma failed_closes:
  assumes inv: "sys_inv st s" and st: "st r = Failed t'"
  shows "can_reach disc t' (\<lambda>s. chan_closed (mgr s) (AdvertisedOf r)) s"
proof -
  from owner_tied [OF inv, of r t'] st obtain k e where pc: "threads s t' = ListenFailed r k e"
    by (cases "threads s t'") (auto split: if_splits)
  obtain rec where rec: "m_recs (mgr s) r = Some rec" "\<not> as_ready rec" "\<not> as_advertised rec"
    using stage_rec [OF inv, of r] st by (auto simp: rec_fits_def pending_def)
  show ?thesis
    by (rule can_reach_last [OF mgr_step.do_abandon [OF pc]])
      (use rec in \<open>auto simp: abandon_def releaseLocked_pending chan_closed_def\<close>)
qed

lemma opened_closes:
  assumes inv: "sys_inv st s" and st: "st r = Opened t'"
  shows "can_reach disc t' (\<lambda>s. chan_closed (mgr s) (AdvertisedOf r)) s"
proof -
  from owner_tied [OF inv, of r t'] st obtain k b where pc: "threads s t' = Listened r k b"
    by (cases "threads s t'") (auto split: if_splits)
  obtain rec where rec: "m_recs (mgr s) r = Some rec" "\<not> as_ready rec" "\<not> as_advertised rec"
    using stage_rec [OF inv, of r] st by (auto simp: rec_fits_def pending_def)
  have "\<exists>m' ok. advertise_locked r k b (mgr s) = (m', ok) \<and> chan_closed m' (AdvertisedOf r)"
  proof (cases "m_shutdown (mgr s)")
    case True
    with rec show ?thesis by (simp add: advertise_locked_def releaseLocked_pending chan_closed_def) blast
  next
    case False
    from rec(1) False rec(3) obtain m' where "advertise_locked r k b (mgr s) = (m', True)"
      "m_recs m' = (m_recs (mgr s))(r \<mapsto> published b rec)" by (rule advertise_locked_ok)
    then show ?thesis by (auto simp: chan_closed_def published_def)
  qed
  then obtain m' ok where "advertise_locked r k b (mgr s) = (m', ok)" "chan_closed m' (AdvertisedOf r)"
    by blast
  then show ?thesis by (intro can_reach_last [OF mgr_step.do_publish [OF pc]]) auto
qed

lemma adv_closes:
  assumes inv: "sys_inv st s" and st: "st r = Adv t'"
  shows "can_reach disc t' (\<lambda>s. chan_closed (mgr s) (AdvertisedOf r)) s"
proof -
  from owner_tied [OF inv, of r t'] st obtain k b where pc: "threads s t' = Listening r k b"
    by (cases "threads s t'") (auto split: if_splits)
  from failed_closes [OF step_listen_err [OF inv pc]]
  show ?thesis by (intro can_reach_step [OF mgr_step.listen_err [OF pc]]) auto
qed

lemma down_closes:
  assumes inv: "sys_inv st s" and st: "st r = Down t'"
  shows "can_reach disc t' (\<lambda>s. chan_closed (mgr s) (WithdrawingOf r)) s"
proof -
  from owner_tied [OF inv, of r t'] st obtain n k where pc: "threads s t' = Withdrawn r n k"
    by (cases "threads s t'") (auto split: if_splits)
  obtain rec where rec: "m_recs (mgr s) r = Some rec" "as_withdrawing rec = Some False"
    using stage_rec [OF inv, of r] st by (auto simp: rec_fits_def)
  show ?thesis
    by (rule can_reach_last [OF mgr_step.finish_withdraw [OF pc]])
      (use rec in \<open>auto simp: deregister_finish_def close_withdrawing_def chan_closed_def\<close>)
qed

lemma tear_closes:
  assumes inv: "sys_inv st s" and st: "st r = Tear t'"
  shows "can_reach disc t' (\<lambda>s. chan_closed (mgr s) (WithdrawingOf r)) s"
proof -
  from owner_tied [OF inv, of r t'] st obtain n k where pc: "threads s t' = TearDown r n k"
    by (cases "threads s t'") (auto split: if_splits)
  from down_closes [OF step_tear_down [OF inv pc]]
  show ?thesis by (intro can_reach_step [OF mgr_step.tear_down [OF pc]]) auto
qed

lemma open_channel_owner:
  assumes inv: "sys_inv st s" and pc: "threads s t = Waiting k d b ch" and "\<not> chan_closed (mgr s) ch"
  shows "\<exists>t'. t' \<noteq> t \<and> can_reach disc t' (\<lambda>s. chan_closed (mgr s) ch) s"
proof -
  define r where "r = (case ch of AdvertisedOf r \<Rightarrow> r | WithdrawingOf r \<Rightarrow> r)"
  obtain rec where rec: "m_recs (mgr s) r = Some rec" and
    ch: "ch = AdvertisedOf r \<and> \<not> as_advertised rec \<or> ch = WithdrawingOf r \<and> as_withdrawing rec = Some False"
    using pc_in [OF inv pc] assms(3) by (cases ch) (auto simp: r_def chan_closed_def)
  have fits: "fields_ok (st r) (m_shutdown (mgr s)) rec"
    using inv rec by (simp add: sys_inv_def rec_ok_def rec_fits_def)
  have other: "t' \<noteq> t" if "owner (st r) = Some t'" for t'
    using owner_tied [OF inv that] pc by auto
  show ?thesis
    using ch
  proof
    assume "ch = AdvertisedOf r \<and> \<not> as_advertised rec"
    with fits other show ?thesis
      by (cases "st r")
        (auto simp: live_rec_def dest: adv_closes [OF inv] opened_closes [OF inv] failed_closes [OF inv])
  next
    assume "ch = WithdrawingOf r \<and> as_withdrawing rec = Some False"
    with fits other show ?thesis
      by (cases "st r") (auto simp: pending_def dest: tear_closes [OF inv] down_closes [OF inv])
  qed
qed

text \<open>C7: no lost wake-up. A registration that waits for another one's listener, or for a
  withdrawal, is never stranded: in every reachable state there is a run of the other goroutines
  that closes the channel it waits on, and the registration wakes up from it where it was.\<close>

theorem no_lost_wakeup:
  assumes "reach disc s" "threads s t = Waiting k d b ch"
  shows "\<exists>s'. (mgr_step disc)\<^sup>*\<^sup>* s s' \<and> threads s' t = Waiting k d b ch \<and> chan_closed (mgr s') ch"
proof (cases "chan_closed (mgr s) ch")
  case True
  with assms show ?thesis by blast
next
  case False
  obtain st where inv: "sys_inv st s" using reach_inv [OF assms(1)] ..
  from open_channel_owner [OF inv assms(2) False] assms(2) show ?thesis
    by (fastforce simp: can_reach_def)
qed

lemma demo_waiting:
  "\<exists>s. reach True s \<and> threads s 1 = Waiting ''b'' demo_def (example_backend ''b'') (AdvertisedOf 0)"
proof -
  let ?b = "example_backend ''b''" and ?m = "mgr demo_listening"
  let ?s1 = "go 1 (Registering ''b'' demo_def ?b) demo_listening"
  have "reach True ?s1"
    by (rule reach.step [OF demo_listening_run], rule mgr_step.call_register)
      (simp_all add: demo_listening_def key_free_def example_backend_def)
  moreover have "mgr_step True ?s1 (go 1 (after_register ''b'' demo_def ?b (Wait (AdvertisedOf 0))) (?s1\<lparr>mgr := ?m\<rparr>))"
    by (rule mgr_step.do_register)
      (simp_all add: demo_listening_def register_locked_def NewManager_def claimed_def demo_def_def transition_def)
  ultimately have "reach True (go 1 (after_register ''b'' demo_def ?b (Wait (AdvertisedOf 0))) (?s1\<lparr>mgr := ?m\<rparr>))"
    by (rule reach.step)
  then show ?thesis
    by (rule_tac exI [where x = "go 1 (after_register ''b'' demo_def ?b (Wait (AdvertisedOf 0))) (?s1\<lparr>mgr := ?m\<rparr>)"], intro conjI)
      (assumption, simp add: after_register_def)
qed

theorem no_lost_wakeup_witness:
  "\<exists>s s'. reach True s \<and> (mgr_step True)\<^sup>*\<^sup>* s s' \<and>
     threads s' 1 = Waiting ''b'' demo_def (example_backend ''b'') (AdvertisedOf 0) \<and>
     chan_closed (mgr s') (AdvertisedOf 0)"
  using demo_waiting no_lost_wakeup by blast

section \<open>Keys, pools, gauges and the snapshot\<close>

lemma registered_iff_member:
  assumes "reach True s"
  shows "map_of (m_byKey (mgr s)) k = Some n \<longleftrightarrow>
    (\<exists>r rec. map_of (m_services (mgr s)) n = Some r \<and> m_recs (mgr s) r = Some rec \<and>
       serving (mgr s) r \<and> r \<in> opened s \<and> k \<in> set (pool_keys (as_pool rec)))"
proof -
  obtain st where inv: "sys_inv st s" using reach_inv [OF assms] ..
  have own: "pools_owned (mgr s)" using reach_own [OF assms] by (simp add: own_inv_def)
  have "\<exists>r rec. map_of (m_services (mgr s)) n = Some r \<and> m_recs (mgr s) r = Some rec \<and>
       serving (mgr s) r \<and> r \<in> opened s \<and> k \<in> set (pool_keys (as_pool rec))"
    if "map_of (m_byKey (mgr s)) k = Some n"
    using byKey_serving [OF inv that] serving_stage [OF inv] by metis
  with own show ?thesis by (auto simp: pools_owned_def)
qed

lemma pool_keys_distinct:
  assumes "reach disc s" "disc" "map_of (m_services (mgr s)) n = Some r" "m_recs (mgr s) r = Some rec"
  shows "distinct (pool_keys (as_pool rec))"
proof -
  from assms(1,2) have "own_inv s" by (simp add: reach_own)
  with assms(3,4) show ?thesis by (auto simp: own_inv_def pools_owned_def)
qed

text \<open>C2: the registration keys and the pool members are the same: a key is registered for a service exactly
  when it is a member, once, of the pool that name leads to, and that pool's service is serving with its
  listener open. This holds as long as no two operations on one key run at the same time, which the
  manager itself does not enforce (\<open>Manager_Race\<close> has a schedule that breaks it), and no listener has
  failed by itself (\<open>Manager_Outage\<close> has what then remains).\<close>

theorem keys_are_members:
  assumes "reach True s"
  shows "map_of (m_byKey (mgr s)) k = Some n \<longleftrightarrow>
    (\<exists>r rec. map_of (m_services (mgr s)) n = Some r \<and> m_recs (mgr s) r = Some rec \<and>
       serving (mgr s) r \<and> r \<in> opened s \<and> count_list (pool_keys (as_pool rec)) k = 1)"
proof -
  have "count_list (pool_keys (as_pool rec)) k = 1 \<longleftrightarrow> k \<in> set (pool_keys (as_pool rec))"
    if "map_of (m_services (mgr s)) n = Some r" "m_recs (mgr s) r = Some rec" for r rec
    using pool_keys_distinct [OF assms TrueI that]
    by (metis count_list_0_iff count_list_distinct_mem zero_neq_one)
  then show ?thesis unfolding registered_iff_member [OF assms] by blast
qed

theorem keys_are_members_witness:
  "\<exists>r rec. map_of (m_services demo_mgr) ''svc:web'' = Some r \<and> m_recs demo_mgr r = Some rec \<and>
     serving demo_mgr r \<and> r \<in> {0} \<and> count_list (pool_keys (as_pool rec)) ''a'' = 1"
  using keys_are_members [OF demo_run(2), of "''a''" "''svc:web''"]
  by (simp add: demo_mgr_def)

text \<open>What a registration that returned nil promises. Until the manager is shut down, its key
  is a member of the pool of a service that is serving and whose listener is open.\<close>

lemma registered_is_serving:
  assumes "reach True s" "threads s t = Returned k None" "\<not> m_shutdown (mgr s)"
  shows "\<exists>n r rec. map_of (m_byKey (mgr s)) k = Some n \<and> map_of (m_services (mgr s)) n = Some r \<and>
     m_recs (mgr s) r = Some rec \<and> serving (mgr s) r \<and> r \<in> opened s \<and> k \<in> set (pool_keys (as_pool rec))"
proof -
  have "pc_key_ok (mgr s) (threads s t)" using reach_own [OF assms(1)] by (simp add: own_inv_def)
  then obtain n where "map_of (m_byKey (mgr s)) k = Some n" using assms(2,3) by auto
  with registered_iff_member [OF assms(1)] show ?thesis by blast
qed

lemma registered_is_serving_witness:
  "\<exists>n r rec. map_of (m_byKey demo_mgr) ''a'' = Some n \<and> map_of (m_services demo_mgr) n = Some r \<and>
     m_recs demo_mgr r = Some rec \<and> serving demo_mgr r \<and> r \<in> {0} \<and> ''a'' \<in> set (pool_keys (as_pool rec))"
  using registered_is_serving [OF demo_run(1), of 0 "''a''"] by (simp add: demo_mgr_def)

text \<open>C31: the gauges tell the truth at every moment: \<^verbatim>\<open>services_active\<close> counts the names whose
  listener has been published and not yet withdrawn, \<^verbatim>\<open>service_backends\<close> has the pool size of
  every serving name, and no series for a name that is not advertised.\<close>

theorem gauges_agree:
  assumes "reach disc s" "m_metrics (mgr s) = Some g"
  shows "g_active g = int (card {n. ready_at (mgr s) n \<noteq> None}) \<and>
    (map_of (m_services (mgr s)) n = None \<longrightarrow> map_of (g_backends g) n = None) \<and>
    (\<forall>r rec. map_of (m_services (mgr s)) n = Some r \<longrightarrow> m_recs (mgr s) r = Some rec \<longrightarrow>
       serving (mgr s) r \<longrightarrow> map_of (g_backends g) n = Some (int (length (members (as_pool rec)))))"
  using reach_gauges [OF assms(1)] assms(2)
  by (auto simp: gauges_ok_def gauges_match_def ready_at_def dom_def serving_def)

theorem gauges_agree_witness:
  "g_active \<lparr>g_active = 1, g_backends = [(''svc:web'', 1)]\<rparr> =
     int (card {n. ready_at demo_mgr n \<noteq> None})"
  using gauges_agree [OF demo_run(2), of "\<lparr>g_active = 1, g_backends = [(''svc:web'', 1)]\<rparr>" "''svc:web''"]
  by (simp add: demo_mgr_def)

lemma distinct_map_sort: "distinct (map f (sort_key g xs)) = distinct (map f xs)"
  by (simp add: distinct_map)

lemma map_of_set: "keys_distinct m \<Longrightarrow> (n, r) \<in> set m \<longleftrightarrow> map_of m n = Some r"
  by (simp add: keys_distinct_def)

lemma Snapshot_set:
  assumes "sys_inv st s"
  shows "v \<in> set (Snapshot (mgr s)) \<longleftrightarrow>
    (\<exists>n r rec. map_of (m_services (mgr s)) n = Some r \<and> m_recs (mgr s) r = Some rec \<and> serving (mgr s) r \<and>
       v = service_view rec)"
proof -
  have "keys_distinct (m_services (mgr s))" using assms by (simp add: sys_inv_def index_ok_def)
  then have "r \<in> snd ` set (m_services (mgr s)) \<longleftrightarrow> (\<exists>n. map_of (m_services (mgr s)) n = Some r)" for r
    by (force simp: map_of_set [symmetric])
  then show ?thesis
    by (auto simp: Snapshot_def serving_def image_iff split: option.splits) (metis option.sel)+
qed

lemma Snapshot_distinct:
  assumes inv: "sys_inv st s"
  shows "distinct (map sv_service (Snapshot (mgr s)))"
proof -
  let ?name = "\<lambda>r. as_name (the (m_recs (mgr s) r))"
  have "?name r = n" if "(n, r) \<in> set (m_services (mgr s))" for n r
    using inv that index_recs [OF inv] by (force simp: sys_inv_def index_ok_def map_of_set)
  then have "map ?name (map snd (m_services (mgr s))) = map fst (m_services (mgr s))"
    by (simp add: comp_def)
  then have "distinct (map ?name (filter (serving (mgr s)) (map snd (m_services (mgr s)))))"
    using inv by (intro distinct_map_filter) (simp only: sys_inv_def index_ok_def keys_distinct_def)
  then show ?thesis by (simp only: Snapshot_def distinct_map_sort map_map) (simp add: comp_def service_view_def)
qed

lemma Snapshot_backends:
  assumes inv: "sys_inv st s"
  shows "\<forall>v\<in>set (Snapshot (mgr s)). sv_backends v \<noteq> []"
proof
  fix v assume "v \<in> set (Snapshot (mgr s))"
  then obtain n r rec where r: "map_of (m_services (mgr s)) n = Some r" "m_recs (mgr s) r = Some rec"
    "serving (mgr s) r" and v: "v = service_view rec" using Snapshot_set [OF inv] by blast
  then have "st r = Serving" using serving_stage [OF inv] by auto
  then have "members (as_pool rec) \<noteq> []" using stage_rec [OF inv, of r] r(2) by (auto simp: rec_fits_def)
  then show "sv_backends v \<noteq> []" by (simp add: v service_view_def pool_list_def)
qed

lemma Snapshot_keys:
  assumes "reach True s" and inv: "sys_inv st s"
  shows "{(sv_service v, bv_key b) |v b. v \<in> set (Snapshot (mgr s)) \<and> b \<in> set (sv_backends v)} =
    {(n, k). map_of (m_byKey (mgr s)) k = Some n}" (is "?L = ?R")
proof -
  have "(n, k) \<in> ?L \<longleftrightarrow> (\<exists>r rec. map_of (m_services (mgr s)) n = Some r \<and> m_recs (mgr s) r = Some rec \<and>
       serving (mgr s) r \<and> k \<in> set (pool_keys (as_pool rec)))" for n k
  proof
    assume "(n, k) \<in> ?L"
    then obtain v b where "v \<in> set (Snapshot (mgr s))" "n = sv_service v" "b \<in> set (sv_backends v)" "k = bv_key b"
      by blast
    moreover from this(1) obtain n' r rec where "map_of (m_services (mgr s)) n' = Some r"
      "m_recs (mgr s) r = Some rec" "serving (mgr s) r" "v = service_view rec" by (auto simp: Snapshot_set [OF inv])
    ultimately show "\<exists>r rec. map_of (m_services (mgr s)) n = Some r \<and> m_recs (mgr s) r = Some rec \<and>
       serving (mgr s) r \<and> k \<in> set (pool_keys (as_pool rec))"
      using index_name [OF inv, of n' r rec]
      by (auto simp: service_view_def backend_view_def pool_list_def pool_keys_def)
  next
    assume "\<exists>r rec. map_of (m_services (mgr s)) n = Some r \<and> m_recs (mgr s) r = Some rec \<and>
       serving (mgr s) r \<and> k \<in> set (pool_keys (as_pool rec))"
    then obtain r rec b where r: "map_of (m_services (mgr s)) n = Some r" "m_recs (mgr s) r = Some rec"
      "serving (mgr s) r" and b: "b \<in> set (members (as_pool rec))" "k = b_key b"
      by (auto simp: pool_keys_def)
    then have "service_view rec \<in> set (Snapshot (mgr s))" by (auto simp: Snapshot_set [OF inv])
    moreover have "sv_service (service_view rec) = n"
      "backend_view (as_scheme rec) b \<in> set (sv_backends (service_view rec))"
      using b index_name [OF inv r(1,2)] by (auto simp: service_view_def pool_list_def)
    moreover have "bv_key (backend_view (as_scheme rec) b) = k" using b by (simp add: backend_view_def)
    ultimately show "(n, k) \<in> ?L" by blast
  qed
  moreover have "r \<in> opened s" if "map_of (m_services (mgr s)) n = Some r" "serving (mgr s) r" for n r
    using serving_stage [OF inv that(1)] that(2) inv by (simp add: sys_inv_def rec_ok_def)
  ultimately have "(n, k) \<in> ?L \<longleftrightarrow> (n, k) \<in> ?R" for n k
    using registered_iff_member [OF assms(1), of k n] by fastforce
  then show ?thesis by (auto simp only: set_eq_iff)
qed

lemma view_of_service:
  assumes "reach True s" and inv: "sys_inv st s" and v: "v \<in> set (Snapshot (mgr s))"
  shows "distinct (map bv_key (sv_backends v))"
    and "bv_key ` set (sv_backends v) = {k. map_of (m_byKey (mgr s)) k = Some (sv_service v)}"
proof -
  obtain n r rec where r: "map_of (m_services (mgr s)) n = Some r" "m_recs (mgr s) r = Some rec"
    and v': "v = service_view rec" using v Snapshot_set [OF inv] by blast
  have "map bv_key (sv_backends v) = pool_keys (as_pool rec)"
    by (simp add: v' service_view_def backend_view_def pool_list_def pool_keys_def comp_def)
  then show "distinct (map bv_key (sv_backends v))"
    using pool_keys_distinct [OF assms(1) TrueI r] by simp
  have "k \<in> bv_key ` set (sv_backends v) \<longleftrightarrow>
      (sv_service v, k) \<in> {(sv_service v, bv_key b) |v b. v \<in> set (Snapshot (mgr s)) \<and> b \<in> set (sv_backends v)}" for k
  proof
    assume "k \<in> bv_key ` set (sv_backends v)"
    with v show "(sv_service v, k) \<in> {(sv_service v, bv_key b) |v b. v \<in> set (Snapshot (mgr s)) \<and> b \<in> set (sv_backends v)}"
      by blast
  next
    assume "(sv_service v, k) \<in> {(sv_service v, bv_key b) |v b. v \<in> set (Snapshot (mgr s)) \<and> b \<in> set (sv_backends v)}"
    then obtain w b where w: "w \<in> set (Snapshot (mgr s))" "sv_service v = sv_service w"
      and b: "b \<in> set (sv_backends w)" "k = bv_key b" by blast
    with v Snapshot_distinct [OF inv] have "w = v" by (simp add: distinct_map inj_on_def)
    with b show "k \<in> bv_key ` set (sv_backends v)" by blast
  qed
  then show "bv_key ` set (sv_backends v) = {k. map_of (m_byKey (mgr s)) k = Some (sv_service v)}"
    unfolding Snapshot_keys [OF assms(1,2)] by blast
qed

text \<open>The snapshot the status endpoint reports is exact: sorted by service name, one view per
  name, each with at least one backend, and its backends are exactly the registered keys under the
  service each is registered for.\<close>

lemma snapshot_exact:
  assumes "reach True s"
  shows "sorted (map sv_service (Snapshot (mgr s))) \<and> distinct (map sv_service (Snapshot (mgr s))) \<and>
    (\<forall>v\<in>set (Snapshot (mgr s)). sv_backends v \<noteq> []) \<and>
    {(sv_service v, bv_key b) |v b. v \<in> set (Snapshot (mgr s)) \<and> b \<in> set (sv_backends v)} =
    {(n, k). map_of (m_byKey (mgr s)) k = Some n}"
proof -
  obtain st where inv: "sys_inv st s" using reach_inv [OF assms] ..
  show ?thesis
    using Snapshot_distinct [OF inv] Snapshot_backends [OF inv] Snapshot_keys [OF assms inv]
    by (simp add: Snapshot_def)
qed

lemma snapshot_exact_witness:
  "{(sv_service v, bv_key b) |v b. v \<in> set (Snapshot demo_mgr) \<and> b \<in> set (sv_backends v)} =
   {(''svc:web'', ''a'')}"
proof -
  have "{(n, k). map_of (m_byKey demo_mgr) k = Some n} = {(''svc:web'', ''a'')}"
    by (auto simp: demo_mgr_def split: if_splits)
  then show ?thesis using snapshot_exact [OF demo_run(2)] by simp
qed

end
