(* ===== verification/Manager_Sequential.thy ===== *)
theory Manager_Sequential
  imports Manager_Properties
begin

text \<open>
  The manager's operations run to completion by one caller, as runs of the step relation. A
  manager with nothing in flight is \<open>quiet\<close>; the map from registration keys to the service and
  backend each is registered for (\<open>backend_of\<close>) is the abstract state, and registering and
  deregistering are insertion and deletion on it.
\<close>

section \<open>States with one caller\<close>

definition solo :: "Manager \<Rightarrow> pc \<Rightarrow> nat set \<Rightarrow> (nat \<Rightarrow> nat) \<Rightarrow> sys" where
  "solo m p op cl = \<lparr>mgr = m, threads = (\<lambda>_. Idle)(0 := p), opened = op, closes = cl\<rparr>"

lemma solo_simps [simp]:
  "mgr (solo m p op cl) = m" "threads (solo m p op cl) = (\<lambda>_. Idle)(0 := p)"
  "opened (solo m p op cl) = op" "closes (solo m p op cl) = cl"
  "go 0 p' (solo m p op cl) = solo m p' op cl"
  "(solo m p op cl)\<lparr>mgr := m'\<rparr> = solo m' p op cl"
  "(solo m p op cl)\<lparr>opened := op'\<rparr> = solo m p op' cl"
  "close_listener r (solo m p op cl) = solo m p (op - {r}) (cl(r := Suc (cl r)))"
  by (simp_all add: solo_def go_def close_listener_def)

text \<open>A manager with no operation in flight: reached, with every goroutine idle.\<close>

definition quiet :: "Manager \<Rightarrow> bool" where
  "quiet m \<longleftrightarrow> (\<exists>op cl. reach True (solo m Idle op cl))"

lemma quietI: "reach True (solo m Idle op cl) \<Longrightarrow> quiet m"
  by (auto simp: quiet_def)

lemma solo_step:
  assumes "reach True (solo m p op cl)" "mgr_step True (solo m p op cl) (solo m' p' op' cl')"
  shows "reach True (solo m' p' op' cl')"
  using assms by (rule reach.step)

lemma quiet_inv:
  assumes "reach True (solo m Idle op cl)"
  obtains st where "sys_inv st (solo m Idle op cl)" "\<And>r. owner (st r) = None" "pools_owned m"
proof -
  let ?s = "solo m Idle op cl"
  obtain st where inv: "sys_inv st ?s" using reach_inv [OF assms] ..
  have "owner (st r) \<noteq> Some t" for r t
    using owner_tied [OF inv, of r t] by (cases "t = 0") auto
  then have "owner (st r) = None" for r by (metis not_None_eq)
  moreover have "pools_owned m" using reach_own [OF assms] by (simp add: own_inv_def)
  ultimately show thesis using that inv by blast
qed

lemma quiet_serving:
  assumes "reach True (solo m Idle op cl)" "map_of (m_services m) n = Some r"
  obtains rec where "m_recs m r = Some rec" "as_name rec = n" "as_ready rec" "as_withdrawing rec = None"
    "transition r rec = None" "as_closeFn rec"
proof -
  obtain st where inv: "sys_inv st (solo m Idle op cl)" and o: "\<And>r. owner (st r) = None"
    using quiet_inv [OF assms(1)] by blast
  obtain rec where st: "indexed_stage (st r)" and rec: "m_recs m r = Some rec" "as_name rec = n"
    using index_lookup [OF inv, of n r] assms(2) by auto
  from st o [of r] have "st r = Serving" by (cases "st r") auto
  then have "rec_fits Serving m r (cl r) rec" using stage_rec [OF inv, of r] rec by auto
  with rec that show thesis by (auto simp: rec_fits_def live_rec_def transition_def)
qed

section \<open>Registering\<close>

lemma quiet_register_start:
  assumes "reach True (solo m Idle op cl)" "b_key b = k"
  shows "reach True (solo m (Registering k d b) op cl)"
  by (rule solo_step [OF assms(1)])
    (use mgr_step.call_register [of "solo m Idle op cl" 0 True k b d] assms(2) in \<open>simp add: key_free_def\<close>)

lemma quiet_returned:
  assumes "reach True (solo m (Returned k e) op cl)"
  shows "quiet m"
  by (rule quietI, rule solo_step [OF assms])
    (use mgr_step.return [of "solo m (Returned k e) op cl" 0 k e] in simp)

lemma quiet_register_locked:
  assumes "reach True (solo m Idle op cl)" "b_key b = k" "register_locked k d b m = (m', out)"
  shows "reach True (solo m' (after_register k d b out) op cl)"
  by (rule solo_step [OF quiet_register_start [OF assms(1,2)]])
    (use mgr_step.do_register [of "solo m (Registering k d b) op cl" 0 k d b m' out] assms(3) in simp)

text \<open>The advertising half of a registration, from the claim on.\<close>

lemma quiet_advertise:
  assumes "reach True (solo m (Listening r k b) op cl)" "m_recs m r = Some rec" "\<not> m_shutdown m"
    "\<not> as_ready rec" "\<not> as_advertised rec"
  shows "\<exists>m' e. advertise listen r k b m = (m', e) \<and> quiet m' \<and>
     (e = None \<longrightarrow> m_recs m' = (m_recs m)(r \<mapsto> published b rec) \<and> m_services m' = m_services m \<and>
        m_byKey m' = m_put k (as_name rec) (m_byKey m) \<and> \<not> m_shutdown m') \<and>
     (e \<noteq> None \<longrightarrow> m' = releaseLocked r m)"
proof (cases "listen (as_name rec) (advertise_mode rec)")
  case (Some err)
  have "reach True (solo m (ListenFailed r k err) op cl)"
    by (rule solo_step [OF assms(1)]) (use mgr_step.listen_err [of "solo m (Listening r k b) op cl" 0 r k b True err] in simp)
  then have "reach True (solo (abandon r m) (Returned k (Some (listen_error (name_of m r) err))) op cl)"
    by (rule solo_step) (use mgr_step.do_abandon [of "solo m (ListenFailed r k err) op cl" 0 r k err True] in simp)
  from quiet_returned [OF this] Some assms show ?thesis by (simp add: advertise_def abandon_def)
next
  case None
  have 1: "reach True (solo m (Listened r k b) (insert r op) cl)"
    by (rule solo_step [OF assms(1)]) (use mgr_step.listen_ok [of "solo m (Listening r k b) op cl" 0 r k b True] in simp)
  from assms(2,3,5) obtain m' where m': "advertise_locked r k b m = (m', True)"
    "m_recs m' = (m_recs m)(r \<mapsto> published b rec)" "m_byKey m' = m_put k (as_name rec) (m_byKey m)"
    "m_services m' = m_services m" "m_shutdown m' = m_shutdown m" by (rule advertise_locked_ok)
  have "reach True (solo m' (Returned k None) (insert r op) cl)"
    by (rule solo_step [OF 1])
      (use mgr_step.do_publish [of "solo m (Listened r k b) (insert r op) cl" 0 r k b m' True True] m'(1) in simp)
  from quiet_returned [OF this] None m' assms(2,3) show ?thesis by (simp add: advertise_def)
qed

section \<open>What a key is registered for\<close>

definition backend_of :: "Manager \<Rightarrow> string \<Rightarrow> (string \<times> backend) option" where
  "backend_of m k =
     (case map_of (m_byKey m) k of
        None \<Rightarrow> None
      | Some n \<Rightarrow>
          (case map_of (m_services m) n of
             None \<Rightarrow> None
           | Some r \<Rightarrow>
               (case m_recs m r of
                  None \<Rightarrow> None
                | Some rec \<Rightarrow> map_option (\<lambda>b. (n, b)) (find (\<lambda>b. b_key b = k) (members (as_pool rec))))))"

lemma find_append: "find P (xs @ ys) = (case find P xs of None \<Rightarrow> find P ys | Some x \<Rightarrow> Some x)"
  by (induction xs) auto

lemma find_filter_other: "(\<And>x. P x \<Longrightarrow> Q x) \<Longrightarrow> find P (filter Q xs) = find P xs"
  by (induction xs) auto

lemma find_key_None: "k \<notin> set (pool_keys p) \<Longrightarrow> find (\<lambda>b. b_key b = k) (members p) = None"
  by (auto simp: pool_keys_def find_None_iff)

lemma backend_of_None:
  assumes "quiet m"
  shows "backend_of m k = None \<longleftrightarrow> map_of (m_byKey m) k = None"
proof -
  from assms obtain op cl where r: "reach True (solo m Idle op cl)" by (auto simp: quiet_def)
  have "backend_of m k \<noteq> None" if n: "map_of (m_byKey m) k = Some n" for n
  proof -
    obtain st where inv: "sys_inv st (solo m Idle op cl)" using reach_inv [OF r] ..
    obtain r rec where "map_of (m_services m) n = Some r" "m_recs m r = Some rec"
      "k \<in> set (pool_keys (as_pool rec))" using byKey_serving [OF inv, simplified, OF n] by blast
    then show ?thesis using n by (auto simp: backend_of_def pool_keys_def find_None_iff)
  qed
  then show ?thesis by (cases "map_of (m_byKey m) k") (auto simp: backend_of_def)
qed

lemma backend_of_add:
  assumes own: "pools_owned m" and k: "map_of (m_byKey m) k = None" "b_key b = k"
    and n: "map_of (m_services m) n = Some r" "m_recs m r = Some rec"
      "\<And>n'. map_of (m_services m) n' = Some r \<Longrightarrow> n' = n"
    and m': "m_byKey m' = m_put k n (m_byKey m)" "m_services m' = m_services m"
      "m_recs m' = (m_recs m)(r \<mapsto> rec')" "members (as_pool rec') = members (as_pool rec) @ [b]"
  shows "backend_of m' = (backend_of m)(k \<mapsto> (n, b))"
proof
  fix k'
  have "k \<notin> set (pool_keys (as_pool rec))" using own n(1,2) k(1) by (auto simp: pools_owned_def)
  then have f: "find (\<lambda>b. b_key b = k) (members (as_pool rec)) = None" by (rule find_key_None)
  show "backend_of m' k' = ((backend_of m)(k \<mapsto> (n, b))) k'"
  proof (cases "k' = k")
    case True
    then show ?thesis using m' n(1,2) f k by (simp add: backend_of_def find_append)
  next
    case False
    then show ?thesis using m' n(1,2) k(2)
      by (auto simp: backend_of_def find_append split: option.splits)
  qed
qed

lemma backend_of_del:
  assumes k: "map_of (m_byKey m) k = Some n"
    and n: "map_of (m_services m) n = Some r" "m_recs m r = Some rec"
    and m': "m_byKey m' = m_del k (m_byKey m)" "m_services m' = m_services m"
      "m_recs m' = (m_recs m)(r \<mapsto> rec')" "members (as_pool rec') = filter (\<lambda>b. b_key b \<noteq> k) (members (as_pool rec))"
  shows "backend_of m' = (backend_of m)(k := None)"
proof
  fix k'
  have f: "find (\<lambda>b. b_key b = k') (filter (\<lambda>b. b_key b \<noteq> k) xs) = find (\<lambda>b. b_key b = k') xs"
    if "k' \<noteq> k" for xs
    by (rule find_filter_other) (use that in auto)
  show "backend_of m' k' = ((backend_of m)(k := None)) k'"
  proof (cases "k' = k")
    case True
    then show ?thesis using m' by (simp add: backend_of_def)
  next
    case False
    with m' n show ?thesis by (auto simp: backend_of_def f split: option.splits)
  qed
qed

text \<open>A name that no key is registered for may be dropped from the index.\<close>

lemma backend_of_drop:
  assumes "m_byKey m' = m_byKey m" "\<And>k. map_of (m_byKey m) k \<noteq> Some n"
    "\<And>n'. n' \<noteq> n \<Longrightarrow> map_of (m_services m') n' = map_of (m_services m) n'"
    "\<And>n' r. n' \<noteq> n \<Longrightarrow> map_of (m_services m) n' = Some r \<Longrightarrow> m_recs m' r = m_recs m r"
  shows "backend_of m' = backend_of m"
proof
  fix k show "backend_of m' k = backend_of m k"
  proof (cases "map_of (m_byKey m) k")
    case None
    then show ?thesis using assms(1) by (simp add: backend_of_def)
  next
    case (Some n')
    with assms(2) have "n' \<noteq> n" by blast
    with assms(3,4) [OF this] Some assms(1) show ?thesis
      by (cases "map_of (m_services m) n'") (simp_all add: backend_of_def)
  qed
qed

section \<open>The contracts\<close>

text \<open>What a registration of key \<open>k\<close> for target \<open>x\<close> may do to the manager.\<close>

definition reg_post ::
  "Manager \<Rightarrow> string \<Rightarrow> string \<times> backend \<Rightarrow> Manager \<Rightarrow> mgr_error option \<Rightarrow> bool" where
  "reg_post m k x m' e \<longleftrightarrow>
     m_shutdown m' = m_shutdown m \<and> (m_shutdown m \<longrightarrow> e = Some ErrShuttingDown) \<and>
     (e \<noteq> None \<longrightarrow> backend_of m k = None) \<and>
     backend_of m' = (if e = None \<and> backend_of m k = None then (backend_of m)(k \<mapsto> x) else backend_of m)"

lemma reg_post_same:
  "(m_shutdown m \<longrightarrow> e = Some ErrShuttingDown) \<Longrightarrow> (e = None \<longleftrightarrow> backend_of m k \<noteq> None) \<Longrightarrow> reg_post m k x m e"
  by (auto simp: reg_post_def)

lemma reg_post_claim:
  assumes claim: "\<not> m_shutdown m" "backend_of m k = None" "map_of (m_services m) n = None"
      "\<And>n. map_of (m_services m) n \<noteq> Some r" "\<And>k'. map_of (m_byKey m) k' \<noteq> Some n"
      "m1 = m\<lparr>m_recs := (m_recs m)(r \<mapsto> c), m_next := Suc r, m_services := m_put n r (m_services m)\<rparr>"
    and c: "as_name c = n" "members (as_pool c) = []" "\<not> as_ready c" "\<not> as_advertised c" "b_key b = k"
    and ok: "e = None \<Longrightarrow> m_recs m' = (m_recs m1)(r \<mapsto> published b c) \<and> m_services m' = m_services m1 \<and>
        m_byKey m' = m_put k n (m_byKey m1) \<and> \<not> m_shutdown m'"
    and err: "e \<noteq> None \<Longrightarrow> m' = releaseLocked r m1"
  shows "reg_post m k (n, b) m' e"
proof (cases e)
  case None
  have other: "backend_of m' k' = backend_of m k'" if "k' \<noteq> k" for k'
    using that claim ok [OF None] by (cases "map_of (m_byKey m) k'") (auto simp: backend_of_def split: option.splits)
  have "backend_of m' k = Some (n, b)"
    using claim ok [OF None] c by (simp add: backend_of_def published_def)
  with other have "backend_of m' = (backend_of m)(k \<mapsto> (n, b))" by auto
  then show ?thesis using claim ok [OF None] None by (simp add: reg_post_def)
next
  case (Some x)
  have m': "m' = m1\<lparr>m_services := m_del n (m_services m1), m_recs := (m_recs m1)(r \<mapsto> c\<lparr>as_advertised := True\<rparr>)\<rparr>"
    using err Some c claim(6) by (simp add: releaseLocked_pending)
  have "backend_of m' = backend_of m"
    by (rule backend_of_drop [where n = n]) (use m' claim in auto)
  then show ?thesis using claim m' Some by (simp add: reg_post_def)
qed

lemma quiet_register:
  assumes "quiet m" "b_key b = k"
  shows "\<exists>m' e. register listen k d b m = Some (m', e) \<and> quiet m' \<and> reg_post m k (pd_service d, b) m' e"
proof -
  from assms obtain op cl where r: "reach True (solo m Idle op cl)" by (auto simp: quiet_def)
  obtain st where inv: "sys_inv st (solo m Idle op cl)" and own: "pools_owned m" using quiet_inv [OF r] by blast
  obtain m1 out where reg: "register_locked k d b m = (m1, out)" by fastforce
  note idx = index_recs [OF inv, simplified] and run = quiet_register_locked [OF r assms(2) reg]
    and keys = byKey_serving [OF inv, simplified] and none = backend_of_None [OF assms(1)]
  have same: ?thesis if "out = Return e" "m1 = m" "m_shutdown m \<longrightarrow> e = Some ErrShuttingDown"
      "e = None \<longleftrightarrow> map_of (m_byKey m) k \<noteq> None" for e
    using that reg assms(1) reg_post_same [of m e k] none by (auto simp: register_def)
  from reg idx show ?thesis
  proof (cases rule: register_locked_cases)
    case shutdown
    then have "map_of (m_byKey m) k = None" using keys by (metis not_None_eq)
    with shutdown show ?thesis by (intro same) auto
  next
    case known
    then show ?thesis by (intro same) auto
  next
    case claim
    let ?r = "m_next m"
    have "m_recs m ?r = None"
      using inv by (cases "m_recs m ?r") (auto simp: sys_inv_def rec_ok_def rec_fits_def)
    then have free: "map_of (m_services m) n \<noteq> Some ?r" for n using idx by force
    have keyfree: "map_of (m_byKey m) k' \<noteq> Some (pd_service d)" for k'
      using keys claim(3) by (metis option.distinct(1))
    have c: "as_name (claimed d) = pd_service d" "members (as_pool (claimed d)) = []" "\<not> as_ready (claimed d)"
      "\<not> as_advertised (claimed d)" by (simp_all add: claimed_def)
    obtain m' e where adv: "advertise listen ?r k b m1 = (m', e)" "quiet m'"
      "e = None \<longrightarrow> m_recs m' = (m_recs m1)(?r \<mapsto> published b (claimed d)) \<and> m_services m' = m_services m1 \<and>
        m_byKey m' = m_put k (as_name (claimed d)) (m_byKey m1) \<and> \<not> m_shutdown m'"
      "e \<noteq> None \<longrightarrow> m' = releaseLocked ?r m1"
      using quiet_advertise [of m1 ?r k b op cl "claimed d" listen] run claim c
      by (auto simp: after_register_def)
    have "reg_post m k (pd_service d, b) m' e"
      by (rule reg_post_claim [OF claim(1) _ claim(3) free keyfree claim(5) c assms(2)])
        (use claim(2) none adv c in auto)
    then show ?thesis using reg claim adv by (simp add: register_def)
  next
    case (wait r' rec ch)
    then show ?thesis using quiet_serving [OF r wait(3)] by auto
  next
    case (conflict r' rec e)
    then show ?thesis by (intro same [of "Some e"]) auto
  next
    case (join r' rec)
    have "quiet m1" using quiet_returned run join by (simp add: after_register_def)
    moreover have "backend_of m1 = (backend_of m)(k \<mapsto> (pd_service d, b))"
      by (rule backend_of_add [OF own join(2) assms(2) join(3,4) index_unique [OF inv, simplified, OF join(3)],
            where rec' = "joined b rec"]) (use join in \<open>simp_all add: joined_def\<close>)
    then have "reg_post m k (pd_service d, b) m1 None"
      using join none by (simp add: reg_post_def)
    ultimately show ?thesis using reg join by (simp add: register_def)
  qed
qed

lemma quiet_deregister:
  assumes "quiet m"
  shows "quiet (Deregister k m)" "backend_of (Deregister k m) = (backend_of m)(k := None)"
    "m_shutdown (Deregister k m) = m_shutdown m"
proof -
  from assms obtain op cl where r: "reach True (solo m Idle op cl)" by (auto simp: quiet_def)
  obtain st where inv: "sys_inv st (solo m Idle op cl)" using quiet_inv [OF r] by blast
  obtain m1 out where dereg: "deregister_locked k m = (m1, out)" by fastforce
  have run: "reach True (solo m1 (case out of None \<Rightarrow> Idle | Some (r, n) \<Rightarrow> TearDown r n k) op cl)"
    by (rule solo_step [OF r])
      (use mgr_step.do_deregister [of "solo m Idle op cl" 0 True k m1 out] dereg in \<open>simp add: key_free_def\<close>)
  have idx: "\<forall>n. map_of (m_byKey m) k = Some n \<longrightarrow>
       (\<exists>r rec. map_of (m_services m) n = Some r \<and> m_recs m r = Some rec \<and> as_ready rec)"
    using byKey_idx [OF inv] by simp
  have "quiet (Deregister k m) \<and> backend_of (Deregister k m) = (backend_of m)(k := None) \<and>
    m_shutdown (Deregister k m) = m_shutdown m"
    using dereg idx
  proof (cases rule: deregister_locked_cases)
    case unknown
    then show ?thesis using dereg assms backend_of_None [OF assms, of k] by (auto simp: Deregister_def)
  next
    case (leave n r' rec)
    have "backend_of m1 = (backend_of m)(k := None)"
      by (rule backend_of_del [OF leave(1-3), where rec' = "left_by k rec"]) (use leave in \<open>auto simp: left_by_def\<close>)
    then show ?thesis using dereg leave quietI run by (auto simp: Deregister_def)
  next
    case (last n r' rec)
    let ?m2 = "call_closeFn r' m1" and ?cl = "cl(r' := Suc (cl r'))"
    have w: "reach True (solo ?m2 (Withdrawn r' n k) (op - {r'}) ?cl)"
      by (rule solo_step [where m = m1 and p = "TearDown r' n k" and op = op and cl = cl], use run last in simp)
        (use mgr_step.tear_down [of "solo m1 (TearDown r' n k) op cl" 0 r' n k True] in simp)
    have q: "reach True (solo (deregister_finish r' n ?m2) Idle (op - {r'}) ?cl)"
      by (rule solo_step [OF w])
        (use mgr_step.finish_withdraw [of "solo ?m2 (Withdrawn r' n k) (op - {r'}) ?cl" 0 r' n k True] in simp)
    have "backend_of m1 = (backend_of m)(k := None)"
      by (rule backend_of_del [OF last(1-3), where rec' = "(left_by k rec)\<lparr>as_withdrawing := Some False\<rparr>"])
        (use last in \<open>auto simp: left_by_def\<close>)
    moreover have "backend_of (deregister_finish r' n ?m2) = backend_of m1"
    proof (rule backend_of_drop [where n = n])
      obtain st' where inv': "sys_inv st' (solo ?m2 (Withdrawn r' n k) (op - {r'}) ?cl)" using reach_inv [OF w] ..
      have recs: "m_recs ?m2 r' = Some ((left_by k rec)\<lparr>as_withdrawing := Some False\<rparr>)" "m_services ?m2 = m_services m"
        using last by simp_all
      show "m_byKey (deregister_finish r' n ?m2) = m_byKey m1"
        by (simp add: deregister_finish_frames)
      show "map_of (m_byKey m1) k' \<noteq> Some n" for k'
        using byKey_serving [OF inv', simplified, of k' n] last recs
        by (auto simp: rec_fits_def)
      show "map_of (m_services (deregister_finish r' n ?m2)) n' = map_of (m_services m1) n'" if "n' \<noteq> n" for n'
        using that recs by (simp add: deregister_finish_def close_withdrawing_def)
      show "m_recs (deregister_finish r' n ?m2) r'' = m_recs m1 r''"
        if "n' \<noteq> n" "map_of (m_services m1) n' = Some r''" for n' r''
        using that last index_unique [OF inv, simplified, OF last(2), of n']
        by (auto simp: deregister_finish_def close_withdrawing_def)
    qed
    moreover have "Deregister k m = deregister_finish r' n ?m2" using dereg last(5) by (simp add: Deregister_def)
    moreover have "m_shutdown (deregister_finish r' n ?m2) = m_shutdown m"
      using last(6) by (simp add: deregister_finish_frames(2))
    ultimately show ?thesis using quietI [OF q] by (simp only: simp_thms)
  qed
  then show "quiet (Deregister k m)" "backend_of (Deregister k m) = (backend_of m)(k := None)"
    "m_shutdown (Deregister k m) = m_shutdown m" by auto
qed

lemma quiet_new: "mc \<in> {None, Some fresh_gauges} \<Longrightarrow> quiet (NewManager mc)"
  using reach.start [of mc True] by (intro quietI) (simp add: init_sys_def solo_def fun_upd_idem)

lemma quiet_demo: "quiet demo_mgr"
  using demo_run(2) by (intro quietI) (simp add: demo_state_def solo_def)

section \<open>Properties\<close>

text \<open>C15: with no other operation in flight, registering a container always returns (it never
  waits), keeps the manager quiet, and does one of three things: it adds exactly this key, for
  this service and backend; it finds the key registered and changes nothing; or it fails, with
  the key unregistered before and after and every other registration as it was. Once shut down
  it answers \<^verbatim>\<open>ErrShuttingDown\<close>.\<close>

theorem RegisterHostPort_contract:
  assumes "quiet m"
  shows "\<exists>m' e. RegisterHostPort listen now k d ip m = Some (m', e) \<and> quiet m' \<and>
    reg_post m k (pd_service d, hostport_backend now k d ip) m' e"
  unfolding RegisterHostPort_def by (rule quiet_register [OF assms]) (simp add: hostport_backend_def)

theorem RegisterHostPort_contract_witness:
  "\<exists>m' e. RegisterHostPort (\<lambda>_ _. None) 0 ''a'' demo_def ''10.0.0.1'' (NewManager None) = Some (m', e) \<and>
     quiet m' \<and> reg_post (NewManager None) ''a'' (''svc:web'', hostport_backend 0 ''a'' demo_def ''10.0.0.1'') m' e"
  using RegisterHostPort_contract [OF quiet_new, of None "\<lambda>_ _. None" 0 "''a''" demo_def "''10.0.0.1''"]
  by (simp add: demo_def_def)

text \<open>A registration followed by the deregistration of the same key leaves every key
  registered as it was before, and the manager quiet.\<close>

lemma register_deregister:
  assumes "quiet m" "backend_of m k = None" "RegisterHostPort listen now k d ip m = Some (m', e)"
  shows "quiet (Deregister k m') \<and> backend_of (Deregister k m') = backend_of m"
proof -
  obtain m'' e' where "RegisterHostPort listen now k d ip m = Some (m'', e')" and q: "quiet m''"
    and post: "reg_post m k (pd_service d, hostport_backend now k d ip) m'' e'"
    using quiet_register [OF assms(1), of "hostport_backend now k d ip" k listen d]
    by (auto simp: RegisterHostPort_def hostport_backend_def)
  with assms(3) have "m'' = m'" by simp
  moreover have "(backend_of m)(k := None) = backend_of m" using assms(2) by auto
  ultimately show ?thesis using quiet_deregister [OF q, of k] post by (auto simp: reg_post_def split: if_splits)
qed

lemma register_deregister_witness:
  "\<exists>m' e. RegisterHostPort (\<lambda>_ _. None) 0 ''b'' demo_def ''10.0.0.2'' demo_mgr = Some (m', e) \<and>
     backend_of (Deregister ''b'' m') = backend_of demo_mgr"
proof -
  obtain m' e where "RegisterHostPort (\<lambda>_ _. None) 0 ''b'' demo_def ''10.0.0.2'' demo_mgr = Some (m', e)"
    using quiet_register [OF quiet_demo, of "hostport_backend 0 ''b'' demo_def ''10.0.0.2''" "''b''" "\<lambda>_ _. None" demo_def]
    by (auto simp: RegisterHostPort_def hostport_backend_def)
  moreover have "backend_of demo_mgr ''b'' = None" by (simp add: backend_of_def demo_mgr_def)
  ultimately show ?thesis using register_deregister [OF quiet_demo] by blast
qed

text \<open>C16: a backend that does not match the advertised service is refused, and only such a one:
  a key that is not registered, for a service that is advertised, joins exactly when its scheme is the
  advertised one and its capabilities are the same set: then the call returns nil, the key is registered
  for the service, the backend is the last member of its pool, and nothing else of the index and of the
  records changes. Otherwise the registration returns a conflict naming the field, and the manager is
  unchanged. No other operation is in flight.\<close>

theorem conflict_refused:
  assumes "quiet m" "\<not> m_shutdown m" "map_of (m_byKey m) k = None"
    and "map_of (m_services m) (pd_service d) = Some r" "m_recs m r = Some rec"
  shows "if pd_scheme d \<noteq> as_scheme rec
         then register listen k d b m =
           Some (m, Some (ConflictError (pd_service d) k ''scheme'' (as_scheme rec) (pd_scheme d)))
         else if set (pd_caps d) \<noteq> set (as_caps rec)
         then register listen k d b m =
           Some (m, Some (ConflictError (pd_service d) k ''caps''
             (join '','' (sortedCaps (as_caps rec))) (join '','' (sortedCaps (pd_caps d)))))
         else \<exists>m'. register listen k d b m = Some (m', None) \<and>
           map_of (m_byKey m') = (map_of (m_byKey m))(k \<mapsto> pd_service d) \<and> m_services m' = m_services m \<and>
           m_recs m' = (m_recs m)
             (r \<mapsto> rec\<lparr>as_pool := (as_pool rec)\<lparr>members := members (as_pool rec) @ [b]\<rparr>\<rparr>)"
proof -
  from assms(1) obtain op cl where r: "reach True (solo m Idle op cl)" by (auto simp: quiet_def)
  have name: "as_name rec = pd_service d" and tr: "transition r rec = None"
    using quiet_serving [OF r assms(4)] assms(5) by auto
  note reg = register_def register_locked_def assms(2-5) tr name
  have "\<exists>m'. register listen k d b m = Some (m', None) \<and>
      map_of (m_byKey m') = (map_of (m_byKey m))(k \<mapsto> pd_service d) \<and> m_services m' = m_services m \<and>
      m_recs m' = (m_recs m)(r \<mapsto> rec\<lparr>as_pool := (as_pool rec)\<lparr>members := members (as_pool rec) @ [b]\<rparr>\<rparr>)"
    if "pd_scheme d = as_scheme rec" "set (pd_caps d) = set (as_caps rec)"
    using that conflictWith_None [of rec k d] by (auto simp: reg pool_add_eq upd_rec_def)
  then show ?thesis by (auto simp: reg conflictWith_def sameCaps_iff)
qed

theorem conflict_refused_witness:
  "register (\<lambda>_ _. None) ''b'' (demo_def\<lparr>pd_scheme := ''https''\<rparr>) (example_backend ''b'') demo_mgr =
     Some (demo_mgr, Some (ConflictError ''svc:web'' ''b'' ''scheme'' ''http'' ''https'')) \<and>
   (\<exists>m'. register (\<lambda>_ _. None) ''b'' demo_def (example_backend ''b'') demo_mgr = Some (m', None) \<and>
      map_of (m_byKey m') ''b'' = Some ''svc:web'' \<and>
      map_option (\<lambda>rec. members (as_pool rec)) (m_recs m' 0) = Some [example_backend ''a'', example_backend ''b''])"
proof
  show "register (\<lambda>_ _. None) ''b'' (demo_def\<lparr>pd_scheme := ''https''\<rparr>) (example_backend ''b'') demo_mgr =
     Some (demo_mgr, Some (ConflictError ''svc:web'' ''b'' ''scheme'' ''http'' ''https''))"
    using conflict_refused [OF quiet_demo, of "''b''" "demo_def\<lparr>pd_scheme := ''https''\<rparr>" 0 demo_rec]
    by (simp add: demo_mgr_def demo_def_def demo_rec_def)
  obtain m' where "register (\<lambda>_ _. None) ''b'' demo_def (example_backend ''b'') demo_mgr = Some (m', None)"
    "map_of (m_byKey m') ''b'' = Some ''svc:web''"
    "m_recs m' 0 = Some (demo_rec\<lparr>as_pool := (as_pool demo_rec)\<lparr>members := members (as_pool demo_rec) @ [example_backend ''b'']\<rparr>\<rparr>)"
    using conflict_refused [OF quiet_demo, of "''b''" demo_def 0 demo_rec "\<lambda>_ _. None" "example_backend ''b''"]
    by (auto simp: demo_mgr_def demo_def_def demo_rec_def)
  then show "\<exists>m'. register (\<lambda>_ _. None) ''b'' demo_def (example_backend ''b'') demo_mgr = Some (m', None) \<and>
      map_of (m_byKey m') ''b'' = Some ''svc:web'' \<and>
      map_option (\<lambda>rec. members (as_pool rec)) (m_recs m' 0) = Some [example_backend ''a'', example_backend ''b'']"
    by (simp add: demo_rec_def)
qed

end
