(* ===== verification/Registrar.thy ===== *)
theory Registrar
  imports Labels Manager_Sequential
begin

text \<open>
  How discovery reaches the manager: \<^verbatim>\<open>registrarAdapter\<close> of \<^verbatim>\<open>main.go\<close>, the bookkeeping that the
  Docker, ECS and Lambda watchers share, and the contract between the two sides, a locale that
  the adapter over the manager's model interprets twice: for containers (\<open>ctr\<close>) and for
  functions (\<open>fns\<close>).
\<close>

section \<open>The adapter\<close>

text \<open>A goroutine's view of \<^verbatim>\<open>registrarAdapter\<close>: the shared manager, the channel \<^verbatim>\<open>fatal\<close> (which
  buffers one error), the number of calls so far, which picks what \<^verbatim>\<open>ListenService\<close> and the clock
  answer next, and whether a call has blocked.\<close>

record adapter =
  ad_mgr :: Manager
  ad_fatal :: "mgr_error option"
  ad_calls :: nat
  ad_blocked :: bool

definition forwardFatal :: "mgr_error option \<Rightarrow> adapter \<Rightarrow> adapter" where
  "forwardFatal err a =
     (case err of
        Some (FatalError svc text) \<Rightarrow>
          (if ad_fatal a = None then a\<lparr>ad_fatal := Some (FatalError svc text)\<rparr> else a)
      | _ \<Rightarrow> a)"

definition finish_call ::
  "(Manager \<times> mgr_error option) option \<Rightarrow> adapter \<Rightarrow> adapter \<times> mgr_error option" where
  "finish_call res a =
     (case res of
        None \<Rightarrow> (a\<lparr>ad_blocked := True\<rparr>, None)
      | Some (m, err) \<Rightarrow> (forwardFatal err (a\<lparr>ad_mgr := m, ad_calls := Suc (ad_calls a)\<rparr>), err))"

definition proxy_def :: "Origin \<Rightarrow> ServiceDef \<Rightarrow> PServiceDef" where
  "proxy_def origin def =
     \<lparr>pd_service = sd_service def, pd_port = sd_port def, pd_network = sd_network def,
      pd_scheme = sd_scheme def, pd_caps = sd_caps def, pd_origin = origin\<rparr>"

definition adapter_Register ::
  "(nat \<Rightarrow> string \<Rightarrow> ServiceMode \<Rightarrow> string option) \<Rightarrow> (nat \<Rightarrow> nanos) \<Rightarrow> Origin
     \<Rightarrow> string \<Rightarrow> ServiceDef \<times> string \<Rightarrow> adapter \<Rightarrow> adapter \<times> mgr_error option" where
  "adapter_Register listen clock origin containerID arg a =
     (case arg of (def, backendIP) \<Rightarrow>
        finish_call
          (RegisterHostPort (listen (ad_calls a)) (clock (ad_calls a)) containerID
             (proxy_def origin def) backendIP (ad_mgr a)) a)"

text \<open>A discovered function (\<^verbatim>\<open>lambda.Function\<close>).\<close>

record Function =
  fn_service :: string
  fn_caps :: "string list"
  fn_arn :: string
  fn_qualifier :: string

definition NewFunctionInvoker :: "string \<Rightarrow> string \<Rightarrow> FunctionInvoker" where
  "NewFunctionInvoker arn qualifier = \<lparr>fi_arn = arn, fi_qualifier = qualifier\<rparr>"

definition function_def :: "Origin \<Rightarrow> Function \<Rightarrow> FunctionDef" where
  "function_def origin fn =
     \<lparr>fd_service = fn_service fn, fd_caps = fn_caps fn, fd_origin = origin,
      fd_invoker = Some (NewFunctionInvoker (fn_arn fn) (fn_qualifier fn))\<rparr>"

definition adapter_RegisterFunction ::
  "(nat \<Rightarrow> string \<Rightarrow> ServiceMode \<Rightarrow> string option) \<Rightarrow> (nat \<Rightarrow> nanos) \<Rightarrow> Origin
     \<Rightarrow> string \<Rightarrow> Function \<Rightarrow> adapter \<Rightarrow> adapter \<times> mgr_error option" where
  "adapter_RegisterFunction listen clock origin key fn a =
     finish_call
       (RegisterFunction (listen (ad_calls a)) (clock (ad_calls a)) key (function_def origin fn) (ad_mgr a)) a"

definition adapter_Deregister :: "string \<Rightarrow> adapter \<Rightarrow> adapter" where
  "adapter_Deregister containerID a = a\<lparr>ad_mgr := Deregister containerID (ad_mgr a)\<rparr>"

section \<open>The bookkeeping the three watchers share\<close>

text \<open>\<open>active\<close> maps a key to what its last successful registration was for, \<open>failed\<close> to the text of
  the last failure.\<close>

record 'v book =
  active :: "(string, 'v) gomap"
  failed :: "(string, string) gomap"
  warned :: "(string \<times> string) list" \<comment> \<open>the failures logged at Warn, latest first\<close>

definition new_book :: "'v book" where
  "new_book = \<lparr>active = m_empty, failed = m_empty, warned = []\<rparr>"

text \<open>A failure is logged at Warn unless the key last failed in the same way.\<close>

definition note_failure :: "string \<Rightarrow> string \<Rightarrow> 'v book \<Rightarrow> 'v book" where
  "note_failure key reason w =
     w\<lparr>warned := (if map_of (failed w) key = Some reason then warned w else (key, reason) # warned w),
       failed := m_put key reason (failed w)\<rparr>"

text \<open>The step the watchers share: register \<open>key\<close>, record it active with \<open>v\<close> if that succeeded and
  note the failure otherwise; and the same for a key that may be active, which is deregistered
  first when what is recorded for it differs.\<close>

definition try_register ::
  "(string \<Rightarrow> 'd \<Rightarrow> 's \<Rightarrow> 's \<times> 'e option) \<Rightarrow> ('e \<Rightarrow> string) \<Rightarrow> string \<Rightarrow> 'd \<Rightarrow> 'v
     \<Rightarrow> 's \<times> 'v book \<Rightarrow> 's \<times> 'v book" where
  "try_register reg text key d v st =
     (case st of (s, w) \<Rightarrow>
        (case reg key d s of
           (s', Some err) \<Rightarrow> (s', note_failure key (text err) w)
         | (s', None) \<Rightarrow>
             (s', w\<lparr>failed := m_del key (failed w), active := m_put key v (active w)\<rparr>)))"

definition sync_key ::
  "(string \<Rightarrow> 'd \<Rightarrow> 's \<Rightarrow> 's \<times> 'e option) \<Rightarrow> (string \<Rightarrow> 's \<Rightarrow> 's) \<Rightarrow> ('e \<Rightarrow> string) \<Rightarrow> string \<Rightarrow> 'd \<Rightarrow> 'v
     \<Rightarrow> 's \<times> 'v book \<Rightarrow> 's \<times> 'v book" where
  "sync_key reg dereg text key d v st =
     (case st of (s, w) \<Rightarrow>
        (case map_of (active w) key of
           Some prev \<Rightarrow>
             if prev = v then (s, w)
             else try_register reg text key d v (dereg key s, w\<lparr>active := m_del key (active w)\<rparr>)
         | None \<Rightarrow> try_register reg text key d v (s, w)))"

text \<open>\<^verbatim>\<open>removeMissing\<close>, the same code in the three packages. Both loops visit every entry once.\<close>

definition removeMissing ::
  "(string \<Rightarrow> 's \<Rightarrow> 's) \<Rightarrow> string list \<Rightarrow> 's \<times> 'v book \<Rightarrow> 's \<times> 'v book" where
  "removeMissing dereg seen st =
     (case st of (s, w) \<Rightarrow>
        let gone = filter (\<lambda>k. k \<notin> set seen) (map fst (active w));
            forget = filter (\<lambda>k. k \<notin> set seen) (map fst (failed w))
        in (fold dereg gone s,
            w\<lparr>active := fold m_del gone (active w), failed := fold m_del forget (failed w)\<rparr>))"

section \<open>The interface\<close>

text \<open>The book of a reader that owns the keys \<open>K\<close> agrees with the registrar: a key of \<open>K\<close> is active
  exactly when it is registered, and what is recorded for it fits its target.\<close>

definition agrees ::
  "('s \<Rightarrow> bool) \<Rightarrow> ('s \<Rightarrow> string \<Rightarrow> 't option) \<Rightarrow> (string \<Rightarrow> 'v \<Rightarrow> 't \<Rightarrow> bool) \<Rightarrow> string set \<Rightarrow> 's \<Rightarrow> 'v book \<Rightarrow> bool" where
  "agrees ok view R K s w \<longleftrightarrow>
     ok s \<and> dom (map_of (active w)) \<subseteq> K \<and>
     (\<forall>k\<in>K. rel_option (R k) (map_of (active w) k) (view s k))"

lemma agrees_frames [simp]:
  "agrees ok view R K s (w\<lparr>failed := f\<rparr>) = agrees ok view R K s w"
  "agrees ok view R K s (w\<lparr>warned := l\<rparr>) = agrees ok view R K s w"
  "agrees ok view R K s (note_failure k x w) = agrees ok view R K s w"
  by (simp_all add: agrees_def note_failure_def)

lemma note_failure_simps [simp]:
  "active (note_failure k x w) = active w" "failed (note_failure k x w) = m_put k x (failed w)"
  by (simp_all add: note_failure_def)

text \<open>Only key \<open>i\<close> changed, in the book and in the registrar.\<close>

definition touches ::
  "('s \<Rightarrow> string \<Rightarrow> 't option) \<Rightarrow> string \<Rightarrow> 's \<times> 'v book \<Rightarrow> 's \<times> 'v book \<Rightarrow> bool" where
  "touches view i st st' \<longleftrightarrow>
     (\<forall>k. k \<noteq> i \<longrightarrow> map_of (active (snd st')) k = map_of (active (snd st)) k \<and>
        map_of (failed (snd st')) k = map_of (failed (snd st)) k \<and> view (fst st') k = view (fst st) k)"

text \<open>A key the watcher has dealt with: it is active, or its failure is on record.\<close>

definition settled :: "'v book \<Rightarrow> string \<Rightarrow> bool" where
  "settled w k \<longleftrightarrow> map_of (active w) k \<noteq> None \<or> map_of (failed w) k \<noteq> None"

lemma touches_refl [simp]: "touches view i st st"
  by (simp add: touches_def)

lemma touches_trans: "touches view i st st' \<Longrightarrow> touches view i st' st'' \<Longrightarrow> touches view i st st''"
  by (simp add: touches_def)

lemma touches_settled:
  "touches view i st st' \<Longrightarrow> settled (snd st') i \<Longrightarrow> settled (snd st) k \<Longrightarrow> settled (snd st') k"
  by (cases "k = i") (auto simp: touches_def settled_def)

text \<open>What a watcher that owns the keys \<open>K\<close> relies on. \<open>view\<close> is the abstract state: the target each
  key is registered for. The laws are the registrar's documented contract: idempotent over the
  key, nil only once the backend is in service, and nothing changed by a failure. They are only
  promised for the watcher's own keys.\<close>

locale registrar =
  fixes reg :: "string \<Rightarrow> 'd \<Rightarrow> 's \<Rightarrow> 's \<times> 'e option"
    and dereg :: "string \<Rightarrow> 's \<Rightarrow> 's"
    and view :: "'s \<Rightarrow> string \<Rightarrow> 't option"
    and target :: "string \<Rightarrow> 'd \<Rightarrow> 't"
    and ok :: "'s \<Rightarrow> bool"
    and K :: "string set"
  assumes reg_ok: "ok s \<Longrightarrow> k \<in> K \<Longrightarrow> reg k d s = (s', e) \<Longrightarrow> ok s'"
    and reg_view: "ok s \<Longrightarrow> k \<in> K \<Longrightarrow> reg k d s = (s', e) \<Longrightarrow>
          view s' = (if e = None \<and> view s k = None then (view s)(k \<mapsto> target k d) else view s)"
    and reg_fails_unregistered: "ok s \<Longrightarrow> k \<in> K \<Longrightarrow> reg k d s = (s', Some x) \<Longrightarrow> view s k = None"
    and dereg_ok: "ok s \<Longrightarrow> k \<in> K \<Longrightarrow> ok (dereg k s)"
    and dereg_view: "ok s \<Longrightarrow> k \<in> K \<Longrightarrow> view (dereg k s) = (view s)(k := None)"
begin

lemma agrees_ok: "agrees ok view R K s w \<Longrightarrow> ok s"
  by (simp add: agrees_def)

lemma agrees_iff:
  assumes "agrees ok view R K s w" "k \<in> K"
  shows "map_of (active w) k = None \<longleftrightarrow> view s k = None"
proof -
  have "rel_option (R k) (map_of (active w) k) (view s k)" using assms by (simp add: agrees_def)
  then show ?thesis by (cases "map_of (active w) k"; cases "view s k") auto
qed

lemma agrees_dereg:
  assumes "agrees ok view R K s w" "k \<in> K"
  shows "agrees ok view R K (dereg k s) (w\<lparr>active := m_del k (active w)\<rparr>)"
  using assms by (auto simp: agrees_def dereg_ok dereg_view)

lemma agrees_reg:
  assumes "agrees ok view R K s w" "k \<in> K" "map_of (active w) k = None" "reg k d s = (s', None)" "R k v (target k d)"
  shows "agrees ok view R K s' (w\<lparr>active := m_put k v (active w)\<rparr>)"
proof -
  have "view s k = None" using assms(1-3) by (auto simp: agrees_def)
  with assms reg_view [OF agrees_ok [OF assms(1)] assms(2,4)] reg_ok [OF agrees_ok [OF assms(1)] assms(2,4)]
  show ?thesis by (auto simp: agrees_def)
qed

lemma agrees_reg_fail:
  assumes "agrees ok view R K s w" "k \<in> K" "reg k d s = (s', Some e)"
  shows "agrees ok view R K s' w"
  using assms reg_view [OF agrees_ok [OF assms(1)] assms(2,3)] reg_ok [OF agrees_ok [OF assms(1)] assms(2,3)]
  by (simp add: agrees_def)

text \<open>The operations on other keys are not seen through a key.\<close>

lemma view_other:
  assumes "ok s" "k \<in> K" "k' \<noteq> k"
  shows "view (dereg k s) k' = view s k'" "reg k d s = (s', e) \<Longrightarrow> view s' k' = view s k'"
  using assms by (auto simp: dereg_view reg_view)

lemma try_register_step:
  assumes ag: "agrees ok view R K s w" and i: "i \<in> K" "map_of (active w) i = None" and fits: "R i v (target i d)"
    and run: "try_register reg text i d v (s, w) = (s', w')"
  shows "agrees ok view R K s' w' \<and> touches view i (s, w) (s', w') \<and> settled w' i"
proof (cases "reg i d s")
  case (Pair s1 e)
  note other = view_other(2) [OF agrees_ok [OF ag] i(1) _ Pair]
  show ?thesis
  proof (cases e)
    case None
    with Pair run have "s' = s1" "w' = w\<lparr>failed := m_del i (failed w), active := m_put i v (active w)\<rparr>"
      by (auto simp: try_register_def)
    moreover have "agrees ok view R K s1 (w\<lparr>active := m_put i v (active w)\<rparr>)"
      using agrees_reg [OF ag i, of d s1] Pair None fits by simp
    ultimately show ?thesis using other by (auto simp: agrees_def touches_def settled_def)
  next
    case (Some err)
    with Pair run have "s' = s1" "w' = note_failure i (text err) w" by (auto simp: try_register_def)
    moreover have "agrees ok view R K s1 w" using agrees_reg_fail [OF ag i(1)] Pair Some by simp
    ultimately show ?thesis using other by (auto simp: touches_def settled_def)
  qed
qed

lemma move_step:
  assumes ag: "agrees ok view R K s w" and i: "i \<in> K" and fits: "R i v (target i d)"
    and run: "try_register reg text i d v (dereg i s, w\<lparr>active := m_del i (active w)\<rparr>) = (s', w')"
  shows "agrees ok view R K s' w' \<and> touches view i (s, w) (s', w') \<and> settled w' i"
proof -
  have "touches view i (s, w) (dereg i s, w\<lparr>active := m_del i (active w)\<rparr>)"
    using view_other(1) [OF agrees_ok [OF ag] i] by (auto simp: touches_def)
  with try_register_step [OF agrees_dereg [OF ag i] i _ fits run] show ?thesis
    by (auto intro: touches_trans)
qed

lemma sync_key_step:
  assumes ag: "agrees ok view R K s w" and i: "i \<in> K" and fits: "R i v (target i d)"
    and run: "sync_key reg dereg text i d v (s, w) = (s', w')"
  shows "agrees ok view R K s' w' \<and> touches view i (s, w) (s', w') \<and> settled w' i"
proof (cases "map_of (active w) i")
  case None
  then show ?thesis using run try_register_step [OF ag i None fits] by (simp add: sync_key_def)
next
  case (Some prev)
  then show ?thesis using run ag move_step [OF ag i fits]
    by (cases "prev = v") (auto simp: sync_key_def settled_def)
qed

lemma dereg_list:
  assumes "ok s" "set ks \<subseteq> K"
  shows "ok (fold dereg ks s) \<and> view (fold dereg ks s) = (\<lambda>k. if k \<in> set ks then None else view s k)"
  using assms
proof (induction ks arbitrary: s)
  case (Cons k ks)
  then show ?case using Cons.IH [of "dereg k s"] dereg_ok [of s k] by (auto simp: dereg_view)
qed simp

lemma removeMissing_agrees:
  assumes "agrees ok view R K s w" "removeMissing dereg seen (s, w) = (s', w')"
  shows "agrees ok view R K s' w'"
    "map_of (active w') k = (if k \<in> set seen then map_of (active w) k else None)"
    "map_of (failed w') k = (if k \<in> set seen then map_of (failed w) k else None)"
    "view s' k = (if k \<in> set seen \<or> k \<notin> dom (map_of (active w)) then view s k else None)"
proof -
  let ?gone = "filter (\<lambda>k. k \<notin> set seen) (map fst (active w))"
  let ?forget = "filter (\<lambda>k. k \<notin> set seen) (map fst (failed w))"
  have s': "s' = fold dereg ?gone s" and w': "active w' = fold m_del ?gone (active w)"
      "failed w' = fold m_del ?forget (failed w)"
    using assms(2) by (auto simp: removeMissing_def Let_def)
  show a: "map_of (active w') k = (if k \<in> set seen then map_of (active w) k else None)" for k
    by (auto simp: w' map_of_fold_m_del restrict_map_def map_of_eq_None_iff)
  show "map_of (failed w') k = (if k \<in> set seen then map_of (failed w) k else None)"
    by (auto simp: w' map_of_fold_m_del restrict_map_def map_of_eq_None_iff)
  have own: "fst ` set (active w) \<subseteq> K" using assms(1) by (simp add: agrees_def dom_map_of_conv_image_fst)
  have v: "ok s' \<and> view s' = (\<lambda>k. if k \<in> set ?gone then None else view s k)"
    unfolding s' by (rule dereg_list [OF agrees_ok [OF assms(1)]]) (use own in auto)
  then show v': "view s' k = (if k \<in> set seen \<or> k \<notin> dom (map_of (active w)) then view s k else None)" for k
    by (auto simp: dom_map_of_conv_image_fst)
  have "rel_option (R k) (map_of (active w') k) (view s' k)" if "k \<in> K" for k
  proof -
    have "rel_option (R k) (map_of (active w) k) (view s k)" using assms(1) that by (simp add: agrees_def)
    then show ?thesis by (cases "map_of (active w) k") (auto simp: a v')
  qed
  moreover have "dom (map_of (active w')) \<subseteq> dom (map_of (active w))" by (auto simp: a split: if_splits)
  ultimately show "agrees ok view R K s' w'" using assms(1) v by (auto simp: agrees_def)
qed

end

section \<open>The manager as a registrar\<close>

definition view_of :: "adapter \<Rightarrow> string \<Rightarrow> (string \<times> string) option" where
  "view_of a k =
     map_option (\<lambda>(n, b). (n, if b_invoker b \<noteq> None then b_target b else b_addr b)) (backend_of (ad_mgr a) k)"

definition adapter_ok :: "adapter \<Rightarrow> bool" where
  "adapter_ok a \<longleftrightarrow> quiet (ad_mgr a) \<and> \<not> m_shutdown (ad_mgr a) \<and> \<not> ad_blocked a"

definition container_target :: "string \<Rightarrow> ServiceDef \<times> string \<Rightarrow> string \<times> string" where
  "container_target k arg =
     (sd_service (fst arg), join_host_port (snd arg) (show_nat (unat (sd_port (fst arg)))))"

definition function_target :: "string \<Rightarrow> Function \<Rightarrow> string \<times> string" where
  "function_target k fn = (fn_service fn, Target (NewFunctionInvoker (fn_arn fn) (fn_qualifier fn)))"

lemma forwardFatal_simps [simp]:
  "ad_mgr (forwardFatal e a) = ad_mgr a" "ad_blocked (forwardFatal e a) = ad_blocked a"
  by (simp_all add: forwardFatal_def split: option.splits mgr_error.splits)

text \<open>A call that ends in a registration by the manager obeys the laws.\<close>

lemma finish_call_laws:
  assumes "adapter_ok a" "b_key b = k"
    and "finish_call (register listen k d b (ad_mgr a)) a = (a', e)"
  shows "adapter_ok a'" "e \<noteq> None \<Longrightarrow> view_of a k = None"
    "view_of a' = (if e = None \<and> view_of a k = None
       then (view_of a)(k \<mapsto> (pd_service d, if b_invoker b \<noteq> None then b_target b else b_addr b)) else view_of a)"
proof -
  from assms(1) have q: "quiet (ad_mgr a)" by (simp add: adapter_ok_def)
  obtain m' e' where r: "register listen k d b (ad_mgr a) = Some (m', e')" "quiet m'"
    "reg_post (ad_mgr a) k (pd_service d, b) m' e'"
    using quiet_register [OF q assms(2), of listen d] by blast
  with assms(3) have e: "e' = e" and a': "ad_mgr a' = m'" "ad_blocked a' = ad_blocked a"
    by (auto simp: finish_call_def)
  from r(3) have post: "m_shutdown m' = m_shutdown (ad_mgr a)" "e \<noteq> None \<longrightarrow> backend_of (ad_mgr a) k = None"
    "backend_of m' = (if e = None \<and> backend_of (ad_mgr a) k = None
       then (backend_of (ad_mgr a))(k \<mapsto> (pd_service d, b)) else backend_of (ad_mgr a))"
    by (simp_all add: reg_post_def e)
  show "adapter_ok a'" using assms(1) r(2) a' post(1) by (simp add: adapter_ok_def)
  show "e \<noteq> None \<Longrightarrow> view_of a k = None" using post(2) by (simp add: view_of_def)
  show "view_of a' = (if e = None \<and> view_of a k = None
       then (view_of a)(k \<mapsto> (pd_service d, if b_invoker b \<noteq> None then b_target b else b_addr b)) else view_of a)"
    by (auto simp: view_of_def a' post(3) fun_eq_iff)
qed

lemma adapter_Deregister_laws:
  assumes "adapter_ok a"
  shows "adapter_ok (adapter_Deregister k a)" "view_of (adapter_Deregister k a) = (view_of a)(k := None)"
  using assms by (auto simp: adapter_ok_def adapter_Deregister_def view_of_def quiet_deregister fun_eq_iff)

lemma adapter_Register_laws:
  assumes ok: "adapter_ok a" and run: "adapter_Register listen clock origin k d a = (a', e)"
  shows "adapter_ok a'" "e \<noteq> None \<Longrightarrow> view_of a k = None"
    "view_of a' = (if e = None \<and> view_of a k = None then (view_of a)(k \<mapsto> container_target k d) else view_of a)"
proof -
  let ?b = "hostport_backend (clock (ad_calls a)) k (proxy_def origin (fst d)) (snd d)"
  have key: "b_key ?b = k" by (simp add: hostport_backend_def)
  from run have "finish_call (register (listen (ad_calls a)) k (proxy_def origin (fst d)) ?b (ad_mgr a)) a = (a', e)"
    by (simp add: adapter_Register_def RegisterHostPort_def split: prod.splits)
  note laws = finish_call_laws [OF ok key this]
  show "adapter_ok a'" "e \<noteq> None \<Longrightarrow> view_of a k = None" using laws(1,2) by blast+
  show "view_of a' = (if e = None \<and> view_of a k = None then (view_of a)(k \<mapsto> container_target k d) else view_of a)"
    using laws(3) by (simp add: container_target_def hostport_backend_def proxy_def_def)
qed

lemma adapter_RegisterFunction_laws:
  assumes ok: "adapter_ok a" and run: "adapter_RegisterFunction listen clock origin k d a = (a', e)"
  shows "adapter_ok a'" "e \<noteq> None \<Longrightarrow> view_of a k = None"
    "view_of a' = (if e = None \<and> view_of a k = None then (view_of a)(k \<mapsto> function_target k d) else view_of a)"
proof -
  let ?b = "function_backend (clock (ad_calls a)) k (function_def origin d) (NewFunctionInvoker (fn_arn d) (fn_qualifier d))"
  have key: "b_key ?b = k" by (simp add: function_backend_def)
  from run have "finish_call (register (listen (ad_calls a)) k (function_service_def (function_def origin d)) ?b
      (ad_mgr a)) a = (a', e)"
    by (simp add: adapter_RegisterFunction_def RegisterFunction_def function_def_def)
  note laws = finish_call_laws [OF ok key this]
  show "adapter_ok a'" "e \<noteq> None \<Longrightarrow> view_of a k = None" using laws(1,2) by blast+
  show "view_of a' = (if e = None \<and> view_of a k = None then (view_of a)(k \<mapsto> function_target k d) else view_of a)"
    using laws(3) by (simp add: function_target_def function_backend_def function_service_def_def function_def_def)
qed

interpretation ctr: registrar "adapter_Register listen clock origin" adapter_Deregister
  view_of container_target adapter_ok K for listen clock origin K
proof
  show "view_of s k = None" if "adapter_ok s" "adapter_Register listen clock origin k d s = (s', Some x)" for s s' k d x
    using adapter_Register_laws(2) [OF that] by simp
qed (blast intro: adapter_Register_laws adapter_Deregister_laws)+

interpretation fns: registrar "adapter_RegisterFunction listen clock origin" adapter_Deregister
  view_of function_target adapter_ok K for listen clock origin K
proof
  show "view_of s k = None" if "adapter_ok s" "adapter_RegisterFunction listen clock origin k d s = (s', Some x)" for s s' k d x
    using adapter_RegisterFunction_laws(2) [OF that] by simp
qed (blast intro: adapter_RegisterFunction_laws adapter_Deregister_laws)+

end
