(* ===== verification/Http.thy ===== *)
theory Http
  imports Pool
begin

text \<open>
  What the proxy uses of \<^verbatim>\<open>net/http\<close> and \<^verbatim>\<open>errors\<close>: header maps with canonical names, requests and
  responses, and errors with what they wrap; and the classification of proxy errors that both kinds
  of backend share (\<^verbatim>\<open>proxy/reverseproxy.go\<close>, \<^verbatim>\<open>proxy/invoker.go\<close>).
\<close>

section \<open>Headers\<close>

type_synonym hdr = "(string, string list) gomap"

text \<open>\<^verbatim>\<open>textproto.CanonicalMIMEHeaderKey\<close>: a name with a byte that is not allowed in a field name is
  left alone; otherwise the first letter and every letter after a hyphen is upper case and the
  others are lower case.\<close>

definition token_char :: "char \<Rightarrow> bool" where
  "token_char c \<longleftrightarrow>
     CHR ''A'' \<le> c \<and> c \<le> CHR ''Z'' \<or> CHR ''a'' \<le> c \<and> c \<le> CHR ''z'' \<or> CHR ''0'' \<le> c \<and> c \<le> CHR ''9'' \<or>
     c \<in> set ''!#$%&*+-.^_`|~'' \<or> c = CHR 0x27"

definition ascii_upper :: "char \<Rightarrow> char" where
  "ascii_upper c = (if CHR ''a'' \<le> c \<and> c \<le> CHR ''z'' then char_of (of_char c - 32 :: nat) else c)"

definition ascii_lower :: "char \<Rightarrow> char" where
  "ascii_lower c = (if CHR ''A'' \<le> c \<and> c \<le> CHR ''Z'' then char_of (of_char c + 32 :: nat) else c)"

fun canonical_from :: "bool \<Rightarrow> string \<Rightarrow> string" where
  "canonical_from up [] = []"
| "canonical_from up (c # cs) = (if up then ascii_upper c else ascii_lower c) # canonical_from (c = CHR ''-'') cs"

definition CanonicalHeaderKey :: "string \<Rightarrow> string" where
  "CanonicalHeaderKey k = (if list_all token_char k then canonical_from True k else k)"

text \<open>\<^verbatim>\<open>http.Header\<close>'s methods.\<close>

definition hd_Get :: "hdr \<Rightarrow> string \<Rightarrow> string" where
  "hd_Get h k = (case map_of h (CanonicalHeaderKey k) of Some (v # vs) \<Rightarrow> v | _ \<Rightarrow> [])"

definition hd_Set :: "string \<Rightarrow> string \<Rightarrow> hdr \<Rightarrow> hdr" where
  "hd_Set k v h = m_put (CanonicalHeaderKey k) [v] h"

definition hd_Del :: "string \<Rightarrow> hdr \<Rightarrow> hdr" where
  "hd_Del k h = m_del (CanonicalHeaderKey k) h"

definition hd_Add :: "string \<Rightarrow> string \<Rightarrow> hdr \<Rightarrow> hdr" where
  "hd_Add k v h =
     m_put (CanonicalHeaderKey k) ((case map_of h (CanonicalHeaderKey k) of None \<Rightarrow> [] | Some vs \<Rightarrow> vs) @ [v]) h"

text \<open>\<^verbatim>\<open>strings.EqualFold\<close> against an ASCII string: besides the ASCII letters, U+212A folds to
  \<^verbatim>\<open>k\<close> and U+017F to \<^verbatim>\<open>s\<close>; no other code point outside ASCII folds to one inside it.\<close>

fun fold_ascii :: "string \<Rightarrow> string" where
  "fold_ascii [] = []"
| "fold_ascii (c # cs) =
     (if c = CHR 0xE2 \<and> take 2 cs = [CHR 0x84, CHR 0xAA] then CHR ''k'' # fold_ascii (drop 2 cs)
      else if c = CHR 0xC5 \<and> take 1 cs = [CHR 0xBF] then CHR ''s'' # fold_ascii (drop 1 cs)
      else ascii_lower c # fold_ascii cs)"

definition EqualFold :: "string \<Rightarrow> string \<Rightarrow> bool" where
  "EqualFold s t \<longleftrightarrow> fold_ascii s = fold_ascii t"

section \<open>Requests and responses\<close>

text \<open>A request body is nil, or yields its bytes and then ends, or fails with an error.\<close>

record Request =
  rq_method :: string
  rq_proto :: string
  rq_urlScheme :: string
  rq_urlHost :: string
  rq_escapedPath :: string \<comment> \<open>\<^verbatim>\<open>URL.EscapedPath()\<close>\<close>
  rq_rawQuery :: string
  rq_host :: string
  rq_header :: hdr
  rq_body :: "(string \<times> string option) option"

record Response =
  rs_status :: string
  rs_statusCode :: int
  rs_proto :: string
  rs_header :: hdr
  rs_body :: string
  rs_contentLength :: int

section \<open>Errors\<close>

text \<open>An error and the errors it wraps, as \<^verbatim>\<open>errors.Is\<close> and \<^verbatim>\<open>errors.As\<close> walk them. \<open>ApiError\<close> is
  an error that implements \<^verbatim>\<open>smithy.APIError\<close>: its code and text; \<open>Wrapped\<close> is any other error that
  wraps one, such as those of \<^verbatim>\<open>fmt.Errorf\<close> with \<^verbatim>\<open>%w\<close>: the text before the wrapped one's.\<close>

datatype goerr =
    ErrText string
  | ErrNoBackend
  | ConnectError goerr
  | AttemptError goerr
  | FunctionError string string string
  | ApiError string string
  | Wrapped string goerr

fun chain :: "goerr \<Rightarrow> goerr list" where
  "chain (ConnectError e) = ConnectError e # chain e"
| "chain (AttemptError e) = AttemptError e # chain e"
| "chain (Wrapped p e) = Wrapped p e # chain e"
| "chain e = [e]"

text \<open>The text of an error; \<open>quote\<close> is what \<^verbatim>\<open>fmt\<close>'s \<open>%q\<close> prints for a string.\<close>

fun Error :: "(string \<Rightarrow> string) \<Rightarrow> goerr \<Rightarrow> string" where
  "Error quote (ErrText s) = s"
| "Error quote ErrNoBackend = ''no backend registered for service''"
| "Error quote (ConnectError e) = Error quote e"
| "Error quote (AttemptError e) = Error quote e"
| "Error quote (FunctionError kind errorType message) =
     ''function error ('' @ kind @ ''): errorType='' @ quote errorType @ '' errorMessage='' @ quote message"
| "Error quote (ApiError code s) = s"
| "Error quote (Wrapped p e) = p @ Error quote e"

definition is_connectError :: "goerr \<Rightarrow> bool" where
  "is_connectError e = (case e of ConnectError _ \<Rightarrow> True | _ \<Rightarrow> False)"

definition is_attemptError :: "goerr \<Rightarrow> bool" where
  "is_attemptError e = (case e of AttemptError _ \<Rightarrow> True | _ \<Rightarrow> False)"

definition is_functionError :: "goerr \<Rightarrow> bool" where
  "is_functionError e = (case e of FunctionError _ _ _ \<Rightarrow> True | _ \<Rightarrow> False)"

definition isConnectError :: "goerr \<Rightarrow> bool" where
  "isConnectError e \<longleftrightarrow> list_ex is_connectError (chain e)"

definition codeThrottled :: string where
  "codeThrottled = ''TooManyRequestsException''"

definition codeNotFound :: string where
  "codeNotFound = ''ResourceNotFoundException''"

definition codeAccessDenied :: string where
  "codeAccessDenied = ''AccessDeniedException''"

fun first_api_code :: "goerr list \<Rightarrow> string" where
  "first_api_code [] = []"
| "first_api_code (e # es) = (case e of ApiError code _ \<Rightarrow> code | _ \<Rightarrow> first_api_code es)"

definition apiErrorCode :: "goerr \<Rightarrow> string" where
  "apiErrorCode e = first_api_code (chain e)"

definition isThrottle :: "goerr \<Rightarrow> bool" where
  "isThrottle e \<longleftrightarrow> apiErrorCode e = codeThrottled"

definition functionDidNotRun :: "goerr \<Rightarrow> bool" where
  "functionDidNotRun e \<longleftrightarrow> apiErrorCode e \<in> {codeThrottled, codeNotFound, codeAccessDenied}"

definition classifyProxyError :: "(string \<Rightarrow> string) \<Rightarrow> goerr option \<Rightarrow> string" where
  "classifyProxyError quote err =
     (case err of
        None \<Rightarrow> ''other''
      | Some e \<Rightarrow>
          if ErrNoBackend \<in> set (chain e) then ''no-backend''
          else if list_ex is_functionError (chain e) then ''function-error''
          else if isThrottle e then ''throttled''
          else let s = Error quote e in
               if contains s ''context deadline exceeded'' \<or> contains s ''i/o timeout'' then ''timeout''
               else if contains s ''connection refused'' then ''connection-refused''
               else if contains s ''no such host'' then ''dns''
               else if contains s ''EOF'' then ''eof''
               else ''other'')"

section \<open>Forwarded headers\<close>

definition firstForwardedFor :: "string \<Rightarrow> string" where
  "firstForwardedFor xff =
     (if xff = [] then []
      else trim_space (if CHR '','' \<in> set xff then takeWhile (\<lambda>c. c \<noteq> CHR '','') xff else xff))"

section \<open>Lemmas\<close>

lemma ascii_lower_upper [simp]: "ascii_lower (ascii_upper c) = ascii_lower c"
  by (auto simp: ascii_lower_def ascii_upper_def less_eq_char_def)

lemma ascii_lower_idem [simp]: "ascii_lower (ascii_lower c) = ascii_lower c"
  by (auto simp: ascii_lower_def less_eq_char_def)

lemma lower_canonical_from [simp]: "map ascii_lower (canonical_from up k) = map ascii_lower k"
  by (induction k arbitrary: up) auto

lemma token_not_high: "token_char c \<Longrightarrow> c \<noteq> CHR 0xE2 \<and> c \<noteq> CHR 0xC5"
  by (auto simp: token_char_def less_eq_char_def)

lemma fold_ascii_tokens: "list_all token_char k \<Longrightarrow> fold_ascii k = map ascii_lower k"
  by (induction k rule: fold_ascii.induct) (auto dest: token_not_high)

text \<open>Two names with one canonical form differ in case only.\<close>

lemma canonical_EqualFold:
  assumes "CanonicalHeaderKey k = CanonicalHeaderKey n" and "list_all token_char n" and "list_all token_char (CanonicalHeaderKey n)"
  shows "EqualFold k n"
proof -
  from assms have k: "list_all token_char k"
    by (auto simp: CanonicalHeaderKey_def split: if_splits)
  with assms have "canonical_from True k = canonical_from True n"
    by (simp add: CanonicalHeaderKey_def)
  then have "map ascii_lower k = map ascii_lower n"
    by (metis lower_canonical_from)
  with k assms(2) show ?thesis by (simp add: EqualFold_def fold_ascii_tokens)
qed

lemma map_of_hd_Set [simp]: "map_of (hd_Set k v h) = (map_of h)(CanonicalHeaderKey k \<mapsto> [v])"
  by (simp add: hd_Set_def)

lemma map_of_hd_Del [simp]: "map_of (hd_Del k h) = (map_of h)(CanonicalHeaderKey k := None)"
  by (simp add: hd_Del_def)

lemma map_of_hd_Add [simp]:
  "map_of (hd_Add k v h) =
     (map_of h)(CanonicalHeaderKey k \<mapsto>
        (case map_of h (CanonicalHeaderKey k) of None \<Rightarrow> [] | Some vs \<Rightarrow> vs) @ [v])"
  by (simp add: hd_Add_def)

lemma chain_nonempty [simp]: "chain e \<noteq> []"
  by (cases e) auto

lemma isConnectError_simps [simp]:
  "isConnectError (ConnectError e)"
  "isConnectError (AttemptError e) = isConnectError e"
  "isConnectError (Wrapped p e) = isConnectError e"
  "\<not> isConnectError (ErrText s)"
  "\<not> isConnectError ErrNoBackend"
  "\<not> isConnectError (FunctionError a b c)"
  "\<not> isConnectError (ApiError a b)"
  by (simp_all add: isConnectError_def is_connectError_def)

text \<open>The classification is one of eight fixed reasons, so it bounds the label values of the error
  counter.\<close>

lemma classify_reasons:
  "classifyProxyError quote err \<in>
     {''no-backend'', ''function-error'', ''throttled'', ''timeout'', ''connection-refused'', ''dns'', ''eof'', ''other''}"
  by (simp add: classifyProxyError_def Let_def split: option.split)

end
