(* ===== verification/Json.thy ===== *)
theory Json
  imports Prelude
begin

text \<open>
  What the program uses of \<^verbatim>\<open>encoding/json\<close> when it encodes: strings with the escapes that
  \<^verbatim>\<open>json.Marshal\<close> writes, arrays and objects. A string is a list of bytes; \<^verbatim>\<open>json.Marshal\<close> reads it as
  UTF-8. The reader of a string literal, for the round trip, is that of RFC 8259; surrogate pairs
  are left out, since the encoder never writes one.
\<close>

section \<open>UTF-8\<close>

definition byte :: "nat \<Rightarrow> char" where
  "byte n = char_of n"

definition in_range :: "nat \<Rightarrow> nat \<Rightarrow> char \<Rightarrow> bool" where
  "in_range lo hi c \<longleftrightarrow> lo \<le> of_char c \<and> of_char c \<le> hi"

text \<open>The size of the rune at the head of a string, as \<^verbatim>\<open>utf8.DecodeRune\<close> finds it; 0 for bytes that
  begin no rune.\<close>

definition continues :: "char \<Rightarrow> bool" where
  "continues = in_range 0x80 0xBF"

definition second_range :: "nat \<Rightarrow> nat \<times> nat" where
  "second_range lead =
     (if lead = 0xE0 then (0xA0, 0xBF) else if lead = 0xED then (0x80, 0x9F)
      else if lead = 0xF0 then (0x90, 0xBF) else if lead = 0xF4 then (0x80, 0x8F) else (0x80, 0xBF))"

definition rune_size :: "string \<Rightarrow> nat" where
  "rune_size s =
     (case s of
        [] \<Rightarrow> 0
      | c # rest \<Rightarrow>
          let n = (if in_range 0x00 0x7F c then 1 else if in_range 0xC2 0xDF c then 2
                   else if in_range 0xE0 0xEF c then 3 else if in_range 0xF0 0xF4 c then 4 else 0);
              tail = take (n - 1) rest
          in if n = 0 \<or> length tail < n - 1 then 0
             else if n = 1 then 1
             else if (case second_range (of_char c) of (lo, hi) \<Rightarrow> in_range lo hi (hd tail)) \<and>
                     list_all continues (tl tail)
             then n else 0)"

fun valid_utf8 :: "string \<Rightarrow> bool" where
  "valid_utf8 [] = True"
| "valid_utf8 (c # cs) =
     (case rune_size (c # cs) of 0 \<Rightarrow> False | Suc n \<Rightarrow> valid_utf8 (drop n cs))"

section \<open>Strings\<close>

definition hex_digit :: "nat \<Rightarrow> char" where
  "hex_digit n = ''0123456789abcdef'' ! n"

definition hex_val :: "char \<Rightarrow> nat option" where
  "hex_val c =
     (if is_digit c then Some (digit_val c)
      else if CHR ''a'' \<le> c \<and> c \<le> CHR ''f'' then Some (of_char c - 87)
      else if CHR ''A'' \<le> c \<and> c \<le> CHR ''F'' then Some (of_char c - 55)
      else None)"

abbreviation backslash :: char where
  "backslash \<equiv> CHR 0x5C"

abbreviation quotation :: char where
  "quotation \<equiv> CHR 0x22"

text \<open>The characters written as they are, and the escapes of one letter.\<close>

definition html_safe :: "char \<Rightarrow> bool" where
  "html_safe c \<longleftrightarrow> in_range 0x20 0x7F c \<and> c \<notin> {quotation, backslash, CHR ''<'', CHR ''>'', CHR ''&''}"

definition letter_escapes :: "(char \<times> char) list" where
  "letter_escapes =
     [(backslash, backslash), (quotation, quotation), (CHR 0x08, CHR ''b''), (CHR 0x0C, CHR ''f''),
      (CHR 0x0A, CHR ''n''), (CHR 0x0D, CHR ''r''), (CHR 0x09, CHR ''t'')]"

definition escape_ascii :: "char \<Rightarrow> string" where
  "escape_ascii c =
     (if html_safe c then [c]
      else case map_of letter_escapes c of
             Some l \<Rightarrow> [backslash, l]
           | None \<Rightarrow> [backslash, CHR ''u'', CHR ''0'', CHR ''0'', hex_digit (of_char c div 16), hex_digit (of_char c mod 16)])"

text \<open>A rune; the line and the paragraph separator are escaped too.\<close>

definition escape_rune :: "string \<Rightarrow> string" where
  "escape_rune r =
     (if length r = 1 then escape_ascii (hd r)
      else if r = [CHR 0xE2, CHR 0x80, CHR 0xA8] then backslash # ''u2028''
      else if r = [CHR 0xE2, CHR 0x80, CHR 0xA9] then backslash # ''u2029''
      else r)"

text \<open>A byte that begins no rune is written as the replacement character.\<close>

fun json_escape :: "string \<Rightarrow> string" where
  "json_escape [] = []"
| "json_escape (c # cs) =
     (case rune_size (c # cs) of
        0 \<Rightarrow> backslash # ''ufffd'' @ json_escape cs
      | Suc n \<Rightarrow> escape_rune (c # take n cs) @ json_escape (drop n cs))"

definition json_string :: "string \<Rightarrow> string" where
  "json_string s = quotation # json_escape s @ [quotation]"

definition json_bool :: "bool \<Rightarrow> string" where
  "json_bool b = (if b then ''true'' else ''false'')"

definition json_array :: "string list \<Rightarrow> string" where
  "json_array vs = ''['' @ join '','' vs @ '']''"

definition json_object :: "(string \<times> string) list \<Rightarrow> string" where
  "json_object kvs = ''{'' @ join '','' (map (\<lambda>(k, v). json_string k @ '':'' @ v) kvs) @ ''}''"

text \<open>A map of strings, in the order of its keys.\<close>

definition json_map :: "(string, string) gomap \<Rightarrow> string" where
  "json_map m = json_object (map (\<lambda>(k, v). (k, json_string v)) (sort_key fst m))"

section \<open>Reading a string literal\<close>

definition encode_code :: "nat \<Rightarrow> string" where
  "encode_code n =
     (if n < 0x80 then [byte n]
      else if n < 0x800 then [byte (0xC0 + n div 64), byte (0x80 + n mod 64)]
      else [byte (0xE0 + n div 4096), byte (0x80 + n div 64 mod 64), byte (0x80 + n mod 64)])"

definition letter_value :: "char \<Rightarrow> char option" where
  "letter_value l = (if l = CHR 0x2F then Some l else map_option fst (find (\<lambda>(c, l'). l' = l) letter_escapes))"

text \<open>What stands between the quotation marks, or \<open>None\<close> when that is no string literal.\<close>

fun json_unescape :: "string \<Rightarrow> string option" where
  "json_unescape [] = Some []"
| "json_unescape (c # cs) =
     (if c = backslash then
        (case cs of
           [] \<Rightarrow> None
         | l # rest \<Rightarrow>
             if l = CHR ''u'' then
               (case rest of
                  p # q # r # s # rest' \<Rightarrow>
                    (case (hex_val p, hex_val q, hex_val r, hex_val s) of
                       (Some i, Some j, Some k, Some m) \<Rightarrow>
                         map_option (\<lambda>u. encode_code (((i * 16 + j) * 16 + k) * 16 + m) @ u) (json_unescape rest')
                     | _ \<Rightarrow> None)
                | _ \<Rightarrow> None)
             else (case letter_value l of None \<Rightarrow> None | Some d \<Rightarrow> map_option ((#) d) (json_unescape rest)))
      else if c = quotation \<or> of_char c < (0x20 :: nat) then None
      else map_option ((#) c) (json_unescape cs))"

section \<open>Lemmas\<close>

lemma append_fun: "append [] = (\<lambda>u. u)" "append (a # r) = (\<lambda>u. a # r @ u)"
  by auto

lemma rune_size_ascii [simp]: "in_range 0x00 0x7F c \<Longrightarrow> rune_size (c # cs) = 1"
  by (simp add: rune_size_def)

lemma json_escape_ascii [simp]: "in_range 0x00 0x7F c \<Longrightarrow> json_escape (c # cs) = escape_ascii c @ json_escape cs"
  by (simp add: escape_rune_def)

lemma html_safe_ascii: "html_safe c \<Longrightarrow> in_range 0x00 0x7F c"
  by (simp add: html_safe_def in_range_def)

lemma json_escape_safe: "list_all html_safe s \<Longrightarrow> json_escape s = s"
  by (induction s) (simp_all add: html_safe_ascii escape_rune_def escape_ascii_def)

lemma hex_val_digit: "n < 16 \<Longrightarrow> hex_val (hex_digit n) = Some n"
proof -
  have "\<forall>n\<in>set [0..<16]. hex_val (hex_digit n) = Some n" by code_simp
  then show "n < 16 \<Longrightarrow> hex_val (hex_digit n) = Some n" by simp
qed

lemma letter_value_escape: "map_of letter_escapes c = Some l \<Longrightarrow> letter_value l = Some c \<and> l \<noteq> CHR ''u''"
  by (auto simp: letter_escapes_def letter_value_def split: if_splits)

lemma unescape_ascii:
  assumes "in_range 0x00 0x7F c"
  shows "json_unescape (escape_ascii c @ t) = map_option (\<lambda>u. c # u) (json_unescape t)"
proof (cases "html_safe c")
  case True
  then show ?thesis by (auto simp: escape_ascii_def html_safe_def in_range_def)
next
  case unsafe: False
  show ?thesis
  proof (cases "map_of letter_escapes c")
    case (Some l)
    with unsafe letter_value_escape [OF this] show ?thesis by (simp add: escape_ascii_def)
  next
    case None
    have "of_char c div 16 < (16 :: nat)" using assms by (simp add: in_range_def)
    moreover have "hex_val (CHR ''0'') = Some 0" by code_simp
    moreover have "encode_code (of_char c) = [c]" using assms by (simp add: encode_code_def byte_def in_range_def)
    ultimately show ?thesis using unsafe None by (simp add: escape_ascii_def hex_val_digit append_fun)
  qed
qed

text \<open>A rune of several bytes has none below 0x80.\<close>

definition high :: "char \<Rightarrow> bool" where
  "high c \<longleftrightarrow> \<not> in_range 0x00 0x7F c"

lemma unescape_high: "list_all high r \<Longrightarrow> json_unescape (r @ t) = map_option (\<lambda>u. r @ u) (json_unescape t)"
  by (induction r) (auto simp: high_def in_range_def option.map_comp comp_def option.map_ident append_fun)

lemma rune_shape:
  assumes "rune_size (c # cs) = Suc n"
  shows "n = 0 \<and> in_range 0x00 0x7F c \<or> 0 < n \<and> list_all high (c # take n cs)"
proof (cases "in_range 0x00 0x7F c")
  case False
  let ?tail = "take n cs"
  have "in_range lo hi d \<Longrightarrow> 0x80 \<le> lo \<Longrightarrow> high d" for lo hi d by (simp add: in_range_def high_def)
  moreover have "0x80 \<le> fst (second_range k)" for k by (simp add: second_range_def)
  moreover have "0 < n" "cs \<noteq> []" "list_all continues (tl ?tail)"
    "in_range (fst (second_range (of_char c))) (snd (second_range (of_char c))) (hd ?tail)"
    using assms False by (auto simp: rune_size_def Let_def case_prod_unfold split: if_splits)
  ultimately show ?thesis using False
    by (cases ?tail) (auto simp: high_def [of c] continues_def list_all_iff)
qed (use assms in simp)

lemma rune_size_tail: "rune_size (c # cs) = Suc n \<Longrightarrow> n \<noteq> 0 \<Longrightarrow> take n cs \<noteq> []"
  by (auto simp: rune_size_def Let_def split: if_splits)

lemma unescape_separator:
  "json_unescape (backslash # ''u2028'' @ t) = map_option (\<lambda>u. [CHR 0xE2, CHR 0x80, CHR 0xA8] @ u) (json_unescape t)"
  "json_unescape (backslash # ''u2029'' @ t) = map_option (\<lambda>u. [CHR 0xE2, CHR 0x80, CHR 0xA9] @ u) (json_unescape t)"
proof -
  have hex: "hex_val (CHR ''2'') = Some 2" "hex_val (CHR ''0'') = Some 0" "hex_val (CHR ''8'') = Some 8" "hex_val (CHR ''9'') = Some 9"
    by code_simp+
  have codes: "encode_code 8232 = [CHR 0xE2, CHR 0x80, CHR 0xA8]" "encode_code 8233 = [CHR 0xE2, CHR 0x80, CHR 0xA9]"
    by (simp_all add: encode_code_def byte_def char_of_eq_iff)
  show "json_unescape (backslash # ''u2028'' @ t) = map_option (\<lambda>u. [CHR 0xE2, CHR 0x80, CHR 0xA8] @ u) (json_unescape t)"
    "json_unescape (backslash # ''u2029'' @ t) = map_option (\<lambda>u. [CHR 0xE2, CHR 0x80, CHR 0xA9] @ u) (json_unescape t)"
    by (simp_all add: hex codes append_fun)
qed

lemma unescape_rune:
  assumes "list_all high r" "length r \<noteq> 1"
  shows "json_unescape (escape_rune r @ t) = map_option (\<lambda>u. r @ u) (json_unescape t)"
  using assms unescape_high [of r t] unescape_separator [of t] unfolding escape_rune_def
  by (simp del: json_unescape.simps add: append_fun)

text \<open>The round trip: what is written for a string in UTF-8 is a literal that reads as the string.\<close>

lemma json_unescape_escape: "valid_utf8 s \<Longrightarrow> json_unescape (json_escape s) = Some s"
proof (induction s rule: valid_utf8.induct)
  case (2 c cs)
  then obtain n where n: "rune_size (c # cs) = Suc n" and IH: "json_unescape (json_escape (drop n cs)) = Some (drop n cs)"
    by (auto split: nat.splits)
  show ?case
  proof (cases "n = 0")
    case True
    with n rune_shape [OF n] IH show ?thesis by (simp add: escape_rune_def unescape_ascii)
  next
    case False
    with rune_shape [OF n] have "list_all high (c # take n cs)" by blast
    moreover have "take n cs \<noteq> []" using n False rune_size_tail by blast
    ultimately have "json_unescape (escape_rune (c # take n cs) @ json_escape (drop n cs)) = Some ((c # take n cs) @ drop n cs)"
      using unescape_rune [of "c # take n cs"] IH by simp
    with n show ?thesis by simp
  qed
qed simp

lemma valid_utf8_safe: "list_all html_safe s \<Longrightarrow> valid_utf8 s"
  by (induction s) (simp_all add: html_safe_ascii)

lemma escape_rune_length: "r \<noteq> [] \<Longrightarrow> length (escape_rune r) \<le> 6 * length r"
  by (cases r) (auto simp: escape_rune_def escape_ascii_def split: option.split)

lemma json_escape_length: "length (json_escape s) \<le> 6 * length s"
proof (induction s rule: json_escape.induct)
  case (2 c cs)
  show ?case
  proof (cases "rune_size (c # cs)")
    case 0
    with 2(1) [OF 0] show ?thesis by simp
  next
    case (Suc n)
    from 2(2) [OF Suc] have "length (json_escape (drop n cs)) \<le> 6 * length (drop n cs)" .
    moreover have "length (escape_rune (c # take n cs)) \<le> 6 * length (c # take n cs)" by (rule escape_rune_length) simp
    moreover have "length (take n cs) + length (drop n cs) = length cs" by simp
    ultimately show ?thesis unfolding json_escape.simps Suc by simp
  qed
qed simp

lemma json_object_end:
  assumes "kvs \<noteq> []"
  shows "\<exists>before. json_object (kvs @ [(k1, v1), (k2, v2)]) =
    before @ json_string k1 @ '':'' @ v1 @ '','' @ json_string k2 @ '':'' @ v2 @ ''}''"
proof -
  let ?member = "\<lambda>(k, v). json_string k @ '':'' @ v"
  have "join '','' (map ?member (kvs @ [(k1, v1), (k2, v2)])) =
      (join '','' (map ?member kvs) @ '','') @ ?member (k1, v1) @ '','' @ ?member (k2, v2)"
    using assms join_snoc [of "map ?member kvs" "'',''" "?member (k1, v1)"]
      join_snoc [of "map ?member (kvs @ [(k1, v1)])" "'',''" "?member (k2, v2)"] by simp
  then show ?thesis
    by (intro exI [of _ "''{'' @ join '','' (map ?member kvs) @ '',''"]) (simp add: json_object_def)
qed

lemma json_escape_quotations: "list_all (\<lambda>c. c = quotation) s \<Longrightarrow> length (json_escape s) = 2 * length s"
  by (induction s) (simp_all add: in_range_def escape_rune_def escape_ascii_def html_safe_def letter_escapes_def)

end
