(* ===== verification/Invoker.thy ===== *)
theory Invoker
  imports Http Json
begin

text \<open>
  The function invoker (\<^verbatim>\<open>proxy/invoker.go\<close>): a request as one synchronous invocation of a Lambda
  function, with the request translated into an event and the returned value into a response, and
  the parts of \<^verbatim>\<open>encoding/base64\<close>, \<^verbatim>\<open>net/url\<close> and \<^verbatim>\<open>net/http\<close> it uses. The event is
  encoded as \<^verbatim>\<open>json.Marshal\<close> does; the JSON decoders, the media type parser and the Lambda API are
  arguments. Names of request headers are ASCII, as \<^verbatim>\<open>net/http\<close>'s
  server ensures.
\<close>

section \<open>Base64\<close>

definition b64_alphabet :: string where
  "b64_alphabet = ''ABCDEFGHIJKLMNOPQRSTUVWXYZabcdefghijklmnopqrstuvwxyz0123456789+/''"

definition b64_char :: "nat \<Rightarrow> char" where
  "b64_char n = b64_alphabet ! n"

definition b64_val :: "char \<Rightarrow> nat option" where
  "b64_val c = find (\<lambda>n. b64_char n = c) [0..<64]"

text \<open>\<^verbatim>\<open>StdEncoding.EncodeToString\<close>: three bytes to four characters, the rest padded.\<close>

fun b64_encode :: "string \<Rightarrow> string" where
  "b64_encode [] = []"
| "b64_encode [a] =
     [b64_char (of_char a div 4), b64_char (of_char a mod 4 * 16), CHR ''='', CHR ''='']"
| "b64_encode [a, b] =
     [b64_char (of_char a div 4), b64_char (of_char a mod 4 * 16 + of_char b div 16),
      b64_char (of_char b mod 16 * 4), CHR ''='']"
| "b64_encode (a # b # c # cs) =
     b64_char (of_char a div 4) # b64_char (of_char a mod 4 * 16 + of_char b div 16)
     # b64_char (of_char b mod 16 * 4 + of_char c div 64) # b64_char (of_char c mod 64) # b64_encode cs"

text \<open>\<^verbatim>\<open>DecodeString\<close> skips line ends; padding is accepted only at the end of the last quantum, whose
  spare bits are ignored.\<close>

fun b64_quanta :: "string \<Rightarrow> string option" where
  "b64_quanta [] = Some []"
| "b64_quanta (p # q # r # s # rest) =
     (case (b64_val p, b64_val q) of
        (Some i, Some j) \<Rightarrow>
          (case b64_val r of
             None \<Rightarrow>
               if r = CHR ''='' \<and> s = CHR ''='' \<and> rest = [] then Some [byte (i * 4 + j div 16)] else None
           | Some k \<Rightarrow>
               (case b64_val s of
                  None \<Rightarrow>
                    if s = CHR ''='' \<and> rest = []
                    then Some [byte (i * 4 + j div 16), byte (j mod 16 * 16 + k div 4)] else None
                | Some l \<Rightarrow>
                    map_option
                      (\<lambda>bs. byte (i * 4 + j div 16) # byte (j mod 16 * 16 + k div 4) # byte (k mod 4 * 64 + l) # bs)
                      (b64_quanta rest)))
      | _ \<Rightarrow> None)"
| "b64_quanta s = None"

definition b64_decode :: "string \<Rightarrow> string option" where
  "b64_decode s = b64_quanta (filter (\<lambda>c. c \<noteq> CHR 0x0A \<and> c \<noteq> CHR 0x0D) s)"

section \<open>Query strings\<close>

text \<open>\<^verbatim>\<open>url.QueryUnescape\<close>.\<close>

fun QueryUnescape :: "string \<Rightarrow> string option" where
  "QueryUnescape [] = Some []"
| "QueryUnescape (c # cs) =
     (if c = CHR ''%'' then
        (case cs of
           h # l # rest \<Rightarrow>
             (case (hex_val h, hex_val l) of
                (Some i, Some j) \<Rightarrow> map_option ((#) (byte (i * 16 + j))) (QueryUnescape rest)
              | _ \<Rightarrow> None)
         | _ \<Rightarrow> None)
      else map_option ((#) (if c = CHR ''+'' then CHR '' '' else c)) (QueryUnescape cs))"

text \<open>\<^verbatim>\<open>URL.Query\<close>: a field with a semicolon or a malformed escape is dropped.\<close>

definition query_field :: "string \<Rightarrow> (string \<times> string) option" where
  "query_field f =
     (if f = [] \<or> CHR '';'' \<in> set f then None
      else case (QueryUnescape (takeWhile (\<lambda>c. c \<noteq> CHR ''='') f),
                 QueryUnescape (drop 1 (dropWhile (\<lambda>c. c \<noteq> CHR ''='') f))) of
             (Some k, Some v) \<Rightarrow> Some (k, v)
           | _ \<Rightarrow> None)"

definition URL_Query :: "string \<Rightarrow> (string, string list) gomap" where
  "URL_Query raw =
     fold (\<lambda>(k, v) q. m_put k ((case map_of q k of None \<Rightarrow> [] | Some vs \<Rightarrow> vs) @ [v]) q)
       (List.map_filter query_field (split_on (CHR ''&'') raw)) m_empty"

section \<open>Responses\<close>

text \<open>\<^verbatim>\<open>http.StatusText\<close>.\<close>

definition status_texts :: "(int, string) gomap" where
  "status_texts =
     [(100, ''Continue''), (101, ''Switching Protocols''), (102, ''Processing''),
      (103, ''Early Hints''), (200, ''OK''), (201, ''Created''), (202, ''Accepted''),
      (203, ''Non-Authoritative Information''), (204, ''No Content''), (205, ''Reset Content''),
      (206, ''Partial Content''), (207, ''Multi-Status''), (208, ''Already Reported''),
      (226, ''IM Used''), (300, ''Multiple Choices''), (301, ''Moved Permanently''), (302, ''Found''),
      (303, ''See Other''), (304, ''Not Modified''), (305, ''Use Proxy''),
      (307, ''Temporary Redirect''), (308, ''Permanent Redirect''), (400, ''Bad Request''),
      (401, ''Unauthorized''), (402, ''Payment Required''), (403, ''Forbidden''),
      (404, ''Not Found''), (405, ''Method Not Allowed''), (406, ''Not Acceptable''),
      (407, ''Proxy Authentication Required''), (408, ''Request Timeout''), (409, ''Conflict''),
      (410, ''Gone''), (411, ''Length Required''), (412, ''Precondition Failed''),
      (413, ''Request Entity Too Large''), (414, ''Request URI Too Long''),
      (415, ''Unsupported Media Type''), (416, ''Requested Range Not Satisfiable''),
      (417, ''Expectation Failed''), (418, ''I'' @ [CHR 0x27] @ ''m a teapot''),
      (421, ''Misdirected Request''), (422, ''Unprocessable Entity''), (423, ''Locked''),
      (424, ''Failed Dependency''), (425, ''Too Early''), (426, ''Upgrade Required''),
      (428, ''Precondition Required''), (429, ''Too Many Requests''),
      (431, ''Request Header Fields Too Large''), (451, ''Unavailable For Legal Reasons''),
      (500, ''Internal Server Error''), (501, ''Not Implemented''), (502, ''Bad Gateway''),
      (503, ''Service Unavailable''), (504, ''Gateway Timeout''),
      (505, ''HTTP Version Not Supported''), (506, ''Variant Also Negotiates''),
      (507, ''Insufficient Storage''), (508, ''Loop Detected''), (510, ''Not Extended''),
      (511, ''Network Authentication Required'')]"

definition StatusText :: "int \<Rightarrow> string" where
  "StatusText code = m_str status_texts code"

definition newResponse :: "int \<Rightarrow> string \<Rightarrow> Response" where
  "newResponse code body =
     \<lparr>rs_status = show_int code @ '' '' @ StatusText code, rs_statusCode = code, rs_proto = ''HTTP/1.1'',
      rs_header = [(''Content-Length'', [show_nat (length body)])], rs_body = body,
      rs_contentLength = int (length body)\<rparr>"

definition set_header :: "string \<Rightarrow> string \<Rightarrow> Response \<Rightarrow> Response" where
  "set_header k v resp = resp\<lparr>rs_header := hd_Set k v (rs_header resp)\<rparr>"

definition textResponse :: "int \<Rightarrow> string \<Rightarrow> Response" where
  "textResponse code msg = set_header ''Content-Type'' ''text/plain; charset=utf-8'' (newResponse code msg)"

section \<open>Events\<close>

record eventHTTP =
  eh_method :: string
  eh_path :: string
  eh_protocol :: string
  eh_sourceIP :: string
  eh_userAgent :: string

record eventContext =
  ec_domainName :: string
  ec_stage :: string
  ec_http :: eventHTTP

record functionEvent =
  ev_version :: string
  ev_routeKey :: string
  ev_rawPath :: string
  ev_rawQueryString :: string
  ev_cookies :: "string list"
  ev_headers :: "(string, string) gomap"
  ev_queryStringParameters :: "(string, string) gomap"
  ev_requestContext :: eventContext
  ev_body :: string
  ev_isBase64Encoded :: bool

record functionResult =
  fr_statusCode :: int
  fr_headers :: "(string, string) gomap"
  fr_cookies :: "string list"
  fr_body :: string
  fr_isBase64Encoded :: bool

text \<open>\<^verbatim>\<open>json.Marshal\<close> of an event: the fields in their order under the names of their tags, the cookies and
  the query parameters left out when there are none. A value of these types can always be encoded.\<close>

definition event_fields :: "functionEvent \<Rightarrow> (string \<times> string) list" where
  "event_fields ev =
     (let ctx = ev_requestContext ev; http = ec_http ctx in
      [(''version'', json_string (ev_version ev)), (''routeKey'', json_string (ev_routeKey ev)),
       (''rawPath'', json_string (ev_rawPath ev)), (''rawQueryString'', json_string (ev_rawQueryString ev))] @
      (if ev_cookies ev = [] then [] else [(''cookies'', json_array (map json_string (ev_cookies ev)))]) @
      [(''headers'', json_map (ev_headers ev))] @
      (if ev_queryStringParameters ev = m_empty then []
       else [(''queryStringParameters'', json_map (ev_queryStringParameters ev))]) @
      [(''requestContext'', json_object
          [(''domainName'', json_string (ec_domainName ctx)), (''stage'', json_string (ec_stage ctx)),
           (''http'', json_object
              [(''method'', json_string (eh_method http)), (''path'', json_string (eh_path http)),
               (''protocol'', json_string (eh_protocol http)), (''sourceIp'', json_string (eh_sourceIP http)),
               (''userAgent'', json_string (eh_userAgent http))])])])"

definition marshalEvent :: "functionEvent \<Rightarrow> string + string" where
  "marshalEvent ev =
     Inr (json_object (event_fields ev @
       [(''body'', json_string (ev_body ev)), (''isBase64Encoded'', json_bool (ev_isBase64Encoded ev))]))"

text \<open>The decoders of the standard library: \<^verbatim>\<open>mime.ParseMediaType\<close> (the media type, \<open>None\<close> on an error) and
  \<^verbatim>\<open>json.Unmarshal\<close> into a map of raw messages, into a result, and into the type and message of an error
  document.\<close>

record codecs =
  parseMediaType :: "string \<Rightarrow> string option"
  unmarshalMap :: "string \<Rightarrow> (string, string) gomap option"
  unmarshalResult :: "string \<Rightarrow> string + functionResult"
  unmarshalError :: "string \<Rightarrow> string \<times> string"

definition isTextual :: "codecs \<Rightarrow> string \<Rightarrow> bool" where
  "isTextual cd contentType =
     (case parseMediaType cd contentType of
        None \<Rightarrow> False
      | Some mt \<Rightarrow>
          has_prefix mt ''text/'' \<or> mt = ''application/json'' \<or> mt = ''application/x-www-form-urlencoded'' \<or>
          mt = ''application/xml'' \<or> has_suffix mt ''+json'' \<or> has_suffix mt ''+xml'')"

definition cookie_values :: "string list \<Rightarrow> string list" where
  "cookie_values vs = filter (\<lambda>c. c \<noteq> []) (map trim_space (concat (map (split_on (CHR '';'')) vs)))"

text \<open>One header of the request, in the order the map is ranged over.\<close>

definition event_header ::
  "string \<times> string list \<Rightarrow> (string, string) gomap \<times> string list \<Rightarrow> (string, string) gomap \<times> string list" where
  "event_header nvs acc =
     (case (nvs, acc) of ((name, vs), (hs, cookies)) \<Rightarrow>
        if EqualFold name ''Cookie'' then (hs, cookies @ cookie_values vs)
        else let v = join '','' vs in
             if v \<noteq> [] then (m_put (to_lower name) v hs, cookies) else (hs, cookies))"

definition newFunctionEvent :: "codecs \<Rightarrow> Request \<Rightarrow> string \<Rightarrow> functionEvent" where
  "newFunctionEvent cd req body =
     (case fold event_header (rq_header req) (m_empty, []) of
        (hs, cookies) \<Rightarrow>
          let path = rq_escapedPath req;
              ev = \<lparr>ev_version = ''2.0'', ev_routeKey = ''$default'', ev_rawPath = path,
                    ev_rawQueryString = rq_rawQuery req, ev_cookies = cookies,
                    ev_headers = m_put ''host'' (rq_host req) hs,
                    ev_queryStringParameters = map (\<lambda>(k, vs). (k, join '','' vs)) (URL_Query (rq_rawQuery req)),
                    ev_requestContext =
                      \<lparr>ec_domainName = rq_host req, ec_stage = ''$default'',
                       ec_http = \<lparr>eh_method = rq_method req, eh_path = path, eh_protocol = rq_proto req,
                                  eh_sourceIP = firstForwardedFor (hd_Get (rq_header req) ''X-Forwarded-For''),
                                  eh_userAgent = hd_Get (rq_header req) ''User-Agent''\<rparr>\<rparr>,
                    ev_body = [], ev_isBase64Encoded = False\<rparr>
          in if length body = 0 then ev
             else if isTextual cd (hd_Get (rq_header req) ''Content-Type'') then ev\<lparr>ev_body := body\<rparr>
             else ev\<lparr>ev_body := b64_encode body, ev_isBase64Encoded := True\<rparr>)"

section \<open>Invoking\<close>

definition maxFunctionBody :: nat where
  "maxFunctionBody = 4 * 2 ^ 20"

text \<open>The body read up to one byte more than the limit; the flag says that it was over it.\<close>

definition readBody :: "Request \<Rightarrow> goerr + string \<times> bool" where
  "readBody req =
     (case rq_body req of
        None \<Rightarrow> Inr ([], False)
      | Some (content, fails) \<Rightarrow>
          let body = take (maxFunctionBody + 1) content in
          (case (if length content < maxFunctionBody + 1 then fails else None) of
             Some err \<Rightarrow> Inl (Wrapped ''read request body: '' (ErrText err))
           | None \<Rightarrow> if length body > maxFunctionBody then Inr ([], True) else Inr (body, False)))"

definition result_header :: "string \<times> string \<Rightarrow> Response \<Rightarrow> Response" where
  "result_header nv resp =
     (case nv of (name, v) \<Rightarrow>
        if EqualFold name ''Content-Length'' \<or> EqualFold name ''Transfer-Encoding'' then resp
        else set_header name v resp)"

definition add_cookie :: "string \<Rightarrow> Response \<Rightarrow> Response" where
  "add_cookie c resp = resp\<lparr>rs_header := hd_Add ''Set-Cookie'' c (rs_header resp)\<rparr>"

text \<open>The text of a decoding error of base64 is left out.\<close>

definition functionResponse :: "codecs \<Rightarrow> string \<Rightarrow> goerr + Response" where
  "functionResponse cd payload =
     (let structured = (case unmarshalMap cd payload of None \<Rightarrow> False | Some probe \<Rightarrow> map_of probe ''statusCode'' \<noteq> None) in
      if \<not> structured then Inr (set_header ''Content-Type'' ''application/json'' (newResponse 200 payload))
      else case unmarshalResult cd payload of
        Inl err \<Rightarrow> Inl (Wrapped ''decode function result: '' (ErrText err))
      | Inr res \<Rightarrow>
          if fr_statusCode res < 100 \<or> fr_statusCode res > 999
          then Inl (ErrText (''function returned invalid statusCode '' @ show_int (fr_statusCode res)))
          else case (if fr_isBase64Encoded res then b64_decode (fr_body res) else Some (fr_body res)) of
                 None \<Rightarrow> Inl (Wrapped ''decode function result body: '' (ErrText ''illegal base64 data''))
               | Some body \<Rightarrow>
                   Inr (fold add_cookie (fr_cookies res)
                          (fold result_header (fr_headers res) (newResponse (fr_statusCode res) body))))"

definition newFunctionError :: "codecs \<Rightarrow> string \<Rightarrow> string \<Rightarrow> goerr" where
  "newFunctionError cd kind payload =
     (case unmarshalError cd payload of (errorType, message) \<Rightarrow> FunctionError kind errorType message)"

record InvokeInput =
  ii_functionName :: string
  ii_invocationType :: string
  ii_payload :: string
  ii_qualifier :: "string option"

record InvokeOutput =
  io_functionError :: "string option"
  io_payload :: string

definition invoke_input :: "FunctionInvoker \<Rightarrow> string \<Rightarrow> InvokeInput" where
  "invoke_input f payload =
     \<lparr>ii_functionName = fi_arn f, ii_invocationType = ''RequestResponse'', ii_payload = payload,
      ii_qualifier = (if fi_qualifier f \<noteq> [] then Some (fi_qualifier f) else None)\<rparr>"

text \<open>\<open>api\<close> is the client's \<^verbatim>\<open>Invoke\<close>. The calls made of it are returned with the reply.\<close>

definition invoker_RoundTrip ::
  "codecs \<Rightarrow> (InvokeInput \<Rightarrow> goerr + InvokeOutput) \<Rightarrow> FunctionInvoker \<Rightarrow> Request
     \<Rightarrow> InvokeInput list \<times> (goerr + Response)" where
  "invoker_RoundTrip cd api f req =
     (case readBody req of
        Inl err \<Rightarrow> ([], Inl err)
      | Inr (body, tooLarge) \<Rightarrow>
          if tooLarge
          then ([], Inr (textResponse 413
                 (''request body exceeds the '' @ show_nat maxFunctionBody @ '' byte limit of a function backend'' @ [CHR 0x0A])))
          else case marshalEvent (newFunctionEvent cd req body) of
            Inl err \<Rightarrow> ([], Inl (Wrapped ''encode function event: '' (ErrText err)))
          | Inr payload \<Rightarrow>
              let inp = invoke_input f payload in
              ([inp],
               case api inp of
                 Inl err \<Rightarrow> if functionDidNotRun err then Inl (ConnectError err) else Inl err
               | Inr out \<Rightarrow>
                   (case io_functionError out of
                      Some kind \<Rightarrow> Inl (newFunctionError cd kind (io_payload out))
                    | None \<Rightarrow> functionResponse cd (io_payload out))))"

section \<open>Lemmas: base64\<close>

lemma b64_alphabet_distinct: "length b64_alphabet = 64" "distinct b64_alphabet"
  by (simp_all add: b64_alphabet_def)

lemma b64_val_char: "n < 64 \<Longrightarrow> b64_val (b64_char n) = Some n"
  by (auto simp: b64_val_def b64_char_def find_Some_iff b64_alphabet_distinct nth_eq_iff_index_eq)

lemma b64_alphabet_plain: "CHR 0x0A \<notin> set b64_alphabet" "CHR 0x0D \<notin> set b64_alphabet" "CHR ''='' \<notin> set b64_alphabet"
  by (simp_all add: b64_alphabet_def)

lemma b64_char_mem: "n < 64 \<Longrightarrow> b64_char n \<in> set b64_alphabet"
  by (simp add: b64_char_def b64_alphabet_distinct)

lemma b64_char_plain: "n < 64 \<Longrightarrow> b64_char n \<noteq> CHR 0x0A" "n < 64 \<Longrightarrow> b64_char n \<noteq> CHR 0x0D"
  using b64_char_mem b64_alphabet_plain by metis+

lemma b64_val_pad: "b64_val (CHR ''='') = None"
  by (auto simp: b64_val_def find_None_iff) (metis b64_char_mem b64_alphabet_plain(3))

lemma of_char_byte: "(of_char c :: nat) < 256"
  by (metis nat_of_char_less_256)

lemma byte_of_char [simp]: "byte (of_char c) = c"
  by (simp add: byte_def)

text \<open>The six-bit digits of a byte stream, and the bytes back from them.\<close>

lemma sextets:
  fixes a b c :: nat
  assumes "a < 256" "b < 256" "c < 256"
  shows "a div 4 < 64" "a mod 4 * 16 < 64" "a mod 4 * 16 + b div 16 < 64" "b mod 16 * 4 < 64"
    "b mod 16 * 4 + c div 64 < 64" "c mod 64 < 64"
proof -
  from assms have "a div 4 < 64" "b div 16 < 16" "c div 64 < 4" by simp_all
  moreover have "a mod 4 < 4" "b mod 16 < 16" "c mod 64 < 64" by simp_all
  ultimately show "a div 4 < 64" "a mod 4 * 16 < 64" "a mod 4 * 16 + b div 16 < 64" "b mod 16 * 4 < 64"
    "b mod 16 * 4 + c div 64 < 64" "c mod 64 < 64" by linarith+
qed

lemma sextet_split:
  fixes x y :: nat
  assumes "y < n"
  shows "(x * n + y) div n = x" "(x * n + y) mod n = y"
  using assms by simp_all

lemma octets:
  fixes a b c :: nat
  assumes "a < 256" "b < 256" "c < 256"
  shows "a div 4 * 4 + a mod 4 * 16 div 16 = a"
    "a div 4 * 4 + (a mod 4 * 16 + b div 16) div 16 = a"
    "(a mod 4 * 16 + b div 16) mod 16 * 16 + b mod 16 * 4 div 4 = b"
    "(a mod 4 * 16 + b div 16) mod 16 * 16 + (b mod 16 * 4 + c div 64) div 4 = b"
    "(b mod 16 * 4 + c div 64) mod 4 * 64 + c mod 64 = c"
proof -
  from assms have less: "b div 16 < 16" "c div 64 < 4" by simp_all
  note split = mod_less [OF less(1)] mod_less [OF less(2)] sextet_split [OF less(1)] sextet_split [OF less(2)]
  show "a div 4 * 4 + a mod 4 * 16 div 16 = a"
    "a div 4 * 4 + (a mod 4 * 16 + b div 16) div 16 = a"
    "(a mod 4 * 16 + b div 16) mod 16 * 16 + b mod 16 * 4 div 4 = b"
    "(a mod 4 * 16 + b div 16) mod 16 * 16 + (b mod 16 * 4 + c div 64) div 4 = b"
    "(b mod 16 * 4 + c div 64) mod 4 * 64 + c mod 64 = c"
    by (simp_all add: split)
qed

lemmas char_sextets = sextets [OF of_char_byte of_char_byte of_char_byte]
lemmas char_octets = octets [OF of_char_byte of_char_byte of_char_byte]

lemma b64_encode_plain: "c \<in> set (b64_encode bs) \<Longrightarrow> c \<noteq> CHR 0x0A \<and> c \<noteq> CHR 0x0D"
  by (induction bs rule: b64_encode.induct) (auto simp only: b64_encode.simps list.set b64_char_plain char_sextets insert_iff empty_iff char.inject)

lemma b64_quanta_encode: "b64_quanta (b64_encode bs) = Some bs"
  by (induction bs rule: b64_encode.induct)
    (simp_all only: b64_encode.simps b64_quanta.simps b64_val_char b64_val_pad char_sextets char_octets
      prod.case option.case byte_of_char simp_thms if_True option.map)

text \<open>Decoding what was encoded gives it back.\<close>

lemma b64_decode_encode: "b64_decode (b64_encode bs) = Some bs"
proof -
  have "filter (\<lambda>c. c \<noteq> CHR 0x0A \<and> c \<noteq> CHR 0x0D) (b64_encode bs) = b64_encode bs"
    using b64_encode_plain [of _ bs] by (auto simp: filter_id_conv)
  then show ?thesis by (simp only: b64_decode_def b64_quanta_encode)
qed

lemma b64_encode_length: "length (b64_encode bs) = 4 * ((length bs + 2) div 3)"
proof (induction bs rule: b64_encode.induct)
  case (4 a b c cs)
  have "(length (a # b # c # cs) + 2) div 3 = (length cs + 2) div 3 + 1" by simp
  with 4 show ?case by simp
qed simp_all

section \<open>Lemmas: requests and responses\<close>

lemma readBody_bound: "readBody req = Inr (body, False) \<Longrightarrow> length body \<le> maxFunctionBody"
  by (auto simp: readBody_def Let_def split: option.splits if_splits)

lemma readBody_whole:
  "readBody req = Inr (body, False) \<Longrightarrow>
     body = (case rq_body req of None \<Rightarrow> [] | Some (content, _) \<Rightarrow> content)"
  by (auto simp: readBody_def Let_def split: option.splits if_splits)

lemma newFunctionEvent_body:
  "ev_body (newFunctionEvent cd req body) =
     (if body = [] then []
      else if isTextual cd (hd_Get (rq_header req) ''Content-Type'') then body else b64_encode body)"
  "ev_isBase64Encoded (newFunctionEvent cd req body) \<longleftrightarrow>
     body \<noteq> [] \<and> \<not> isTextual cd (hd_Get (rq_header req) ''Content-Type'')"
  by (simp_all add: newFunctionEvent_def Let_def split: prod.split)

lemma newFunctionEvent_headers:
  "ev_headers (newFunctionEvent cd req body) =
     m_put ''host'' (rq_host req) (fst (fold event_header (rq_header req) (m_empty, [])))"
  by (simp add: newFunctionEvent_def Let_def split: prod.split)

text \<open>Where the headers of an event come from.\<close>

lemma event_header_from:
  "map_of (fst (event_header (name, vs) (m, cs))) k = Some v \<Longrightarrow>
     map_of m k = Some v \<or> k = to_lower name \<and> v = join '','' vs \<and> v \<noteq> [] \<and> \<not> EqualFold name ''Cookie''"
  by (auto simp: event_header_def Let_def split: if_splits)

lemma event_headers_from:
  "map_of (fst (fold event_header hs (m, cs))) k = Some v \<Longrightarrow>
     map_of m k = Some v \<or>
     (\<exists>name vs. (name, vs) \<in> set hs \<and> k = to_lower name \<and> v = join '','' vs \<and> v \<noteq> [] \<and> \<not> EqualFold name ''Cookie'')"
proof (induction hs arbitrary: m cs)
  case Nil
  then show ?case by simp
next
  case (Cons h hs)
  obtain name vs where h: "h = (name, vs)" by (cases h)
  obtain m' cs' where e: "event_header h (m, cs) = (m', cs')" by (cases "event_header h (m, cs)")
  with event_header_from [of name vs m cs k v] h
  have "map_of m' k = Some v \<Longrightarrow>
    map_of m k = Some v \<or> k = to_lower name \<and> v = join '','' vs \<and> v \<noteq> [] \<and> \<not> EqualFold name ''Cookie''"
    by simp
  with Cons.IH [of m' cs'] Cons.prems e h show ?case by auto
qed

lemma canonical_names [simp]:
  "CanonicalHeaderKey ''Content-Length'' = ''Content-Length''"
  "CanonicalHeaderKey ''Content-Type'' = ''Content-Type''"
  "CanonicalHeaderKey ''Transfer-Encoding'' = ''Transfer-Encoding''"
  "CanonicalHeaderKey ''Set-Cookie'' = ''Set-Cookie''"
  by code_simp+

text \<open>What no step of building a response changes: its status, its body, and the headers that
  describe the body's length and framing.\<close>

definition framed :: "Response \<Rightarrow> bool" where
  "framed resp \<longleftrightarrow>
     map_of (rs_header resp) ''Content-Length'' = Some [show_nat (length (rs_body resp))] \<and>
     rs_contentLength resp = int (length (rs_body resp)) \<and>
     map_of (rs_header resp) ''Transfer-Encoding'' = None"

lemma framed_newResponse [simp]: "framed (newResponse code body)"
  by (simp add: framed_def newResponse_def)

lemma framed_set_header:
  "framed resp \<Longrightarrow> CanonicalHeaderKey k \<noteq> ''Content-Length'' \<Longrightarrow> CanonicalHeaderKey k \<noteq> ''Transfer-Encoding'' \<Longrightarrow>
     framed (set_header k v resp)"
  by (simp add: framed_def set_header_def)

lemma framing_names:
  "CanonicalHeaderKey k = ''Content-Length'' \<Longrightarrow> EqualFold k ''Content-Length''"
  "CanonicalHeaderKey k = ''Transfer-Encoding'' \<Longrightarrow> EqualFold k ''Transfer-Encoding''"
proof -
  have "list_all token_char ''Content-Length''" "list_all token_char ''Transfer-Encoding''" by code_simp+
  then show "CanonicalHeaderKey k = ''Content-Length'' \<Longrightarrow> EqualFold k ''Content-Length''"
    "CanonicalHeaderKey k = ''Transfer-Encoding'' \<Longrightarrow> EqualFold k ''Transfer-Encoding''"
    using canonical_EqualFold [of k "''Content-Length''"] canonical_EqualFold [of k "''Transfer-Encoding''"]
    by simp_all
qed

lemma framed_result_header: "framed resp \<Longrightarrow> framed (result_header nv resp)"
  by (auto simp: result_header_def split: prod.split intro!: framed_set_header dest: framing_names)

lemma framed_add_cookie: "framed resp \<Longrightarrow> framed (add_cookie c resp)"
  by (simp add: framed_def add_cookie_def)

lemma result_header_same [simp]:
  "rs_statusCode (result_header nv resp) = rs_statusCode resp" "rs_body (result_header nv resp) = rs_body resp"
  "rs_statusCode (add_cookie c resp) = rs_statusCode resp" "rs_body (add_cookie c resp) = rs_body resp"
  "rs_statusCode (set_header k v resp) = rs_statusCode resp" "rs_body (set_header k v resp) = rs_body resp"
  by (simp_all add: result_header_def add_cookie_def set_header_def split: prod.split)

lemma fold_response:
  assumes "\<And>x r. framed r \<Longrightarrow> framed (f x r)" and "\<And>x r. rs_statusCode (f x r) = rs_statusCode r"
    and "\<And>x r. rs_body (f x r) = rs_body r" and "framed resp"
  shows "framed (fold f xs resp) \<and> rs_statusCode (fold f xs resp) = rs_statusCode resp \<and>
         rs_body (fold f xs resp) = rs_body resp"
  using assms(4) by (induction xs arbitrary: resp) (auto simp: assms(1-3))

text \<open>An attempt fails with a connect error only if \<^verbatim>\<open>Invoke\<close> was called and failed with one, or with
  a code that says the function did not run.\<close>

lemma functionResponse_no_connect: "functionResponse cd payload = Inl e \<Longrightarrow> \<not> isConnectError e"
  by (auto simp: functionResponse_def Let_def split: if_splits sum.splits option.splits)

lemma invoker_connect:
  assumes "invoker_RoundTrip cd api f req = (calls, Inl e)" and "isConnectError e"
  shows "\<exists>inp err. calls = [inp] \<and> api inp = Inl err \<and> (functionDidNotRun err \<or> isConnectError err)"
  using assms functionResponse_no_connect
  by (auto simp: invoker_RoundTrip_def readBody_def newFunctionError_def Let_def
      split: if_splits sum.splits option.splits prod.splits)

lemma invoker_calls: "length (fst (invoker_RoundTrip cd api f req)) \<le> 1"
  by (simp add: invoker_RoundTrip_def Let_def split: sum.split prod.split)

text \<open>A body over the limit is answered without invoking the function.\<close>

lemma invoker_too_large:
  "rq_body req = Some (content, err) \<Longrightarrow> maxFunctionBody < length content \<Longrightarrow>
     \<exists>resp. invoker_RoundTrip cd api f req = ([], Inr resp) \<and> rs_statusCode resp = 413"
  by (simp add: invoker_RoundTrip_def readBody_def Let_def textResponse_def set_header_def newResponse_def)

text \<open>The end of an encoded event.\<close>

lemma marshalEvent_body:
  "\<exists>before. marshalEvent ev =
     Inr (before @ json_string ''body'' @ '':'' @ [quotation] @ json_escape (ev_body ev) @ [quotation] @ '','' @
          json_string ''isBase64Encoded'' @ '':'' @ json_bool (ev_isBase64Encoded ev) @ ''}'')"
proof -
  have "event_fields ev \<noteq> []" by (simp add: event_fields_def Let_def)
  from json_object_end [OF this, of "''body''" "json_string (ev_body ev)" "''isBase64Encoded''" "json_bool (ev_isBase64Encoded ev)"]
  show ?thesis by (simp add: marshalEvent_def json_string_def [of "ev_body ev"])
qed

lemma b64_char_safe: "c \<in> set b64_alphabet \<Longrightarrow> html_safe c"
proof -
  have "list_all html_safe b64_alphabet" by code_simp
  then show "c \<in> set b64_alphabet \<Longrightarrow> html_safe c" by (simp add: list_all_iff)
qed

lemma b64_encode_safe: "list_all html_safe (b64_encode s)"
proof -
  have pad: "html_safe (CHR ''='')" by code_simp
  have "c \<in> set (b64_encode s) \<Longrightarrow> html_safe c" for c
    by (induction s rule: b64_encode.induct)
      (auto simp only: b64_encode.simps list.set b64_char_safe b64_char_mem char_sextets insert_iff empty_iff pad)
  then show ?thesis by (simp add: list_all_iff)
qed

section \<open>Properties\<close>

text \<open>C27: the body a function receives is the body of the request. A body within the limit is read whole
  and stands in the payload as the last string of the event. A body that is not text is there in base64,
  marked as such: its characters need no escape, decoding gives the body back, and it takes less than the
  6 MB that Lambda accepts. A text body is there as a string literal: it reads as the body if that is
  UTF-8, but it is escaped, up to six bytes for one, and no limit on its size follows from the one on the
  body; one of quotation marks alone takes twice its length.\<close>

theorem event_body_exact:
  assumes "readBody req = Inr (body, False)"
  shows "body = (case rq_body req of None \<Rightarrow> [] | Some (content, _) \<Rightarrow> content) \<and>
    (let ev = newFunctionEvent cd req body; sent = json_escape (ev_body ev) in
       (\<exists>before. marshalEvent ev =
          Inr (before @ json_string ''body'' @ '':'' @ [quotation] @ sent @ [quotation] @ '','' @
               json_string ''isBase64Encoded'' @ '':'' @ json_bool (ev_isBase64Encoded ev) @ ''}'')) \<and>
       (if ev_isBase64Encoded ev
        then sent = ev_body ev \<and> json_unescape sent = Some (ev_body ev) \<and> b64_decode (ev_body ev) = Some body \<and>
          length sent < 6000000
        else ev_body ev = body \<and> (valid_utf8 body \<longrightarrow> json_unescape sent = Some body) \<and>
          length sent \<le> 6 * length body \<and>
          (list_all (\<lambda>c. c = quotation) body \<longrightarrow> length sent = 2 * length body)))"
proof -
  let ?ev = "newFunctionEvent cd req body"
  from assms have "length body \<le> maxFunctionBody" by (rule readBody_bound)
  then have "(length body + 2) div 3 \<le> 1398102" by (simp add: maxFunctionBody_def)
  then have "length (b64_encode body) < 6000000" by (simp add: b64_encode_length)
  moreover note json_escape_safe [OF b64_encode_safe, of body] json_unescape_escape [OF valid_utf8_safe [OF b64_encode_safe], of body] b64_decode_encode [of body]
  ultimately have "if ev_isBase64Encoded ?ev
      then json_escape (ev_body ?ev) = ev_body ?ev \<and> json_unescape (json_escape (ev_body ?ev)) = Some (ev_body ?ev) \<and>
        b64_decode (ev_body ?ev) = Some body \<and> length (json_escape (ev_body ?ev)) < 6000000
      else ev_body ?ev = body"
    by (simp add: newFunctionEvent_body)
  with readBody_whole [OF assms] marshalEvent_body [of ?ev] show ?thesis
    using json_unescape_escape [of body] json_escape_length [of body] json_escape_quotations [of body]
    by (auto simp: Let_def)
qed

definition demo_codecs :: codecs where
  "demo_codecs =
     \<lparr>parseMediaType = (\<lambda>s. if s = [] then None else Some s),
      unmarshalMap = (\<lambda>s. if s = ''structured'' then Some [(''statusCode'', ''201'')] else None),
      unmarshalResult = (\<lambda>s. Inr \<lparr>fr_statusCode = 201, fr_headers = [(''content-length'', ''7''), (''x-a'', ''b'')],
         fr_cookies = [''c=d''], fr_body = ''aGk='', fr_isBase64Encoded = True\<rparr>),
      unmarshalError = (\<lambda>s. (''E'', s))\<rparr>"

definition demo_request :: "(string \<times> string option) option \<Rightarrow> Request" where
  "demo_request body =
     \<lparr>rq_method = ''POST'', rq_proto = ''HTTP/1.1'', rq_urlScheme = ''http'', rq_urlHost = [],
      rq_escapedPath = ''/p'', rq_rawQuery = ''a=1&a=2'', rq_host = ''web.ts.net'',
      rq_header = [(''Cookie'', [''a=b; c=d'']), (''X-Forwarded-For'', [''100.64.0.7''])], rq_body = body\<rparr>"

lemma maxFunctionBody_value: "maxFunctionBody = 4194304"
  by (simp add: maxFunctionBody_def)

definition text_request :: Request where
  "text_request = (demo_request (Some ([quotation], None)))\<lparr>rq_header := [(''Content-Type'', [''text/plain''])]\<rparr>"

lemma demo_bodies:
  "readBody (demo_request (Some (''hi'', None))) = Inr (''hi'', False)" "readBody text_request = Inr ([quotation], False)"
  "ev_isBase64Encoded (newFunctionEvent demo_codecs (demo_request (Some (''hi'', None))) ''hi'')"
  "\<not> ev_isBase64Encoded (newFunctionEvent demo_codecs text_request [quotation])"
proof -
  show "readBody (demo_request (Some (''hi'', None))) = Inr (''hi'', False)" "readBody text_request = Inr ([quotation], False)"
    by (simp_all add: readBody_def demo_request_def text_request_def maxFunctionBody_value)
  have "hd_Get (rq_header (demo_request b)) ''Content-Type'' = []" for b by (simp add: demo_request_def) code_simp
  moreover have "hd_Get (rq_header text_request) ''Content-Type'' = ''text/plain''" by (simp add: text_request_def) code_simp
  moreover have "isTextual demo_codecs ''text/plain''" "\<not> isTextual demo_codecs []" by code_simp+
  ultimately show "ev_isBase64Encoded (newFunctionEvent demo_codecs (demo_request (Some (''hi'', None))) ''hi'')"
    "\<not> ev_isBase64Encoded (newFunctionEvent demo_codecs text_request [quotation])"
    by (simp_all add: newFunctionEvent_body)
qed

theorem event_body_exact_witness:
  "(let ev = newFunctionEvent demo_codecs (demo_request (Some (''hi'', None))) ''hi'' in
      ev_isBase64Encoded ev \<and> b64_decode (ev_body ev) = Some ''hi'' \<and> length (json_escape (ev_body ev)) < 6000000) \<and>
   (let ev = newFunctionEvent demo_codecs text_request [quotation] in
      \<not> ev_isBase64Encoded ev \<and> length (json_escape (ev_body ev)) = 2)"
proof -
  note sent = event_body_exact [of _ _ demo_codecs, THEN conjunct2, unfolded Let_def, THEN conjunct2]
  have "length (json_escape (ev_body (newFunctionEvent demo_codecs text_request [quotation]))) = 2 * length [quotation]"
    using sent [OF demo_bodies(2)] demo_bodies(4) by (auto simp del: json_escape.simps json_unescape.simps)
  then show ?thesis using sent [OF demo_bodies(1)] demo_bodies(3,4) by (auto simp: Let_def)
qed

text \<open>C28: whatever a function returns, a response made of it has a status of three digits and is
  framed by its own body: the length header and field are the body's, whatever headers the function
  set, and no transfer encoding is announced.\<close>

theorem function_response_framed:
  assumes "functionResponse cd payload = Inr resp"
  shows "100 \<le> rs_statusCode resp \<and> rs_statusCode resp \<le> 999 \<and>
         map_of (rs_header resp) ''Content-Length'' = Some [show_nat (length (rs_body resp))] \<and>
         rs_contentLength resp = int (length (rs_body resp)) \<and>
         map_of (rs_header resp) ''Transfer-Encoding'' = None"
proof (cases "\<exists>code body hs cs. 100 \<le> code \<and> code \<le> 999 \<and>
    resp = fold add_cookie cs (fold result_header hs (newResponse code body))")
  case True
  then obtain code body hs cs where c: "100 \<le> code" "code \<le> 999"
    and r: "resp = fold add_cookie cs (fold result_header hs (newResponse code body))" by blast
  let ?r = "fold result_header hs (newResponse code body)"
  have "framed ?r \<and> rs_statusCode ?r = code"
    using fold_response [of result_header "newResponse code body" hs]
    by (simp add: framed_result_header) (simp add: newResponse_def)
  then have "framed resp \<and> rs_statusCode resp = code"
    using fold_response [of add_cookie ?r cs] by (simp add: framed_add_cookie r)
  with c show ?thesis by (simp add: framed_def)
next
  case False
  with assms have "resp = set_header ''Content-Type'' ''application/json'' (newResponse 200 payload)"
    by (auto simp: functionResponse_def Let_def not_less split: if_splits sum.splits option.splits)
  moreover from this have "framed resp" by (simp add: framed_set_header)
  ultimately show ?thesis by (simp add: framed_def) (simp add: newResponse_def)
qed

theorem function_response_framed_witness:
  "\<exists>resp. functionResponse demo_codecs ''structured'' = Inr resp \<and>
     map_of (rs_header resp) ''Content-Length'' = Some [show_nat (length (rs_body resp))]"
proof -
  have "b64_decode ''aGk='' = Some ''hi''" by code_simp
  then obtain resp where "functionResponse demo_codecs ''structured'' = Inr resp"
    by (simp add: functionResponse_def demo_codecs_def)
  with function_response_framed [OF this] show ?thesis by blast
qed

end
