(* ===== verification/Transport.thy ===== *)
theory Transport
  imports Invoker
begin

text \<open>
  The reverse proxy of a service (\<^verbatim>\<open>proxy/reverseproxy.go\<close>): the headers a request leaves with, the
  dialling of backends, the walk over the members of the pool when a connection cannot be
  established, and the error handler. The transports and the invokers' answers are arguments;
  \<^verbatim>\<open>httputil.ReverseProxy\<close> itself is represented by the order in which it calls these.
\<close>

section \<open>Rewriting a request\<close>

definition headerNodeTags :: string where
  "headerNodeTags = ''Tailscale-Node-Tags''"

definition headerNodeName :: string where
  "headerNodeName = ''Tailscale-Node-Name''"

text \<open>What \<^verbatim>\<open>WhoIs\<close> says of a peer: \<open>Inl\<close> an error, \<open>Inr None\<close> no node.\<close>

record Node =
  nd_isTagged :: bool
  nd_tags :: "string list"
  nd_computedName :: string

type_synonym whoisFunc = "string \<Rightarrow> string + Node option"

text \<open>The parts of a \<^verbatim>\<open>ProxyRequest\<close> that are read and written.\<close>

record ProxyRequest =
  pr_inHost :: string
  pr_inHeader :: hdr
  pr_outScheme :: string
  pr_outHeader :: hdr

definition formatNodeTags :: "string list \<Rightarrow> string" where
  "formatNodeTags tags = join '','' (map (\<lambda>t. trim_prefix t ''tag:'') tags)"

definition injectNodeHeaders :: "whoisFunc option \<Rightarrow> ProxyRequest \<Rightarrow> ProxyRequest" where
  "injectNodeHeaders whois pr =
     (let h0 = hd_Del headerNodeName (hd_Del headerNodeTags (pr_outHeader pr));
          pr0 = pr\<lparr>pr_outHeader := h0\<rparr>
      in case whois of
           None \<Rightarrow> pr0
         | Some lookup \<Rightarrow>
             let ip = firstForwardedFor (hd_Get (pr_inHeader pr) ''X-Forwarded-For'') in
             if ip = [] then pr0
             else case lookup ip of
                    Inl err \<Rightarrow> pr0
                  | Inr None \<Rightarrow> pr0
                  | Inr (Some node) \<Rightarrow>
                      let h1 = (if nd_isTagged node then hd_Set headerNodeTags (formatNodeTags (nd_tags node)) h0 else h0)
                      in pr0\<lparr>pr_outHeader := hd_Set headerNodeName (nd_computedName node) h1\<rparr>)"

definition Rewrite :: "string \<Rightarrow> whoisFunc option \<Rightarrow> ProxyRequest \<Rightarrow> ProxyRequest" where
  "Rewrite scheme whois pr =
     (let xff = hd_Get (pr_inHeader pr) ''X-Forwarded-For'';
          h1 = (if xff \<noteq> [] then hd_Set ''X-Forwarded-For'' xff (pr_outHeader pr) else pr_outHeader pr);
          h2 = hd_Set ''X-Forwarded-Proto'' ''https'' (hd_Set ''X-Forwarded-Host'' (pr_inHost pr) h1)
      in injectNodeHeaders whois (pr\<lparr>pr_outScheme := scheme, pr_outHeader := h2\<rparr>))"

section \<open>Dialling\<close>

definition dialTimeout :: nanos where
  "dialTimeout = 5 * 1000000000"

text \<open>\<open>dialer\<close> is \<^verbatim>\<open>net.Dialer.DialContext\<close>: from the deadline of the context and the address to a
  connection or an error.\<close>

definition connectDialer :: "(nanos \<Rightarrow> string \<Rightarrow> goerr + 'c) \<Rightarrow> nanos \<Rightarrow> string \<Rightarrow> goerr + 'c" where
  "connectDialer dialer deadline addr =
     (case dialer deadline addr of Inl err \<Rightarrow> Inl (ConnectError err) | Inr c \<Rightarrow> Inr c)"

text \<open>\<open>hostname addr\<close> is the host of \<open>addr\<close> when \<^verbatim>\<open>net.SplitHostPort\<close> accepts it and the host is not
  an IP address. The handshake gets the deadline, the server name and the connection. The
  connections closed are returned with the result.\<close>

definition dialTLSWithin ::
  "(nanos \<Rightarrow> string \<Rightarrow> goerr + 'c) \<Rightarrow> (string \<Rightarrow> string option) \<Rightarrow> (nanos \<Rightarrow> string \<Rightarrow> 'c \<Rightarrow> goerr + 't)
     \<Rightarrow> string \<Rightarrow> nanos \<Rightarrow> nanos \<Rightarrow> string \<Rightarrow> 'c list \<times> (goerr + 't)" where
  "dialTLSWithin dial hostname handshake serverName now deadline addr =
     (let deadline' = min deadline (now + dialTimeout) in
      case dial deadline' addr of
        Inl err \<Rightarrow> ([], Inl err)
      | Inr c \<Rightarrow>
          let sni = (case hostname addr of None \<Rightarrow> serverName | Some host \<Rightarrow> host) in
          (case handshake deadline' sni c of
             Inl err \<Rightarrow> ([c], Inl (ConnectError err))
           | Inr tc \<Rightarrow> ([], Inr tc)))"

text \<open>The settings of the transports, with times in nanoseconds; \<open>tr_tls\<close> is whether certificates
  are verified, when the transport performs the handshakes itself.\<close>

record transport_settings =
  tr_proxyFromEnvironment :: bool
  tr_maxIdleConns :: nat
  tr_maxIdleConnsPerHost :: nat
  tr_idleConnTimeout :: nanos
  tr_tlsHandshakeTimeout :: nanos
  tr_expectContinueTimeout :: nanos
  tr_tls :: "bool option"

definition tlsHandshakeTimeout :: nanos where
  "tlsHandshakeTimeout = 10 * 1000000000"

definition newBackendTransport :: "string \<Rightarrow> transport_settings" where
  "newBackendTransport scheme =
     (let tr = \<lparr>tr_proxyFromEnvironment = True, tr_maxIdleConns = 100, tr_maxIdleConnsPerHost = 32,
                tr_idleConnTimeout = 90 * 1000000000, tr_tlsHandshakeTimeout = tlsHandshakeTimeout,
                tr_expectContinueTimeout = 1000000000, tr_tls = None\<rparr>
      in if scheme \<noteq> ''https'' then tr
         else tr\<lparr>tr_proxyFromEnvironment := False, tr_tls := Some False\<rparr>)"

definition newInvokeTransport :: transport_settings where
  "newInvokeTransport =
     \<lparr>tr_proxyFromEnvironment = True, tr_maxIdleConns = 100, tr_maxIdleConnsPerHost = 32,
      tr_idleConnTimeout = 90 * 1000000000, tr_tlsHandshakeTimeout = tlsHandshakeTimeout,
      tr_expectContinueTimeout = 0, tr_tls = Some True\<rparr>"

text \<open>The options of a Lambda client that matter: whether the SDK retries, and its transport. The
  caller's adjustments come first.\<close>

record lambda_options =
  lo_sdkRetries :: bool
  lo_transport :: transport_settings
  lo_endpoint :: string

definition NewLambdaClient :: "(lambda_options \<Rightarrow> lambda_options) list \<Rightarrow> lambda_options \<Rightarrow> lambda_options" where
  "NewLambdaClient optFns o0 =
     fold (\<lambda>f. f) (optFns @ [\<lambda>opt. opt\<lparr>lo_sdkRetries := False, lo_transport := newInvokeTransport\<rparr>]) o0"

section \<open>Walking the pool\<close>

text \<open>What the surroundings answer the attempts of one request: the shared transport (nil for a
  function service), the invokers, and whether the request's context is done after attempt \<open>i\<close>;
  and whether an error counter is set. \<open>quote\<close> prints a string for \<open>%q\<close>.\<close>

record transport_env =
  te_base :: "(nat \<Rightarrow> Request \<Rightarrow> goerr + Response) option"
  te_invoke :: "nat \<Rightarrow> FunctionInvoker \<Rightarrow> Request \<Rightarrow> goerr + Response"
  te_ctxDone :: "nat \<Rightarrow> bool"
  te_counts :: bool
  te_quote :: "string \<Rightarrow> string"

definition attempt_request :: "string \<Rightarrow> backend \<Rightarrow> Request \<Rightarrow> Request" where
  "attempt_request scheme b req =
     (if b_invoker b \<noteq> None then req
      else req\<lparr>rq_urlScheme := scheme, rq_urlHost := b_addr b, rq_host := b_addr b\<rparr>)"

text \<open>\<open>None\<close>: calling a nil transport, which panics.\<close>

definition perform :: "transport_env \<Rightarrow> nat \<Rightarrow> backend \<Rightarrow> Request \<Rightarrow> (goerr + Response) option" where
  "perform env i b attempt =
     (case b_invoker b of
        Some f \<Rightarrow> Some (te_invoke env i f attempt)
      | None \<Rightarrow> (case te_base env of None \<Rightarrow> None | Some rt \<Rightarrow> Some (rt i attempt)))"

text \<open>The attempts made, in order, with what each sent and received; and the reasons the error
  counter was called with.\<close>

record walk =
  wk_attempts :: "(backend \<times> Request \<times> (goerr + Response)) list"
  wk_reasons :: "string list"

fun try_members ::
  "transport_env \<Rightarrow> string \<Rightarrow> Request \<Rightarrow> backend list \<Rightarrow> nat \<Rightarrow> nat list \<Rightarrow> goerr option \<Rightarrow> walk
     \<Rightarrow> (walk \<times> Response option \<times> goerr option) option" where
  "try_members env scheme req ms start [] lastErr w = Some (w, None, lastErr)"
| "try_members env scheme req ms start (i # js) lastErr w =
     (let b = ms ! ((start + i) mod length ms);
          attempt = attempt_request scheme b req
      in case perform env i b attempt of
           None \<Rightarrow> None
         | Some (Inr resp) \<Rightarrow>
             Some (w\<lparr>wk_attempts := wk_attempts w @ [(b, attempt, Inr resp)]\<rparr>, Some resp, None)
         | Some (Inl err) \<Rightarrow>
             let w' = w\<lparr>wk_attempts := wk_attempts w @ [(b, attempt, Inl err)],
                        wk_reasons := (if te_counts env
                                       then wk_reasons w @ [classifyProxyError (te_quote env) (Some err)]
                                       else wk_reasons w)\<rparr>
             in if rq_body req \<noteq> None \<or> \<not> isConnectError err \<or> te_ctxDone env i
                then Some (w', None, Some (AttemptError err))
                else try_members env scheme req ms start js (Some (AttemptError err)) w')"

definition pool_RoundTrip ::
  "transport_env \<Rightarrow> string \<Rightarrow> Request \<Rightarrow> backendPool
     \<Rightarrow> backendPool \<times> (walk \<times> Response option \<times> goerr option) option" where
  "pool_RoundTrip env scheme req pool =
     (case rotation pool of
        (pool', ms, start) \<Rightarrow>
          (pool',
           if length ms = 0 then Some (\<lparr>wk_attempts = [], wk_reasons = []\<rparr>, None, Some ErrNoBackend)
           else try_members env scheme req ms start [0..<length ms] None \<lparr>wk_attempts = [], wk_reasons = []\<rparr>))"

text \<open>The error handler: the reasons it counts, and the status and text it answers.\<close>

definition ErrorHandler :: "transport_env \<Rightarrow> goerr \<Rightarrow> string list \<times> int \<times> string" where
  "ErrorHandler env err =
     ((if list_ex is_attemptError (chain err) then []
       else if te_counts env then [classifyProxyError (te_quote env) (Some err)] else []),
      502, ''bad gateway: '' @ Error (te_quote env) err)"

text \<open>The proxy built for a service has no shared transport if its backends are functions.\<close>

definition newReverseProxy ::
  "string \<Rightarrow> (nat \<Rightarrow> Request \<Rightarrow> goerr + Response) \<Rightarrow> (nat \<Rightarrow> FunctionInvoker \<Rightarrow> Request \<Rightarrow> goerr + Response)
     \<Rightarrow> (nat \<Rightarrow> bool) \<Rightarrow> bool \<Rightarrow> (string \<Rightarrow> string) \<Rightarrow> transport_env" where
  "newReverseProxy scheme base invoke ctxDone counts quote =
     \<lparr>te_base = (if scheme \<noteq> ''lambda'' then Some base else None), te_invoke = invoke, te_ctxDone = ctxDone,
      te_counts = counts, te_quote = quote\<rparr>"

text \<open>A request through the proxy. What \<^verbatim>\<open>httputil.ReverseProxy\<close> itself finds wrong is an argument: an
  error with the request, before the transport is called, and an error of the protocol upgrade after a
  member has answered 101.\<close>

record reverse_proxy =
  rp_refuses :: "Request \<Rightarrow> goerr option"
  rp_upgrade :: "Request \<Rightarrow> Response \<Rightarrow> goerr option"

definition failed_upgrade :: "reverse_proxy \<Rightarrow> Request \<Rightarrow> Response \<Rightarrow> goerr option" where
  "failed_upgrade rp req resp = (if rs_statusCode resp = 101 then rp_upgrade rp req resp else None)"

text \<open>The result is the walk, every reason counted, and the response passed on or what the error handler
  writes, which no longer reaches a client whose connection the upgrade has hijacked.\<close>

definition proxy_serve ::
  "reverse_proxy \<Rightarrow> transport_env \<Rightarrow> string \<Rightarrow> Request \<Rightarrow> backendPool
     \<Rightarrow> backendPool \<times> (walk \<times> string list \<times> (int \<times> string + Response)) option" where
  "proxy_serve rp env scheme req pool =
     (let handled = (\<lambda>w err. case ErrorHandler env err of
            (reasons, code, body) \<Rightarrow> Some (w, wk_reasons w @ reasons, Inl (code, body)))
      in case rp_refuses rp req of
           Some err \<Rightarrow> (pool, handled \<lparr>wk_attempts = [], wk_reasons = []\<rparr> err)
         | None \<Rightarrow>
             (case pool_RoundTrip env scheme req pool of
                (pool', None) \<Rightarrow> (pool', None)
              | (pool', Some (w, Some resp, _)) \<Rightarrow>
                  (pool', case failed_upgrade rp req resp of
                            None \<Rightarrow> Some (w, wk_reasons w, Inr resp)
                          | Some err \<Rightarrow> handled w err)
              | (pool', Some (w, None, Some err)) \<Rightarrow> (pool', handled w err)
              | (pool', Some (w, None, None)) \<Rightarrow> (pool', None)))"

section \<open>Lemmas: dialling\<close>

text \<open>Every failure to establish a connection, the handshake included, is a connect error; a
  connection whose handshake failed is closed; and dial and handshake share one deadline.\<close>

lemma connectDialer_error: "connectDialer dialer deadline addr = Inl e \<Longrightarrow> isConnectError e"
  by (auto simp: connectDialer_def split: sum.splits)

lemma dialTLSWithin_error:
  "dialTLSWithin (connectDialer dialer) hostname handshake sn now deadline addr = (closed, Inl e) \<Longrightarrow>
     isConnectError e \<and>
     (\<forall>c. connectDialer dialer (min deadline (now + dialTimeout)) addr = Inr c \<longrightarrow> closed = [c])"
  by (auto simp: dialTLSWithin_def Let_def connectDialer_error split: sum.splits)

text \<open>Whatever the caller adjusts, the SDK does not retry and the transport is the one built here.\<close>

lemma NewLambdaClient_guarantees:
  "lo_sdkRetries (NewLambdaClient optFns opts) = False"
  "lo_transport (NewLambdaClient optFns opts) = newInvokeTransport"
  by (simp_all add: NewLambdaClient_def)

section \<open>Lemmas: walking the pool\<close>

text \<open>A shared transport is there, or no member needs it.\<close>

definition can_perform :: "transport_env \<Rightarrow> backend list \<Rightarrow> bool" where
  "can_perform env ms \<longleftrightarrow> te_base env \<noteq> None \<or> list_all (\<lambda>b. b_invoker b \<noteq> None) ms"

definition outcome :: "transport_env \<Rightarrow> nat \<Rightarrow> backend \<Rightarrow> Request \<Rightarrow> goerr + Response" where
  "outcome env i b attempt =
     (case b_invoker b of
        Some f \<Rightarrow> te_invoke env i f attempt
      | None \<Rightarrow> (case te_base env of None \<Rightarrow> Inl ErrNoBackend | Some rt \<Rightarrow> rt i attempt))"

lemma perform_outcome:
  "can_perform env ms \<Longrightarrow> b \<in> set ms \<Longrightarrow> perform env i b attempt = Some (outcome env i b attempt)"
  by (auto simp: can_perform_def list_all_iff perform_def outcome_def split: option.split)

text \<open>The attempts that would be made if none of them ended the walk, whether an attempt lets the
  walk go on, and the attempts up to the first that does not.\<close>

definition planned ::
  "transport_env \<Rightarrow> string \<Rightarrow> Request \<Rightarrow> (nat \<times> backend) list \<Rightarrow> (nat \<times> backend \<times> Request \<times> (goerr + Response)) list" where
  "planned env scheme req ibs =
     map (\<lambda>(i, b). (i, b, attempt_request scheme b req, outcome env i b (attempt_request scheme b req))) ibs"

definition goes_on :: "transport_env \<Rightarrow> Request \<Rightarrow> nat \<times> backend \<times> Request \<times> (goerr + Response) \<Rightarrow> bool" where
  "goes_on env req x =
     (case x of (i, _, _, out) \<Rightarrow>
        rq_body req = None \<and> \<not> te_ctxDone env i \<and> (case out of Inl e \<Rightarrow> isConnectError e | Inr _ \<Rightarrow> False))"

fun up_to :: "('a \<Rightarrow> bool) \<Rightarrow> 'a list \<Rightarrow> 'a list" where
  "up_to P [] = []"
| "up_to P (x # xs) = x # (if P x then up_to P xs else [])"

lemma up_to_take: "up_to P xs = take (Suc (length (takeWhile P xs))) xs"
  by (induction xs) auto

lemma up_to_Nil [simp]: "up_to P xs = [] \<longleftrightarrow> xs = []"
  by (cases xs) auto

definition answer :: "(goerr + Response) \<Rightarrow> Response option \<times> goerr option" where
  "answer out = (case out of Inr resp \<Rightarrow> (Some resp, None) | Inl err \<Rightarrow> (None, Some (AttemptError err)))"

text \<open>The failures among the attempts, as the counter is told of them.\<close>

definition reasons :: "transport_env \<Rightarrow> (nat \<times> backend \<times> Request \<times> (goerr + Response)) list \<Rightarrow> string list" where
  "reasons env xs =
     (if te_counts env
      then concat (map (\<lambda>(_, _, _, out). case out of Inl e \<Rightarrow> [classifyProxyError (te_quote env) (Some e)] | Inr _ \<Rightarrow> []) xs)
      else [])"

lemma reasons_simps [simp]:
  "reasons env [] = []"
  "reasons env ((i, b, a, Inr resp) # xs) = reasons env xs"
  "reasons env ((i, b, a, Inl e) # xs) =
     (if te_counts env then classifyProxyError (te_quote env) (Some e) # reasons env xs else [])"
  by (simp_all add: reasons_def)

lemma reasons_off: "\<not> te_counts env \<Longrightarrow> reasons env xs = []"
  by (simp add: reasons_def)

lemma try_members_walk:
  assumes "can_perform env ms" and "ms \<noteq> []"
  shows "try_members env scheme req ms start js lastErr w =
    (let made = up_to (goes_on env req) (planned env scheme req (map (\<lambda>i. (i, ms ! ((start + i) mod length ms))) js))
     in Some (w\<lparr>wk_attempts := wk_attempts w @ map snd made, wk_reasons := wk_reasons w @ reasons env made\<rparr>,
              if made = [] then (None, lastErr) else answer (snd (snd (snd (last made))))))"
proof (induction js arbitrary: lastErr w)
  case Nil
  then show ?case by (simp add: planned_def)
next
  case (Cons i js)
  let ?b = "ms ! ((start + i) mod length ms)"
  let ?a = "attempt_request scheme ?b req"
  from assms(2) have "?b \<in> set ms" by simp
  note out = perform_outcome [OF assms(1) this, of i ?a]
  show ?case
  proof (cases "outcome env i ?b ?a")
    case (Inr resp)
    with out show ?thesis by (simp add: planned_def goes_on_def answer_def Let_def)
  next
    case (Inl e)
    with out Cons.IH show ?thesis
      by (auto simp: planned_def goes_on_def answer_def Let_def reasons_off)
  qed
qed

lemma rotated_members:
  "ms \<noteq> [] \<Longrightarrow> map (\<lambda>i. (i, ms ! ((k + i) mod length ms))) [0..<length ms] = enumerate 0 (rotate k ms)"
  by (intro nth_equalityI) (simp_all add: nth_enumerate_eq nth_rotate add.commute)

text \<open>The reference: the members in rotated order, each once, up to the first attempt that does not
  let the walk go on.\<close>

definition reference_walk ::
  "transport_env \<Rightarrow> string \<Rightarrow> Request \<Rightarrow> backend list \<Rightarrow> (nat \<times> backend \<times> Request \<times> (goerr + Response)) list" where
  "reference_walk env scheme req order =
     (let all = planned env scheme req (enumerate 0 order)
      in take (Suc (length (takeWhile (goes_on env req) all))) all)"

lemma pool_RoundTrip_reference:
  assumes "members p \<noteq> []" and "length (members p) < 2 ^ 64" and "can_perform env (members p)"
  shows "pool_RoundTrip env scheme req p =
    (let made = reference_walk env scheme req (rotate (unat (nextPos p)) (members p))
     in (p\<lparr>nextPos := nextPos p + 1\<rparr>,
         Some (\<lparr>wk_attempts = map snd made, wk_reasons = reasons env made\<rparr>, answer (snd (snd (snd (last made)))))))"
proof -
  let ?n = "length (members p)"
  let ?all = "planned env scheme req (enumerate 0 (rotate (unat (nextPos p)) (members p)))"
  have "map (\<lambda>i. (i, members p ! ((unat (nextPos p) mod ?n + i) mod ?n))) [0..<?n] =
      enumerate 0 (rotate (unat (nextPos p)) (members p))"
    using rotated_members [OF assms(1), of "unat (nextPos p)"] by (simp add: mod_add_left_eq)
  moreover from assms(1) have "?all \<noteq> []" by (auto simp: planned_def enumerate_eq_zip)
  ultimately show ?thesis
    using assms by (simp add: pool_RoundTrip_def rotation_nonempty try_members_walk reference_walk_def
        Let_def up_to_take [symmetric])
qed

lemma reference_walk_nth:
  assumes "i < length (reference_walk env scheme req order)"
  shows "reference_walk env scheme req order ! i =
    (i, order ! i, attempt_request scheme (order ! i) req,
     outcome env i (order ! i) (attempt_request scheme (order ! i) req))"
    and "i < length order"
  using assms by (auto simp: reference_walk_def Let_def planned_def nth_enumerate_eq)

text \<open>An attempt is followed by another only if it lets the walk go on.\<close>

lemma reference_walk_goes_on:
  assumes "Suc i < length (reference_walk env scheme req order)"
  shows "goes_on env req (reference_walk env scheme req order ! i)"
proof -
  let ?all = "planned env scheme req (enumerate 0 order)"
  from assms have "i < length (takeWhile (goes_on env req) ?all)"
    by (simp add: reference_walk_def Let_def)
  then have "goes_on env req (takeWhile (goes_on env req) ?all ! i)"
    by (metis nth_mem set_takeWhileD)
  with \<open>i < length (takeWhile _ _)\<close> show ?thesis
    by (simp add: reference_walk_def Let_def takeWhile_nth)
qed

lemma reference_walk_length: "length (reference_walk env scheme req order) \<le> length order"
  by (simp add: reference_walk_def Let_def planned_def)

lemma reference_walk_backends:
  "map (\<lambda>x. fst (snd x)) (reference_walk env scheme req order) =
     take (length (reference_walk env scheme req order)) order"
  using reference_walk_length [of env scheme req order]
  by (intro nth_equalityI) (simp_all add: reference_walk_nth)

lemma reference_walk_nonempty [simp]: "reference_walk env scheme req order = [] \<longleftrightarrow> order = []"
  by (auto simp: reference_walk_def Let_def planned_def enumerate_eq_zip)

lemma reasons_failures:
  "te_counts env \<Longrightarrow>
     concat (map (\<lambda>(_, _, out). case out of Inl e \<Rightarrow> [classifyProxyError (te_quote env) (Some e)] | Inr _ \<Rightarrow> []) (map snd xs)) =
     reasons env xs"
  by (induction xs) (auto simp: reasons_def split: sum.splits)

text \<open>Only the last attempt can have succeeded.\<close>

lemma reference_walk_failed:
  assumes "(b, a, out) \<in> set (butlast (map snd (reference_walk env scheme req order)))"
  shows "\<exists>e. out = Inl e"
proof -
  let ?made = "reference_walk env scheme req order"
  from assms obtain i where "Suc i < length ?made" "snd (?made ! i) = (b, a, out)"
    by (auto simp: in_set_conv_nth nth_butlast less_diff_conv)
  with reference_walk_goes_on [of i env scheme req order] show ?thesis
    by (auto simp: goes_on_def split: sum.splits prod.splits)
qed

text \<open>What a request that is not refused comes to, by the last attempt of the reference walk.\<close>

lemma proxy_serve_reference:
  assumes "members p \<noteq> []" "length (members p) < 2 ^ 64" "can_perform env (members p)" "rp_refuses rp req = None"
    and "made = reference_walk env scheme req (rotate (unat (nextPos p)) (members p))"
    and "w = \<lparr>wk_attempts = map snd made, wk_reasons = reasons env made\<rparr>"
  shows "snd (proxy_serve rp env scheme req p) =
    (case snd (snd (last (wk_attempts w))) of
       Inl e \<Rightarrow> Some (w, reasons env made, Inl (502, ''bad gateway: '' @ Error (te_quote env) e))
     | Inr resp \<Rightarrow>
         (case failed_upgrade rp req resp of
            None \<Rightarrow> Some (w, reasons env made, Inr resp)
          | Some e \<Rightarrow> (case ErrorHandler env e of (rs, code, body) \<Rightarrow> Some (w, reasons env made @ rs, Inl (code, body)))))"
proof -
  have "made \<noteq> []" using assms(1,5) by simp
  then have "snd (snd (last (wk_attempts w))) = snd (snd (snd (last made)))" by (simp add: assms(6) last_map)
  then show ?thesis
    using pool_RoundTrip_reference [OF assms(1-3), of scheme req, unfolded Let_def, folded assms(5)] assms(4,6)
    by (simp add: proxy_serve_def answer_def ErrorHandler_def is_attemptError_def split: sum.split option.split)
qed

section \<open>Properties\<close>

text \<open>C13: the transport of a service is the reference walk: from the member the rotation assigns, the
  members in pool order, each at most once, with the address of the member on a copy of the request;
  up to and including the first attempt that succeeded, failed otherwise than by connecting, or
  failed when the request has a body or its context is done. The answer is that of the last attempt.
  Nothing else of the pool changes than the position.\<close>

theorem RoundTrip_reference:
  assumes "members p \<noteq> []" and "length (members p) < 2 ^ 64" and "can_perform env (members p)"
  shows "let order = rotate (unat (nextPos p)) (members p);
             made = reference_walk env scheme req order
         in pool_RoundTrip env scheme req p =
              (p\<lparr>nextPos := nextPos p + 1\<rparr>,
               Some (\<lparr>wk_attempts = map snd made, wk_reasons = reasons env made\<rparr>,
                     answer (snd (snd (snd (last made)))))) \<and>
            made \<noteq> [] \<and> map (\<lambda>x. fst (snd x)) made = take (length made) order"
  using pool_RoundTrip_reference [OF assms, of scheme req] assms(1)
    reference_walk_backends [of env scheme req "rotate (unat (nextPos p)) (members p)"]
  by (simp add: Let_def)

definition demo_env :: transport_env where
  "demo_env =
     newReverseProxy ''http''
       (\<lambda>i req. if rq_urlHost req = ''a:80'' then Inl (ConnectError (ErrText ''connection refused''))
                else Inr (newResponse 200 (rq_urlHost req)))
       (\<lambda>i f req. Inl (ErrText [])) (\<lambda>_. False) True (\<lambda>s. s)"

definition demo_pool :: backendPool where
  "demo_pool = \<lparr>members = [example_backend ''a'', example_backend ''b''], nextPos = 4\<rparr>"

lemma demo_can_perform: "can_perform demo_env ms"
  by (simp add: can_perform_def demo_env_def newReverseProxy_def)

theorem RoundTrip_reference_witness:
  "let made = reference_walk demo_env ''http'' (demo_request None) (rotate 4 (members demo_pool))
   in pool_RoundTrip demo_env ''http'' (demo_request None) demo_pool =
        (demo_pool\<lparr>nextPos := 5\<rparr>,
         Some (\<lparr>wk_attempts = map snd made, wk_reasons = reasons demo_env made\<rparr>,
               answer (snd (snd (snd (last made))))))"
  using RoundTrip_reference [of demo_pool demo_env "''http''" "demo_request None"] demo_can_perform
  by (simp add: demo_pool_def Let_def)

text \<open>C14: every error is counted once. Each failed attempt is counted by the transport, with its reason, and
  not again by the error handler, which counts exactly the errors that are no attempt's: a request that
  the proxy refuses before the transport, an empty pool, and a protocol upgrade that fails after a member
  has answered 101. In these cases and when the last attempt failed the handler writes a 502 with the
  error; otherwise the client receives the response of the last attempt, which is the only one that
  succeeded. The errors of \<^verbatim>\<open>httputil.ReverseProxy\<close> are its own, never those of an attempt.\<close>

theorem errors_counted_once:
  assumes "length (members p) < 2 ^ 64" and "can_perform env (members p)" and "te_counts env"
    and "\<And>e. rp_refuses rp req = Some e \<or> (\<exists>resp. rp_upgrade rp req resp = Some e) \<Longrightarrow>
           \<not> list_ex is_attemptError (chain e)"
  shows "\<exists>w counted reply. snd (proxy_serve rp env scheme req p) = Some (w, counted, reply) \<and>
    (let reason = (\<lambda>e. classifyProxyError (te_quote env) (Some e));
         bad_gateway = (\<lambda>e. Inl (502, ''bad gateway: '' @ Error (te_quote env) e));
         failures = concat (map (\<lambda>(_, _, out). case out of Inl e \<Rightarrow> [reason e] | Inr _ \<Rightarrow> []) (wk_attempts w))
     in case rp_refuses rp req of
          Some e \<Rightarrow> wk_attempts w = [] \<and> counted = [reason e] \<and> reply = bad_gateway e
        | None \<Rightarrow>
            if members p = []
            then wk_attempts w = [] \<and> counted = [''no-backend''] \<and> reply = bad_gateway ErrNoBackend
            else wk_attempts w \<noteq> [] \<and>
              (\<forall>b a out. (b, a, out) \<in> set (butlast (wk_attempts w)) \<longrightarrow> (\<exists>e. out = Inl e)) \<and>
              (case snd (snd (last (wk_attempts w))) of
                 Inl e \<Rightarrow> counted = failures \<and> reply = bad_gateway e
               | Inr resp \<Rightarrow>
                   (case failed_upgrade rp req resp of
                      None \<Rightarrow> counted = failures \<and> reply = Inr resp
                    | Some e \<Rightarrow> counted = failures @ [reason e] \<and> reply = bad_gateway e)))"
proof (cases "rp_refuses rp req")
  case (Some e)
  with assms(4) have "\<not> list_ex is_attemptError (chain e)" by blast
  with Some assms(3) show ?thesis by (simp add: proxy_serve_def ErrorHandler_def)
next
  case fine: None
  show ?thesis
  proof (cases "members p = []")
    case True
    then have "pool_RoundTrip env scheme req p = (p, Some (\<lparr>wk_attempts = [], wk_reasons = []\<rparr>, None, Some ErrNoBackend))"
      by (simp add: pool_RoundTrip_def rotation_empty)
    with True fine assms(3) show ?thesis
      by (simp add: proxy_serve_def ErrorHandler_def classifyProxyError_def is_attemptError_def)
  next
    case False
    define made where "made = reference_walk env scheme req (rotate (unat (nextPos p)) (members p))"
    define w where "w = \<lparr>wk_attempts = map snd made, wk_reasons = reasons env made\<rparr>"
    have walk: "wk_attempts w \<noteq> []" "\<forall>b a out. (b, a, out) \<in> set (butlast (wk_attempts w)) \<longrightarrow> (\<exists>e. out = Inl e)"
      using False reference_walk_failed by (auto simp: w_def made_def simp del: set_map)
    note counts = reasons_failures [OF assms(3), of made]
    note run = proxy_serve_reference [OF False assms(1,2) fine made_def w_def]
    have upgrade: "\<not> list_ex is_attemptError (chain e)" if "failed_upgrade rp req resp = Some e" for resp e
      using that assms(4) by (auto simp: failed_upgrade_def split: if_splits)
    show ?thesis
      using run fine False walk counts upgrade assms(3)
      by (cases "snd (snd (last (wk_attempts w)))")
        (auto simp: Let_def ErrorHandler_def w_def simp del: set_map map_map split: option.splits)
  qed
qed

text \<open>The first member of the pool refuses the connection, the second answers 101, and the upgrade fails:
  two errors, two counts.\<close>

definition upgrade_env :: transport_env where
  "upgrade_env =
     newReverseProxy ''http''
       (\<lambda>i req. if rq_urlHost req = ''a:80'' then Inl (ConnectError (ErrText ''connection refused''))
                else Inr (newResponse 101 []))
       (\<lambda>i f req. Inl (ErrText [])) (\<lambda>_. False) True (\<lambda>s. s)"

definition upgrade_proxy :: reverse_proxy where
  "upgrade_proxy =
     \<lparr>rp_refuses = (\<lambda>_. None),
      rp_upgrade = (\<lambda>_ _. Some (ErrText ''backend tried to switch protocol''))\<rparr>"

lemma upgrade_run:
  "map_option (\<lambda>(w, counted, _). (length (wk_attempts w), counted))
     (snd (proxy_serve upgrade_proxy upgrade_env ''http'' (demo_request None) demo_pool)) =
   Some (2, [''connection-refused'', ''other''])"
  by code_simp

theorem errors_counted_once_witness:
  "\<exists>w counted reply.
     snd (proxy_serve upgrade_proxy upgrade_env ''http'' (demo_request None) demo_pool) = Some (w, counted, reply) \<and>
     length (wk_attempts w) = 2 \<and> counted = [''connection-refused'', ''other''] \<and>
     (\<forall>b a out. (b, a, out) \<in> set (butlast (wk_attempts w)) \<longrightarrow> (\<exists>e. out = Inl e))"
proof -
  have "can_perform upgrade_env ms" for ms by (simp add: can_perform_def upgrade_env_def newReverseProxy_def)
  note counted = errors_counted_once [of demo_pool upgrade_env upgrade_proxy "demo_request None" "''http''", OF _ this]
  show ?thesis
    using counted upgrade_run
    by (auto simp: upgrade_proxy_def upgrade_env_def newReverseProxy_def demo_pool_def is_attemptError_def Let_def)
qed

text \<open>C5: trying another member never runs a request twice. If Lambda did not run a function whenever
  the call was refused with one of the three codes, or the connection was not established, then of
  all the functions a request is offered to at most one has run.\<close>

theorem at_most_one_run:
  assumes "members p \<noteq> []" and "length (members p) < 2 ^ 64"
    and "\<And>b. b \<in> set (members p) \<Longrightarrow> b_invoker b \<noteq> None"
    and "\<And>i f r. te_invoke env i f r = snd (invoker_RoundTrip cd (api i) f r)"
    and "\<And>i inp err. api i inp = Inl err \<Longrightarrow> functionDidNotRun err \<or> isConnectError err \<Longrightarrow> \<not> did_run i inp"
  shows "\<exists>w reply. snd (pool_RoundTrip env scheme req p) = Some (w, reply) \<and>
           (let tried = map (\<lambda>(b, r, _). (the (b_invoker b), r)) (wk_attempts w);
                calls = (\<lambda>i. case tried ! i of (f, r) \<Rightarrow> fst (invoker_RoundTrip cd (api i) f r))
            in card {i. i < length tried \<and> (\<exists>inp. inp \<in> set (calls i) \<and> did_run i inp)} \<le> 1)"
proof -
  let ?order = "rotate (unat (nextPos p)) (members p)"
  let ?made = "reference_walk env scheme req ?order"
  from assms(3) have perf: "can_perform env (members p)" by (simp add: can_perform_def list_all_iff)
  obtain w reply where run: "snd (pool_RoundTrip env scheme req p) = Some (w, reply)" and w: "wk_attempts w = map snd ?made"
    using pool_RoundTrip_reference [OF assms(1,2) perf, of scheme req] by (simp add: Let_def)
  define tried where "tried = map (\<lambda>(b, r, _). (the (b_invoker b), r)) (wk_attempts w)"
  define calls where "calls = (\<lambda>i. case tried ! i of (f, r) \<Rightarrow> fst (invoker_RoundTrip cd (api i) f r))"
  have len: "length tried = length ?made" by (simp add: tried_def w)
  have "\<not> did_run i inp" if i: "Suc i < length tried" and "inp \<in> set (calls i)" for i inp
  proof -
    from i len have i': "Suc i < length ?made" by simp
    let ?b = "?order ! i"
    have nth: "?made ! i = (i, ?b, attempt_request scheme ?b req, outcome env i ?b (attempt_request scheme ?b req))"
      and "i < length ?order" using reference_walk_nth [of i env scheme req ?order] i' by simp_all
    then have "?b \<in> set (members p)" by (metis nth_mem set_rotate)
    with assms(3) obtain f where f: "b_invoker ?b = Some f" by blast
    let ?rt = "invoker_RoundTrip cd (api i) f (attempt_request scheme ?b req)"
    have "outcome env i ?b (attempt_request scheme ?b req) = snd ?rt" by (simp add: outcome_def f assms(4))
    with reference_walk_goes_on [OF i'] nth obtain e where e: "snd ?rt = Inl e" "isConnectError e"
      by (auto simp: goes_on_def split: sum.splits)
    have "calls i = fst ?rt" using i' nth f by (simp add: calls_def tried_def w)
    with e have "?rt = (calls i, Inl e)" by (simp add: prod_eq_iff)
    from invoker_connect [OF this e(2)] obtain inp' err where "calls i = [inp']" "api i inp' = Inl err"
      "functionDidNotRun err \<or> isConnectError err" by blast
    with that(2) assms(5) [of i inp' err] show ?thesis by simp
  qed
  then have stop: "Suc i = length tried" if "i < length tried" "inp \<in> set (calls i)" "did_run i inp" for i inp
    using that by (metis Suc_lessI)
  have "{i. i < length tried \<and> (\<exists>inp. inp \<in> set (calls i) \<and> did_run i inp)} \<subseteq> {length tried - 1}" (is "?ran \<subseteq> _")
    by (auto dest: stop [symmetric])
  then have "card ?ran \<le> card {length tried - 1}" by (intro card_mono) simp_all
  then have "card ?ran \<le> 1" by simp
  with run show ?thesis unfolding Let_def tried_def calls_def by blast
qed

definition demo_fn_pool :: backendPool where
  "demo_fn_pool =
     \<lparr>members = map (\<lambda>n. example_backend n\<lparr>b_invoker := Some \<lparr>fi_arn = n, fi_qualifier = []\<rparr>\<rparr>) [''f'', ''g''], nextPos = 0\<rparr>"

text \<open>The first function is throttled, the second runs.\<close>

definition demo_api :: "nat \<Rightarrow> InvokeInput \<Rightarrow> goerr + InvokeOutput" where
  "demo_api i inp =
     (if ii_functionName inp = ''f'' then Inl (Wrapped ''operation error'' (ApiError codeThrottled ''throttled''))
      else Inr \<lparr>io_functionError = None, io_payload = ''ok''\<rparr>)"

definition demo_fn_env :: transport_env where
  "demo_fn_env =
     newReverseProxy ''lambda'' (\<lambda>i r. Inl ErrNoBackend)
       (\<lambda>i f r. snd (invoker_RoundTrip demo_codecs (demo_api i) f r)) (\<lambda>_. False) True (\<lambda>s. s)"

theorem at_most_one_run_witness:
  "\<exists>w reply. snd (pool_RoundTrip demo_fn_env ''lambda'' (demo_request None) demo_fn_pool) = Some (w, reply) \<and>
     (let tried = map (\<lambda>(b, r, _). (the (b_invoker b), r)) (wk_attempts w);
          calls = (\<lambda>i. case tried ! i of (f, r) \<Rightarrow> fst (invoker_RoundTrip demo_codecs (demo_api i) f r))
      in card {i. i < length tried \<and> (\<exists>inp. inp \<in> set (calls i) \<and> ii_functionName inp = ''g'')} \<le> 1)"
  by (rule at_most_one_run [where did_run = "\<lambda>i inp. ii_functionName inp = ''g''"])
    (auto simp: demo_fn_pool_def demo_fn_env_def newReverseProxy_def demo_api_def split: if_splits)

definition resolved :: "whoisFunc option \<Rightarrow> ProxyRequest \<Rightarrow> Node option" where
  "resolved whois pr =
     (let ip = firstForwardedFor (hd_Get (pr_inHeader pr) ''X-Forwarded-For'')
      in case whois of
           None \<Rightarrow> None
         | Some lookup \<Rightarrow> if ip = [] then None else (case lookup ip of Inl _ \<Rightarrow> None | Inr node \<Rightarrow> node))"

lemma forwarding_names [simp]:
  "CanonicalHeaderKey headerNodeTags = ''Tailscale-Node-Tags''"
  "CanonicalHeaderKey headerNodeName = ''Tailscale-Node-Name''"
  "CanonicalHeaderKey ''X-Forwarded-For'' = ''X-Forwarded-For''"
  "CanonicalHeaderKey ''X-Forwarded-Host'' = ''X-Forwarded-Host''"
  "CanonicalHeaderKey ''X-Forwarded-Proto'' = ''X-Forwarded-Proto''"
  by code_simp+

lemma injectNodeHeaders_header:
  "map_of (pr_outHeader (injectNodeHeaders whois pr)) =
     (map_of (pr_outHeader pr))
       (''Tailscale-Node-Tags'' :=
          (case resolved whois pr of
             Some node \<Rightarrow> if nd_isTagged node then Some [formatNodeTags (nd_tags node)] else None
           | None \<Rightarrow> None),
        ''Tailscale-Node-Name'' := map_option (\<lambda>node. [nd_computedName node]) (resolved whois pr))"
  by (auto simp: injectNodeHeaders_def resolved_def Let_def fun_eq_iff split: option.split sum.split)

text \<open>C6: the identity headers a backend sees come from the tailnet, never from the client: whatever
  headers the client sent, the rewritten request carries a node name exactly when the peer that the
  front end named in \<^verbatim>\<open>X-Forwarded-For\<close> was resolved to a node, and then the node's; and node tags
  exactly when that node is tagged, and then the node's. Every other header is the client's, save the
  three forwarding headers that are set here.\<close>

theorem node_headers_not_spoofed:
  "let out = map_of (pr_outHeader (Rewrite scheme whois pr)) in
     out headerNodeName = map_option (\<lambda>node. [nd_computedName node]) (resolved whois pr) \<and>
     out headerNodeTags =
       (case resolved whois pr of
          Some node \<Rightarrow> if nd_isTagged node then Some [formatNodeTags (nd_tags node)] else None
        | None \<Rightarrow> None) \<and>
     (\<forall>k. k \<notin> {headerNodeName, headerNodeTags, ''X-Forwarded-For'', ''X-Forwarded-Host'', ''X-Forwarded-Proto''} \<longrightarrow>
          out k = map_of (pr_outHeader pr) k)"
  unfolding Rewrite_def Let_def injectNodeHeaders_header
  by (auto simp: headerNodeName_def headerNodeTags_def resolved_def)

definition demo_whois :: whoisFunc where
  "demo_whois ip = Inr (Some \<lparr>nd_isTagged = ip = ''100.64.0.9'', nd_tags = [''tag:ci''], nd_computedName = ''laptop''\<rparr>)"

definition demo_spoof :: ProxyRequest where
  "demo_spoof =
     \<lparr>pr_inHost = ''web.ts.net'', pr_inHeader = [(''X-Forwarded-For'', [''100.64.0.7''])], pr_outScheme = [],
      pr_outHeader = [(''Tailscale-Node-Name'', [''admin'']), (''Tailscale-Node-Tags'', [''prod''])]\<rparr>"

theorem node_headers_not_spoofed_witness:
  "map_of (pr_outHeader (Rewrite ''http'' (Some demo_whois) demo_spoof)) headerNodeTags = None \<and>
   map_of (pr_outHeader (Rewrite ''http'' (Some demo_whois) demo_spoof)) headerNodeName = Some [''laptop'']"
proof -
  have "resolved (Some demo_whois) demo_spoof =
      Some \<lparr>nd_isTagged = False, nd_tags = [''tag:ci''], nd_computedName = ''laptop''\<rparr>"
    by code_simp
  with node_headers_not_spoofed [of "''http''" "Some demo_whois" demo_spoof] show ?thesis
    by (simp only: Let_def option.case option.map Node.select_convs if_False simp_thms)
qed

end
