(* ===== verification/Manager_Serving.thy ===== *)
theory Manager_Serving
  imports Registrar Transport
begin

text \<open>
  The manager and the transport together: in the states discovery can bring the manager to, a pool
  holds backends of one kind only, with or without invoker as the scheme of its service asks, and
  so a request through the proxy of a serving service is attempted at backends registered for it.
\<close>

section \<open>Calls of discovery\<close>

text \<open>The registrations discovery makes through the adapter: of a container whose labels parse, on the
  port the labels say or the host port mapped to it, and of a function.\<close>

inductive discovery_call :: "string \<Rightarrow> PServiceDef \<Rightarrow> backend \<Rightarrow> bool" where
  of_container:
    "Parse ls = Inr sd \<Longrightarrow> d = proxy_def origin (sd\<lparr>sd_port := port\<rparr>) \<Longrightarrow>
     discovery_call k d (hostport_backend now k d ip)"
| of_function:
    "f = function_def origin fn \<Longrightarrow>
     discovery_call k (function_service_def f)
       (function_backend now k f (NewFunctionInvoker (fn_arn fn) (fn_qualifier fn)))"

text \<open>So a backend has an invoker exactly when its service is one of functions.\<close>

definition kind_ok :: "PServiceDef \<Rightarrow> backend \<Rightarrow> bool" where
  "kind_ok d b \<longleftrightarrow> (pd_scheme d = SchemeLambda \<longleftrightarrow> b_invoker b \<noteq> None)"

lemma discovery_kind: "discovery_call k d b \<Longrightarrow> kind_ok d b"
proof (induction rule: discovery_call.induct)
  case (of_container ls sd d origin port k now ip)
  from of_container(1) have "sd_scheme sd \<in> {''http'', ''https''}" by (rule Parse_InrD)
  with of_container(2) show ?case by (auto simp: kind_ok_def proxy_def_def hostport_backend_def SchemeLambda_def)
qed (simp add: kind_ok_def function_service_def_def function_backend_def)

definition calls_ok :: "sys \<Rightarrow> bool" where
  "calls_ok s \<longleftrightarrow> (\<forall>t k d b. threads s t = Registering k d b \<longrightarrow> discovery_call k d b)"

text \<open>The states reached by calls of discovery.\<close>

inductive served :: "sys \<Rightarrow> bool" where
  served_start: "mc \<in> {None, Some fresh_gauges} \<Longrightarrow> served (init_sys mc)"
| served_step: "served s \<Longrightarrow> mgr_step True s s' \<Longrightarrow> calls_ok s' \<Longrightarrow> served s'"

lemma served_reach: "served s \<Longrightarrow> reach True s"
  by (induction rule: served.induct) (auto intro: reach.intros)

section \<open>Pools hold backends of one kind\<close>

definition fits :: "advertisedService \<Rightarrow> backend \<Rightarrow> bool" where
  "fits rec b \<longleftrightarrow> (as_scheme rec = SchemeLambda \<longleftrightarrow> b_invoker b \<noteq> None)"

definition pools_fit :: "Manager \<Rightarrow> bool" where
  "pools_fit m \<longleftrightarrow> (\<forall>r rec. m_recs m r = Some rec \<longrightarrow> (\<forall>b\<in>set (members (as_pool rec)). fits rec b))"

fun pc_fit :: "Manager \<Rightarrow> pc \<Rightarrow> bool" where
  "pc_fit m (Registering k d b) = kind_ok d b"
| "pc_fit m (Waiting k d b ch) = kind_ok d b"
| "pc_fit m (Listening r k b) = (\<exists>rec. m_recs m r = Some rec \<and> fits rec b)"
| "pc_fit m (Listened r k b) = (\<exists>rec. m_recs m r = Some rec \<and> fits rec b)"
| "pc_fit m _ = True"

definition kind_inv :: "sys \<Rightarrow> bool" where
  "kind_inv s \<longleftrightarrow> pools_fit (mgr s) \<and> (\<forall>t. pc_fit (mgr s) (threads s t))"

text \<open>How a critical section changes a record: the scheme stays, and the pool gains at most the
  backend \<open>x\<close>. A new record has an empty pool.\<close>

fun rec_next :: "backend option \<Rightarrow> advertisedService option \<Rightarrow> advertisedService option \<Rightarrow> bool" where
  "rec_next x (Some rec) (Some rec') \<longleftrightarrow>
     as_scheme rec' = as_scheme rec \<and>
     set (members (as_pool rec')) \<subseteq> set (members (as_pool rec)) \<union> set_option x"
| "rec_next x None (Some rec') \<longleftrightarrow> members (as_pool rec') = []"
| "rec_next x None None \<longleftrightarrow> True"
| "rec_next x (Some rec) None \<longleftrightarrow> False"

definition joins :: "(nat \<times> backend) option \<Rightarrow> nat \<Rightarrow> backend option" where
  "joins x r = (case x of Some (r', b) \<Rightarrow> if r = r' then Some b else None | None \<Rightarrow> None)"

definition evolve :: "(nat \<times> backend) option \<Rightarrow> Manager \<Rightarrow> Manager \<Rightarrow> bool" where
  "evolve x m m' \<longleftrightarrow> (\<forall>r. rec_next (joins x r) (m_recs m r) (m_recs m' r))"

lemma joins_simps [simp]: "joins None r = None" "joins (Some (r', b)) r = (if r = r' then Some b else None)"
  by (simp_all add: joins_def)

lemma rec_next_refl [simp]: "rec_next x c c"
  by (cases c) auto

lemma evolve_recs: "m_recs m' = m_recs m \<Longrightarrow> evolve x m m'"
  by (simp add: evolve_def)

lemma evolve_upd:
  assumes "m_recs m' = (m_recs m)(r := map_option f (m_recs m r))"
    and "\<And>rec. m_recs m r = Some rec \<Longrightarrow> rec_next (joins x r) (Some rec) (Some (f rec))"
  shows "evolve x m m'"
  using assms by (cases "m_recs m r") (simp_all add: evolve_def)

lemma evolve_pc:
  assumes "evolve x m m'" "pc_fit m p"
  shows "pc_fit m' p"
proof -
  have "\<exists>rec'. m_recs m' r = Some rec' \<and> fits rec' b" if "m_recs m r = Some rec" "fits rec b" for r rec b
    using assms(1) that by (cases "m_recs m' r") (auto simp: evolve_def fits_def dest!: spec [of _ r])
  with assms(2) show ?thesis by (cases p) auto
qed

lemma evolve_pools:
  assumes "evolve x m m'" and "pools_fit m"
    and "\<And>r b rec. x = Some (r, b) \<Longrightarrow> m_recs m r = Some rec \<Longrightarrow> fits rec b"
  shows "pools_fit m'"
  unfolding pools_fit_def
proof (intro allI impI ballI)
  fix r rec' b
  assume rec': "m_recs m' r = Some rec'" and b: "b \<in> set (members (as_pool rec'))"
  have next_rec: "rec_next (joins x r) (m_recs m r) (Some rec')" using assms(1) rec' by (simp add: evolve_def flip: rec')
  with b obtain rec where rec: "m_recs m r = Some rec" by (cases "m_recs m r") auto
  with next_rec b have *: "as_scheme rec' = as_scheme rec"
    and "b \<in> set (members (as_pool rec)) \<or> x = Some (r, b)"
    by (auto simp: joins_def split: option.splits if_splits)
  then have "fits rec b" using assms(2,3) rec by (auto simp: pools_fit_def)
  with * show "fits rec' b" by (simp add: fits_def)
qed

text \<open>The critical sections.\<close>

lemma close_advertised_evolve: "evolve None m (close_advertised r m)"
  by (simp add: close_advertised_def evolve_def split: option.split)

lemma close_withdrawing_evolve: "evolve None m (close_withdrawing r m)"
  by (simp add: close_withdrawing_def evolve_def split: option.split)

lemma evolve_after: "evolve x m1 m' \<Longrightarrow> m_recs m1 = m_recs m \<Longrightarrow> evolve x m m'"
  by (simp add: evolve_def)

lemma releaseLocked_evolve: "evolve None m (releaseLocked r m)"
  by (auto simp: releaseLocked_def Let_def intro: evolve_recs evolve_after [OF close_advertised_evolve] split: option.split)

lemma deregister_finish_evolve: "evolve None m (deregister_finish r n m)"
  unfolding deregister_finish_def Let_def by (rule evolve_after [OF close_withdrawing_evolve]) simp

lemma deregister_locked_evolve: "deregister_locked k m = (m', out) \<Longrightarrow> evolve None m m'"
  by (auto simp: deregister_locked_def Let_def pool_remove_eq evolve_def split: option.splits if_splits)

lemma close_locked_evolve: "close_locked m = (m', rs) \<Longrightarrow> evolve None m m'"
  by (auto simp: close_locked_def Let_def intro: evolve_recs)

lemma call_closeFn_evolve: "evolve None m (call_closeFn r m)"
  by (auto simp: call_closeFn_def intro: evolve_recs split: option.split)

lemma advertise_locked_evolve:
  "advertise_locked r k b m = (m', ok) \<Longrightarrow> evolve (Some (r, b)) m m' \<or> evolve None m m'"
  using releaseLocked_evolve [of m r]
  by (auto simp: advertise_locked_def Let_def pool_add_eq evolve_def close_advertised_def split: option.splits if_splits)

text \<open>A registration either joins the pool of a record with the scheme of its definition, or makes a
  record with that scheme, or leaves the records alone.\<close>

lemma register_locked_evolve:
  assumes "register_locked k d b m = (m', out)"
    and "\<forall>n r. map_of (m_services m) n = Some r \<longrightarrow> (\<exists>rec. m_recs m r = Some rec \<and> as_name rec = n)"
    and "m_recs m (m_next m) = None" and "kind_ok d b"
  shows "\<exists>x. evolve x m m' \<and> (\<forall>r b' rec. x = Some (r, b') \<longrightarrow> m_recs m r = Some rec \<longrightarrow> fits rec b') \<and>
    pc_fit m' (after_register k d b out)"
  using assms(1,2)
proof (cases rule: register_locked_cases)
  case claim
  then have "evolve None m m'" using assms(3) by (simp add: evolve_def claimed_def)
  moreover have "fits (claimed d) b" using assms(4) by (simp add: kind_ok_def fits_def claimed_def)
  ultimately show ?thesis using claim(4,5) by (intro exI [of _ None]) (simp add: after_register_def)
next
  case (join r rec)
  then have "evolve (Some (r, b)) m m'" by (simp add: evolve_def joined_def)
  moreover have "fits rec b" using join(7) assms(4) by (simp add: conflictWith_None kind_ok_def fits_def)
  ultimately show ?thesis
    using join(4,8) by (intro exI [of _ "Some (r, b)"]) (simp add: after_register_def)
qed (use assms(4) in \<open>auto simp: after_register_def intro!: exI [of _ None] evolve_recs\<close>)

lemma kind_move:
  assumes "kind_inv s" and "evolve x (mgr s) (mgr s')"
    and "\<And>r b rec. x = Some (r, b) \<Longrightarrow> m_recs (mgr s) r = Some rec \<Longrightarrow> fits rec b"
    and "threads s' = (threads s)(t := p)" and "pc_fit (mgr s') p"
  shows "kind_inv s'"
  using assms evolve_pools [OF assms(2)] evolve_pc [OF assms(2)] by (auto simp: kind_inv_def)

lemma kind_go:
  assumes "kind_inv s" and "threads s1 = threads s" and "evolve None (mgr s) (mgr s1)" and "\<And>m. pc_fit m p"
  shows "kind_inv (go t p s1)"
  by (rule kind_move [where s=s and x=None and t=t and p=p]) (use assms in simp_all)

lemmas locked_evolve =
  releaseLocked_evolve deregister_finish_evolve call_closeFn_evolve deregister_locked_evolve close_locked_evolve

lemma kind_step:
  assumes "mgr_step True s s'" and inv: "sys_inv st s" and "kind_inv s" and "calls_ok s'"
  shows "kind_inv s'"
  using assms(1)
proof cases
  case (call_register t k b d)
  then have "threads s' t = Registering k d b" by simp
  with assms(4) have "kind_ok d b" unfolding calls_ok_def by (blast intro: discovery_kind)
  then show ?thesis
    by (intro kind_move [of s None s' t "Registering k d b", OF assms(3)]) (simp_all add: call_register(1) evolve_recs)
next
  case (do_register t k d b m' out)
  from assms(3) have "pc_fit (mgr s) (threads s t)" by (simp add: kind_inv_def)
  with do_register(2) have "kind_ok d b" by simp
  from register_locked_evolve [OF do_register(3) index_recs [OF inv] next_unused [OF inv] this]
  obtain x where "evolve x (mgr s) m'" "\<And>r b' rec. x = Some (r, b') \<Longrightarrow> m_recs (mgr s) r = Some rec \<Longrightarrow> fits rec b'"
    "pc_fit m' (after_register k d b out)" by blast
  then show ?thesis
    by (intro kind_move [of s x s' t "after_register k d b out", OF assms(3)]) (simp_all add: do_register(1))
next
  case (do_publish t r k b m' ok)
  from assms(3) have "pc_fit (mgr s) (threads s t)" by (simp add: kind_inv_def)
  with do_publish(2) have fit: "m_recs (mgr s) r = Some rec \<Longrightarrow> fits rec b" for rec by simp
  from advertise_locked_evolve [OF do_publish(3)] obtain x where "evolve x (mgr s) m'" "x \<in> {None, Some (r, b)}"
    by blast
  with fit show ?thesis
    by (intro kind_move [of s x s' t "threads s' t", OF assms(3)]) (auto simp: do_publish(1))
next
  case (wake t k d b ch)
  from assms(3) have "pc_fit (mgr s) (threads s t)" by (simp add: kind_inv_def)
  with wake show ?thesis
    by (intro kind_move [of s None s' t "Registering k d b", OF assms(3)]) (simp_all add: evolve_recs)
next
  case (listen_ok t r k b)
  from assms(3) have "pc_fit (mgr s) (threads s t)" by (simp add: kind_inv_def)
  with listen_ok show ?thesis
    by (intro kind_move [of s None s' t "Listened r k b", OF assms(3)]) (simp_all add: evolve_recs)
qed (auto simp: locked_evolve evolve_recs abandon_def intro!: kind_go [OF assms(3)] split: option.split)

lemma served_kind: "served s \<Longrightarrow> kind_inv s"
proof (induction rule: served.induct)
  case (served_start mc)
  show ?case by (simp add: kind_inv_def pools_fit_def init_sys_def NewManager_def)
next
  case (served_step s s')
  obtain st where inv: "sys_inv st s" using reach_inv [OF served_reach [OF served_step(1)]] ..
  show ?case by (rule kind_step [OF served_step(2) inv served_step(4,3)])
qed

section \<open>Requests\<close>

text \<open>So the proxy of a service can always make its attempts: a member without invoker is only ever
  in the pool of a service whose proxy has a transport.\<close>

lemma served_can_perform:
  assumes "served s" and "m_recs (mgr s) r = Some rec"
  shows "can_perform (newReverseProxy (as_scheme rec) base invoke ctxDone counts quote) (members (as_pool rec))"
  using served_kind [OF assms(1)] assms(2)
  by (auto simp: kind_inv_def pools_fit_def fits_def can_perform_def newReverseProxy_def SchemeLambda_def list_all_iff)

lemma serving_members:
  assumes "reach disc s" "map_of (m_services (mgr s)) n = Some r" "m_recs (mgr s) r = Some rec" "serving (mgr s) r"
  shows "members (as_pool rec) \<noteq> [] \<and> r \<in> opened s"
proof -
  obtain st where inv: "sys_inv st s" using reach_inv [OF assms(1)] ..
  then have ok: "rec_ok st s r" by (simp add: sys_inv_def)
  from serving_stage [OF inv assms(2)] assms(4) have "st r = Serving" by simp
  with ok assms(3) show ?thesis by (simp add: rec_ok_def rec_fits_def)
qed

text \<open>The members a walk tries are members of the pool, and none twice.\<close>

lemma reference_walk_keys:
  assumes "distinct (map b_key ms)"
  shows "distinct (map (\<lambda>x. b_key (fst (snd x))) (reference_walk env scheme req (rotate i ms)))"
    and "x \<in> set (reference_walk env scheme req (rotate i ms)) \<Longrightarrow> fst (snd x) \<in> set ms"
proof -
  let ?made = "reference_walk env scheme req (rotate i ms)"
  have keys: "map (\<lambda>x. fst (snd x)) ?made = take (length ?made) (rotate i ms)" by (rule reference_walk_backends)
  have "map (\<lambda>x. b_key (fst (snd x))) ?made = take (length ?made) (rotate i (map b_key ms))"
    using arg_cong [OF keys, of "map b_key"] by (simp add: comp_def take_map rotate_map)
  with assms show "distinct (map (\<lambda>x. b_key (fst (snd x))) ?made)" by simp
  assume "x \<in> set ?made"
  then have "fst (snd x) \<in> set (map (\<lambda>x. fst (snd x)) ?made)" by simp
  then show "fst (snd x) \<in> set ms" unfolding keys by (auto dest: in_set_takeD)
qed

text \<open>C3: a request to a service reaches a backend registered for it. In every state that registrations of the
  form discovery makes can bring the manager to, with no two operations on one key at the same time, and
  with whatever position other requests have left: a request through the proxy of a service that is
  serving is attempted at least once, only at backends whose keys are registered for that service at that
  moment, at none twice, never with a missing transport, and the answer is that of the last of them.
  (Two concurrent registrations of one key break it, as \<open>Manager_Race\<close> shows.)\<close>

theorem requests_reach_registered:
  assumes "served s" and "map_of (m_services (mgr s)) n = Some r" and "m_recs (mgr s) r = Some rec"
    and "serving (mgr s) r" and "length (members (as_pool rec)) < 2 ^ 64"
  shows "\<exists>w.
    snd (pool_RoundTrip (newReverseProxy (as_scheme rec) base invoke ctxDone counts quote) (as_scheme rec) req
           ((as_pool rec)\<lparr>nextPos := q\<rparr>)) = Some (w, answer (snd (snd (last (wk_attempts w))))) \<and>
    wk_attempts w \<noteq> [] \<and>
    distinct (map (\<lambda>x. b_key (fst x)) (wk_attempts w)) \<and>
    (\<forall>x\<in>set (wk_attempts w). map_of (m_byKey (mgr s)) (b_key (fst x)) = Some n)"
proof -
  let ?env = "newReverseProxy (as_scheme rec) base invoke ctxDone counts quote"
  let ?ms = "members (as_pool rec)" and ?p = "(as_pool rec)\<lparr>nextPos := q\<rparr>"
  let ?made = "reference_walk ?env (as_scheme rec) req (rotate (unat q) ?ms)"
  have reach: "reach True s" by (rule served_reach [OF assms(1)])
  have ms: "?ms \<noteq> []" "r \<in> opened s" using serving_members [OF reach assms(2-4)] by simp_all
  have keys: "distinct (map b_key ?ms)" using pool_keys_distinct [OF reach TrueI assms(2,3)] by (simp add: pool_keys_def)
  have registered: "map_of (m_byKey (mgr s)) (b_key b) = Some n" if "b \<in> set ?ms" for b
    using that assms(2-4) ms(2) unfolding registered_iff_member [OF reach] by (auto simp: pool_keys_def)
  have run: "snd (pool_RoundTrip ?env (as_scheme rec) req ?p) =
      Some (\<lparr>wk_attempts = map snd ?made, wk_reasons = reasons ?env ?made\<rparr>, answer (snd (snd (snd (last ?made)))))"
    using pool_RoundTrip_reference [of ?p ?env "as_scheme rec" req] ms assms(5)
      served_can_perform [OF assms(1,3), of base invoke ctxDone counts quote] by (simp add: Let_def)
  show ?thesis
    by (rule exI [of _ "\<lparr>wk_attempts = map snd ?made, wk_reasons = reasons ?env ?made\<rparr>"])
      (use run ms(1) reference_walk_keys [OF keys] registered in \<open>auto simp: comp_def last_map\<close>)
qed

text \<open>The run of one registration is one of discovery's.\<close>

lemma demo_discovered: "discovery_call ''a'' demo_def (example_backend ''a'')"
proof -
  have parse: "Parse (Some [(Enable, ''true''), (Service, ''svc:web''), (Port, ''80''), (Network, ''web'')]) =
      Inr \<lparr>sd_service = ''svc:web'', sd_port = 80, sd_network = ''web'', sd_scheme = ''http'', sd_caps = []\<rparr>"
    by (simp add: Parse_def m_str_def label_names ValidateService_def has_prefix_def parse_uint_def is_digit_def
        less_eq_char_def digit_val_def ParseCaps_def)
  have b: "example_backend ''a'' = hostport_backend 0 ''a'' demo_def ''a''"
    unfolding example_backend_def demo_def_def by code_simp
  show ?thesis unfolding b by (rule of_container [OF parse]) (simp add: demo_def_def proxy_def_def)
qed

lemma demo_calls: "calls_ok (demo_state m p op)" if "\<And>k d b. p = Registering k d b \<Longrightarrow> discovery_call k d b"
  using that by (auto simp: calls_ok_def)

lemma demo_served: "served (demo_state demo_mgr Idle {0})"
proof -
  have "served (demo_fresh Idle)" using served_start [of "Some fresh_gauges"] by (simp add: demo_start)
  then have "served (demo_fresh (Registering ''a'' demo_def (example_backend ''a'')))"
    by (rule served_step [OF _ demo_call demo_calls]) (simp add: demo_discovered)
  then have "served demo_listening"
    by (rule served_step [OF _ demo_claim]) (unfold demo_listening_def, rule demo_calls, simp)
  then have "served (demo_state (mgr demo_listening) (Listened 0 ''a'' (example_backend ''a'')) {0})"
    by (rule served_step [OF _ demo_listen demo_calls]) simp
  then have "served (demo_state demo_mgr (Returned ''a'' None) {0})"
    by (rule served_step [OF _ demo_publish demo_calls]) simp
  then show ?thesis by (rule served_step [OF _ demo_return demo_calls]) simp
qed

theorem requests_reach_registered_witness:
  "\<exists>w.
    snd (pool_RoundTrip (newReverseProxy ''http'' (\<lambda>_ _. Inr (newResponse 200 [])) (\<lambda>_ _ _. Inl (ErrText []))
           (\<lambda>_. False) True (\<lambda>s. s)) ''http'' (demo_request None) ((as_pool demo_rec)\<lparr>nextPos := 7\<rparr>)) =
      Some (w, answer (snd (snd (last (wk_attempts w))))) \<and>
    wk_attempts w \<noteq> [] \<and>
    distinct (map (\<lambda>x. b_key (fst x)) (wk_attempts w)) \<and>
    (\<forall>x\<in>set (wk_attempts w). map_of (m_byKey demo_mgr) (b_key (fst x)) = Some ''svc:web'')"
  using requests_reach_registered [OF demo_served, of "''svc:web''" 0 demo_rec "\<lambda>_ _. Inr (newResponse 200 [])"
      "\<lambda>_ _ _. Inl (ErrText [])" "\<lambda>_. False" True "\<lambda>s. s" "demo_request None" 7]
  by (simp add: demo_mgr_def demo_rec_def serving_def)

end
