(* ===== verification/Manager_Refinement.thy ===== *)
theory Manager_Refinement
  imports Manager_Sequential
begin

text \<open>
  The manager under concurrency as an atomic map from keys to the service and backend each is
  registered for: a simulation from its critical sections to the steps of the map.
\<close>

section \<open>The specification\<close>

text \<open>What the manager is, to its callers: a map from keys to the service and backend each is registered
  for, which can be closed. Every operation is one step.\<close>

record spec =
  sp_keys :: "string \<rightharpoonup> string \<times> backend"
  sp_closed :: bool

datatype action =
    Internal
  | Registered string "string \<times> backend"
  | Refused string mgr_error
  | Removed string
  | Closed

inductive spec_step :: "spec \<Rightarrow> action \<Rightarrow> spec \<Rightarrow> bool" where
  internal: "spec_step x Internal x"
| added: "\<not> sp_closed x \<Longrightarrow> sp_keys x k = None \<Longrightarrow>
    spec_step x (Registered k target) (x\<lparr>sp_keys := (sp_keys x)(k \<mapsto> target)\<rparr>)"
| known: "sp_keys x k \<noteq> None \<Longrightarrow> spec_step x (Registered k target) x"
| refused: "sp_keys x k = None \<Longrightarrow> spec_step x (Refused k err) x"
| removed: "spec_step x (Removed k) (x\<lparr>sp_keys := (sp_keys x)(k := None)\<rparr>)"
| closed: "spec_step x Closed \<lparr>sp_keys = Map.empty, sp_closed = True\<rparr>"

inductive_cases spec_stepE: "spec_step x act x'"

definition spec_of :: "sys \<Rightarrow> spec" where
  "spec_of s = \<lparr>sp_keys = backend_of (mgr s), sp_closed = m_shutdown (mgr s)\<rparr>"

text \<open>The key and target of the registration a goroutine is in.\<close>

fun call_target :: "Manager \<Rightarrow> pc \<Rightarrow> (string \<times> string \<times> backend) option" where
  "call_target m (Registering k d b) = Some (k, pd_service d, b)"
| "call_target m (Listened r k b) = Some (k, name_of m r, b)"
| "call_target m _ = None"

text \<open>The action a step of the manager stands for: a registration that is answered in this step was
  performed in it, with the answer given; a deregistration and a shutdown are performed in their first
  critical section.\<close>

definition performs :: "sys \<Rightarrow> action \<Rightarrow> sys \<Rightarrow> bool" where
  "performs s act s' \<longleftrightarrow>
     (case act of
        Internal \<Rightarrow> \<forall>t k e. threads s' t = Returned k e \<longrightarrow> threads s t = Returned k e
      | Registered k target \<Rightarrow>
          \<exists>t. call_target (mgr s) (threads s t) = Some (k, target) \<and> threads s' = (threads s)(t := Returned k None)
      | Refused k err \<Rightarrow>
          \<exists>t. key_of (threads s t) = Some k \<and> threads s' = (threads s)(t := Returned k (Some err))
      | Removed k \<Rightarrow>
          \<exists>t p. threads s t = Idle \<and> threads s' = (threads s)(t := p) \<and> (p = Idle \<or> (\<exists>r n. p = TearDown r n k))
      | Closed \<Rightarrow> \<exists>t rs. threads s t = Idle \<and> threads s' = (threads s)(t := Closing rs))"

section \<open>Lemmas\<close>

lemma backend_of_registered:
  assumes "sys_inv st s"
  shows "backend_of (mgr s) k = None \<longleftrightarrow> map_of (m_byKey (mgr s)) k = None"
proof (cases "map_of (m_byKey (mgr s)) k")
  case None
  then show ?thesis by (simp add: backend_of_def)
next
  case (Some n)
  from byKey_serving [OF assms this] obtain r rec where "map_of (m_services (mgr s)) n = Some r"
    "m_recs (mgr s) r = Some rec" "k \<in> set (pool_keys (as_pool rec))" .
  with Some show ?thesis by (auto simp: backend_of_def pool_keys_def find_None_iff)
qed

lemma shutdown_unregistered: "sys_inv st s \<Longrightarrow> m_shutdown (mgr s) \<Longrightarrow> map_of (m_byKey (mgr s)) k = None"
  by (metis byKey_serving not_None_eq)

text \<open>A step that keeps the keys and lets no pool change keeps what every key is registered for.\<close>

lemma backend_of_shrink:
  assumes inv': "sys_inv st' s'" and "m_byKey (mgr s') = m_byKey (mgr s)"
    and svc: "\<And>n r. map_of (m_services (mgr s')) n = Some r \<Longrightarrow> map_of (m_services (mgr s)) n = Some r"
    and recs: "\<And>r rec. m_recs (mgr s') r = Some rec \<Longrightarrow> \<exists>c. m_recs (mgr s) r = Some c \<and> as_pool c = as_pool rec"
  shows "backend_of (mgr s') = backend_of (mgr s)"
proof
  fix k show "backend_of (mgr s') k = backend_of (mgr s) k"
  proof (cases "map_of (m_byKey (mgr s')) k")
    case None
    then show ?thesis using assms(2) by (simp add: backend_of_def)
  next
    case (Some n)
    from byKey_serving [OF inv' this] obtain r rec where r: "map_of (m_services (mgr s')) n = Some r"
      "m_recs (mgr s') r = Some rec" .
    from recs [OF r(2)] obtain c where "m_recs (mgr s) r = Some c" "as_pool c = as_pool rec" by blast
    with r svc [OF r(1)] Some assms(2) show ?thesis by (simp add: backend_of_def)
  qed
qed

lemma spec_of_shrink:
  assumes "sys_inv st' s'" "m_byKey (mgr s') = m_byKey (mgr s)" "m_shutdown (mgr s') = m_shutdown (mgr s)"
    and "\<And>n r. map_of (m_services (mgr s')) n = Some r \<Longrightarrow> map_of (m_services (mgr s)) n = Some r"
    and "\<And>r rec. m_recs (mgr s') r = Some rec \<Longrightarrow> \<exists>c. m_recs (mgr s) r = Some c \<and> as_pool c = as_pool rec"
  shows "spec_of s' = spec_of s"
  using backend_of_shrink [OF assms(1,2,4,5)] assms(3) by (simp add: spec_of_def)

lemma internal_performs:
  "threads s' = (threads s)(t := p) \<Longrightarrow> (\<And>k e. p \<noteq> Returned k e) \<Longrightarrow> performs s Internal s'"
  by (auto simp: performs_def split: if_splits)

lemma refine_internal:
  assumes "spec_of s' = spec_of s" "threads s' = (threads s)(t := p)" "\<And>k e. p \<noteq> Returned k e"
  shows "\<exists>act. spec_step (spec_of s) act (spec_of s') \<and> performs s act s'"
  using internal_performs [OF assms(2,3)] assms(1) by (auto intro: spec_step.internal)

lemma spec_of_go [simp]: "spec_of (go t p s) = spec_of s" "spec_of (close_listener r s) = spec_of s"
  "spec_of (s\<lparr>mgr := call_closeFn r (mgr s)\<rparr>) = spec_of s" "spec_of (s\<lparr>opened := op\<rparr>) = spec_of s"
  by (simp_all add: spec_of_def backend_of_def fun_eq_iff cong: option.case_cong)

lemma refine_go:
  "threads s1 = threads s \<Longrightarrow> (\<And>k e. p \<noteq> Returned k e) \<Longrightarrow>
     \<exists>act. spec_step (spec_of s) act (spec_of s) \<and> performs s act (go t p s1)"
  using internal_performs [of "go t p s1" s t p] by (auto intro: spec_step.internal)

lemma refine_refused:
  assumes "spec_of s' = spec_of s" "threads s' = (threads s)(t := Returned k (Some e))" "key_of (threads s t) = Some k"
    "backend_of (mgr s) k = None"
  shows "\<exists>act. spec_step (spec_of s) act (spec_of s') \<and> performs s act s'"
proof -
  have "spec_step (spec_of s) (Refused k e) (spec_of s')"
    using spec_step.refused [of "spec_of s" k e] assms(1,4) by (simp add: spec_of_def)
  moreover have "performs s (Refused k e) s'" using assms(2,3) by (auto simp: performs_def)
  ultimately show ?thesis by blast
qed

lemma refine_registered:
  assumes "threads s' = (threads s)(t := Returned k None)" "call_target (mgr s) (threads s t) = Some (k, target)"
    and "backend_of (mgr s) k \<noteq> None \<and> spec_of s' = spec_of s \<or>
      backend_of (mgr s) k = None \<and> \<not> m_shutdown (mgr s) \<and> \<not> m_shutdown (mgr s') \<and>
      backend_of (mgr s') = (backend_of (mgr s))(k \<mapsto> target)"
  shows "\<exists>act. spec_step (spec_of s) act (spec_of s') \<and> performs s act s'"
proof -
  have "spec_step (spec_of s) (Registered k target) (spec_of s')"
    using assms(3) spec_step.added [of "spec_of s" k target] spec_step.known [of "spec_of s" k target]
    by (auto simp: spec_of_def)
  moreover have "performs s (Registered k target) s'" using assms(1,2) by (auto simp: performs_def)
  ultimately show ?thesis by blast
qed

section \<open>The critical sections\<close>

lemma refine_register:
  assumes inv: "sys_inv st s" and own: "own_inv s" and pc: "threads s t = Registering k d b"
    and reg: "register_locked k d b (mgr s) = (m', out)"
    and s': "s' = go t (after_register k d b out) (s\<lparr>mgr := m'\<rparr>)"
  shows "\<exists>act. spec_step (spec_of s) act (spec_of s') \<and> performs s act s'"
  using reg index_recs [OF inv]
proof (cases rule: register_locked_cases)
  case shutdown
  then show ?thesis
    using backend_of_registered [OF inv] shutdown_unregistered [OF inv]
    by (intro refine_refused [of s' s t k ErrShuttingDown]) (simp_all add: s' spec_of_def after_register_def pc)
next
  case known
  then show ?thesis
    using backend_of_registered [OF inv]
    by (intro refine_registered [of s' s t k "(pd_service d, b)"]) (simp_all add: s' spec_of_def after_register_def pc)
next
  case claim
  have "backend_of m' = backend_of (mgr s)"
  proof (rule backend_of_drop [where n = "pd_service d"])
    show "map_of (m_byKey (mgr s)) k' \<noteq> Some (pd_service d)" for k'
      using byKey_serving [OF inv] claim(3) by (metis option.distinct(1))
    show "m_recs m' r = m_recs (mgr s) r" if "n' \<noteq> pd_service d" "map_of (m_services (mgr s)) n' = Some r" for n' r
      using that claim(5) index_lookup [OF inv that(2)] inv
      by (auto simp: sys_inv_def rec_ok_def rec_fits_def)
  qed (use claim(5) in auto)
  then show ?thesis using claim
    by (intro refine_internal [of s' s t "Listening (m_next (mgr s)) k b"]) (simp_all add: s' spec_of_def after_register_def)
next
  case (wait r rec ch)
  then show ?thesis
    by (intro refine_internal [of s' s t "Waiting k d b ch"]) (simp_all add: s' spec_of_def after_register_def)
next
  case (conflict r rec e)
  then show ?thesis
    using backend_of_registered [OF inv]
    by (intro refine_refused [of s' s t k e]) (simp_all add: s' spec_of_def after_register_def pc)
next
  case (join r rec)
  have "pools_owned (mgr s)" using own by (simp add: own_inv_def)
  moreover have "b_key b = k" using pc_in [OF inv pc] by simp
  ultimately have "backend_of m' = (backend_of (mgr s))(k \<mapsto> (pd_service d, b))"
    by (rule backend_of_add [OF _ join(2) _ join(3,4) index_unique [OF inv join(3)], where rec' = "joined b rec"])
      (use join in \<open>simp_all add: joined_def\<close>)
  then show ?thesis
    using join backend_of_registered [OF inv]
    by (intro refine_registered [of s' s t k "(pd_service d, b)"]) (simp_all add: s' after_register_def pc)
qed

lemma refine_publish:
  assumes inv: "sys_inv st s" and own: "own_inv s" and pc: "threads s t = Listened r k b"
    and pub: "advertise_locked r k b (mgr s) = (m', ok)"
    and s': "s' = go t (if ok then Returned k None else Unlisten r k) (s\<lparr>mgr := m'\<rparr>)" and inv': "sys_inv st' s'"
  shows "\<exists>act. spec_step (spec_of s) act (spec_of s') \<and> performs s act s'"
proof (cases "m_shutdown (mgr s)")
  case True
  with pub have m': "m' = releaseLocked r (mgr s)" "\<not> ok" by (auto simp: advertise_locked_def)
  have "spec_of s' = spec_of s"
    by (rule spec_of_shrink [OF inv']) (use m' in \<open>auto simp: s' releaseLocked_frames(1,2) dest: releaseLocked_frames(3,4)\<close>)
  then show ?thesis using m'(2) by (intro refine_internal [of s' s t "Unlisten r k"]) (simp_all add: s')
next
  case False
  have st: "st r = Opened t" using tied_in [OF inv, of t r] pc by simp
  with stage_rec [OF inv, of r] obtain rec where rec: "m_recs (mgr s) r = Some rec"
    "rec_fits (Opened t) (mgr s) r (closes s r) rec" by auto
  then have adv: "\<not> as_advertised rec" and n: "map_of (m_services (mgr s)) (as_name rec) = Some r"
    using False by (auto simp: rec_fits_def pending_def held_def)
  from rec(1) False adv obtain m1 where m1: "advertise_locked r k b (mgr s) = (m1, True)"
    "m_recs m1 = (m_recs (mgr s))(r \<mapsto> published b rec)" "m_byKey m1 = m_put k (as_name rec) (m_byKey (mgr s))"
    "m_services m1 = m_services (mgr s)" "m_shutdown m1 = m_shutdown (mgr s)" by (rule advertise_locked_ok)
  have eq: "m' = m1" "ok" using m1(1) pub by simp_all
  have "pc_key_ok (mgr s) (threads s t)" "pools_owned (mgr s)" using own by (auto simp: own_inv_def)
  then have k: "map_of (m_byKey (mgr s)) k = None" and own': "pools_owned (mgr s)" by (simp_all add: pc)
  have b: "b_key b = k" using pc_in [OF inv pc] by simp
  have "backend_of m' = (backend_of (mgr s))(k \<mapsto> (as_name rec, b))"
    by (rule backend_of_add [OF own' k b n rec(1) index_unique [OF inv n], where rec' = "published b rec"])
      (use m1 eq in \<open>simp_all add: published_def\<close>)
  moreover have "name_of (mgr s) r = as_name rec" using rec(1) by (simp add: name_of_def)
  ultimately show ?thesis
    using k False m1(5) eq backend_of_registered [OF inv]
    by (intro refine_registered [of s' s t k "(as_name rec, b)"]) (simp_all add: s' pc)
qed

lemma refine_deregister:
  assumes inv: "sys_inv st s" and pc: "threads s t = Idle" and dereg: "deregister_locked k (mgr s) = (m', out)"
    and s': "s' = go t (case out of None \<Rightarrow> Idle | Some (r, n) \<Rightarrow> TearDown r n k) (s\<lparr>mgr := m'\<rparr>)"
  shows "\<exists>act. spec_step (spec_of s) act (spec_of s') \<and> performs s act s'"
proof -
  have "backend_of m' = (backend_of (mgr s))(k := None) \<and> m_shutdown m' = m_shutdown (mgr s)"
    using dereg byKey_idx [OF inv]
  proof (cases rule: deregister_locked_cases)
    case unknown
    then show ?thesis using backend_of_registered [OF inv, of k] by (simp add: fun_upd_idem)
  next
    case (leave n r rec)
    then show ?thesis using backend_of_del [OF leave(1-3), of m' "left_by k rec"] by (auto simp: left_by_def)
  next
    case (last n r rec)
    then show ?thesis
      using backend_of_del [OF last(1-3), of m' "(left_by k rec)\<lparr>as_withdrawing := Some False\<rparr>"]
      by (auto simp: left_by_def)
  qed
  then have "spec_step (spec_of s) (Removed k) (spec_of s')"
    using spec_step.removed [of "spec_of s" k] by (simp add: spec_of_def s')
  moreover have "performs s (Removed k) s'" using pc by (auto simp: performs_def s' split: option.split)
  ultimately show ?thesis by blast
qed

lemma refines_step:
  assumes "reach True s" "mgr_step True s s'"
  shows "\<exists>act. spec_step (spec_of s) act (spec_of s') \<and> performs s act s'"
proof -
  obtain st where inv: "sys_inv st s" using reach_inv [OF assms(1)] ..
  obtain st' where inv': "sys_inv st' s'" using reach_inv [OF reach.step [OF assms]] ..
  have own: "own_inv s" by (rule reach_own [OF assms(1)])
  note same = spec_of_shrink [OF inv', of s]
  from assms(2) show ?thesis
  proof cases
    case (do_register t k d b m' out)
    then show ?thesis using refine_register [OF inv own] by blast
  next
    case (do_abandon t r k e)
    have "pc_key_ok (mgr s) (threads s t)" using own by (simp add: own_inv_def)
    then have "backend_of (mgr s) k = None" using backend_of_registered [OF inv] do_abandon(2) by simp
    moreover have "spec_of s' = spec_of s"
      by (rule same) (auto simp: do_abandon(1) abandon_def releaseLocked_frames(1,2) dest: releaseLocked_frames(3,4))
    ultimately show ?thesis
      using do_abandon by (intro refine_refused [of s' s t k "listen_error (name_of (mgr s) r) e"]) simp_all
  next
    case (do_publish t r k b m' ok)
    then show ?thesis using refine_publish [OF inv own _ _ _ inv'] by blast
  next
    case (do_unlisten t r k)
    have "st r = Unlist t" using tied_in [OF inv, of t r] do_unlisten(2) by simp
    with stage_rec [OF inv, of r] have "m_shutdown (mgr s)" by (auto simp: rec_fits_def)
    with do_unlisten show ?thesis
      using shutdown_unregistered [OF inv, of k] backend_of_registered [OF inv, of k]
      by (intro refine_refused [of s' s t k ErrShuttingDown]) (simp_all add: spec_of_def)
  next
    case (do_deregister t k m' out)
    then show ?thesis using refine_deregister [OF inv] by blast
  next
    case (do_close t m' rs)
    then have "spec_of s' = \<lparr>sp_keys = Map.empty, sp_closed = True\<rparr>"
      by (auto simp: spec_of_def close_locked_def Let_def backend_of_def)
    moreover have "performs s Closed s'" using do_close by (auto simp: performs_def)
    ultimately show ?thesis using spec_step.closed [of "spec_of s"] by auto
  next
    case (finish_withdraw t r n k)
    have "spec_of s' = spec_of s"
      by (rule same) (auto simp: finish_withdraw(1) deregister_finish_frames(1,2) dest: deregister_finish_frames(3,4))
    with finish_withdraw show ?thesis by (intro refine_internal [of s' s t Idle]) simp_all
  qed (auto intro!: refine_go)
qed

section \<open>Properties\<close>

text \<open>C4: the manager refines an atomic map, as long as no two operations on one key run at the same time.
  Seen through the service and backend of every key and whether it is shut down, each step of such an
  interleaving of its callers is one step of the map or none. A registration that is answered with nil
  takes effect in the step that answers it: it adds its key with the service and backend of the call,
  unless the key was registered already. One that is answered with an error finds the key unregistered
  and changes nothing. A deregistration removes its key, and \<^verbatim>\<open>Close\<close> empties the map, in their first
  critical section; what they do afterwards changes nothing. (In the schedule of \<open>Manager_Race\<close>, with two
  registrations of one key at the same time, a step is neither.)\<close>

theorem manager_refines_map:
  assumes "reach True s" "mgr_step True s s'"
  shows "\<exists>act. spec_step (spec_of s) act (spec_of s') \<and> performs s act s'"
  using assms by (rule refines_step)

theorem manager_refines_map_witness:
  "\<exists>act. spec_step (spec_of (demo_state (mgr demo_listening) (Listened 0 ''a'' (example_backend ''a'')) {0})) act
       (spec_of (demo_state demo_mgr (Returned ''a'' None) {0})) \<and>
     performs (demo_state (mgr demo_listening) (Listened 0 ''a'' (example_backend ''a'')) {0}) act
       (demo_state demo_mgr (Returned ''a'' None) {0})"
  by (rule manager_refines_map [OF reach.step [OF demo_listening_run demo_listen] demo_publish])

text \<open>So every run of the manager is a run of the map.\<close>

inductive spec_run :: "spec \<Rightarrow> action list \<Rightarrow> spec \<Rightarrow> bool" for x where
  nothing: "spec_run x [] x"
| further: "spec_run x acts x' \<Longrightarrow> spec_step x' act x'' \<Longrightarrow> spec_run x (acts @ [act]) x''"

lemma spec_of_init: "spec_of (init_sys mc) = \<lparr>sp_keys = Map.empty, sp_closed = False\<rparr>"
  by (auto simp: spec_of_def init_sys_def NewManager_def backend_of_def)

lemma runs_refine: "reach True s \<Longrightarrow> \<exists>acts. spec_run \<lparr>sp_keys = Map.empty, sp_closed = False\<rparr> acts (spec_of s)"
proof (induction rule: reach.induct)
  case (start mc)
  show ?case unfolding spec_of_init by (blast intro: spec_run.nothing)
next
  case (step s s')
  from refines_step [OF step(1,2)] step.IH show ?case by (blast intro: spec_run.further)
qed

end
