(* ===== verification/Manager_Race.thy ===== *)
theory Manager_Race
  imports Manager_Properties
begin

text \<open>
  Concrete interleavings of the manager's callers, executed, and one that shows why an operation on
  a key must not run beside another on the same key.
\<close>

section \<open>Executing interleavings\<close>

text \<open>A schedule: which goroutine starts a call, or makes its next step. Listeners always open.\<close>

datatype move =
    StartRegister nat string PServiceDef backend
  | StartDeregister nat string
  | Advance nat

definition advance :: "nat \<Rightarrow> sys \<Rightarrow> sys option" where
  "advance t s =
     (case threads s t of
        Registering k d b \<Rightarrow>
          (case register_locked k d b (mgr s) of (m', out) \<Rightarrow> Some (go t (after_register k d b out) (s\<lparr>mgr := m'\<rparr>)))
      | Listening r k b \<Rightarrow> Some (go t (Listened r k b) (s\<lparr>opened := insert r (opened s)\<rparr>))
      | Listened r k b \<Rightarrow>
          (case advertise_locked r k b (mgr s) of
             (m', ok) \<Rightarrow> Some (go t (if ok then Returned k None else Unlisten r k) (s\<lparr>mgr := m'\<rparr>)))
      | Returned k e \<Rightarrow> Some (go t Idle s)
      | TearDown r n k \<Rightarrow> Some (go t (Withdrawn r n k) (close_listener r (s\<lparr>mgr := call_closeFn r (mgr s)\<rparr>)))
      | Withdrawn r n k \<Rightarrow> Some (go t Idle (s\<lparr>mgr := deregister_finish r n (mgr s)\<rparr>))
      | _ \<Rightarrow> None)"

fun make_move :: "move \<Rightarrow> sys \<Rightarrow> sys option" where
  "make_move (StartRegister t k d b) s =
     (if threads s t = Idle \<and> b_key b = k then Some (go t (Registering k d b) s) else None)"
| "make_move (StartDeregister t k) s =
     (if threads s t = Idle
      then case deregister_locked k (mgr s) of
             (m', out) \<Rightarrow> Some (go t (case out of None \<Rightarrow> Idle | Some (r, n) \<Rightarrow> TearDown r n k) (s\<lparr>mgr := m'\<rparr>))
      else None)"
| "make_move (Advance t) s = advance t s"

fun make_moves :: "move list \<Rightarrow> sys \<Rightarrow> sys option" where
  "make_moves [] s = Some s"
| "make_moves (mv # mvs) s = (case make_move mv s of None \<Rightarrow> None | Some s' \<Rightarrow> make_moves mvs s')"

lemma advance_step: "advance t s = Some s' \<Longrightarrow> mgr_step False s s'"
  by (auto simp: advance_def split: pc.splits prod.splits intro: mgr_step.intros)

lemma make_move_step: "make_move mv s = Some s' \<Longrightarrow> mgr_step False s s'"
  by (cases mv) (auto simp: advance_step split: if_splits prod.splits intro: mgr_step.call_register mgr_step.do_deregister)

lemma make_moves_reach: "reach False s \<Longrightarrow> make_moves mvs s = Some s' \<Longrightarrow> reach False s'"
  by (induction mvs arbitrary: s) (auto split: option.splits dest: make_move_step reach.step)

section \<open>Two registrations of one key\<close>

text \<open>A service is open to requests with the key in its pool.\<close>

definition serves_key :: "sys \<Rightarrow> string \<Rightarrow> string \<Rightarrow> bool" where
  "serves_key s n k \<longleftrightarrow>
     (\<exists>r rec. map_of (m_services (mgr s)) n = Some r \<and> m_recs (mgr s) r = Some rec \<and> serving (mgr s) r \<and>
        r \<in> opened s \<and> k \<in> set (pool_keys (as_pool rec)))"

text \<open>Goroutines 0 and 1 register the key at the same time, for two services, each up to its return.\<close>

definition two_registrations :: "move list" where
  "two_registrations =
     [StartRegister 0 ''a'' demo_def (example_backend ''a''),
      StartRegister 1 ''a'' (demo_def\<lparr>pd_service := ''svc:api''\<rparr>) (example_backend ''a''),
      Advance 0, Advance 1, Advance 0, Advance 1, Advance 0, Advance 1]"

lemmas move_defs = advance_def init_sys_def NewManager_def register_locked_def demo_def_def example_backend_def
  Let_def after_register_def advertise_locked_def pool_add_eq upd_rec_def close_advertised_def serviceAdvertised_def
  setPoolSize_def deregister_locked_def pool_remove_eq close_listener_def call_closeFn_def deregister_finish_def
  close_withdrawing_def serviceWithdrawn_def newBackendPool_def go_def

lemma registrations_end:
  "\<exists>s. make_moves two_registrations (init_sys None) = Some s \<and>
     threads s = (\<lambda>_. Idle)(0 := Returned ''a'' None, 1 := Returned ''a'' None) \<and> opened s = {1, 0} \<and>
     m_services (mgr s) = [(''svc:web'', 0), (''svc:api'', 1)] \<and> m_byKey (mgr s) = [(''a'', ''svc:api'')] \<and>
     m_recs (mgr s) = [0 \<mapsto> demo_rec, 1 \<mapsto> demo_rec\<lparr>as_name := ''svc:api''\<rparr>] \<and> \<not> m_shutdown (mgr s)"
  by (simp add: two_registrations_def move_defs demo_rec_def fun_eq_iff)

lemma deregistration_end:
  assumes "threads s = (\<lambda>_. Idle)(0 := Returned ''a'' None, 1 := Returned ''a'' None)" "opened s = {1, 0}"
    "m_services (mgr s) = [(''svc:web'', 0), (''svc:api'', 1)]" "m_byKey (mgr s) = [(''a'', ''svc:api'')]"
    "m_recs (mgr s) = [0 \<mapsto> demo_rec, 1 \<mapsto> demo_rec\<lparr>as_name := ''svc:api''\<rparr>]" "\<not> m_shutdown (mgr s)"
  shows "\<exists>s'. make_moves [Advance 0, Advance 1, StartDeregister 0 ''a'', Advance 0, Advance 0] s = Some s' \<and>
    threads s' = (\<lambda>_. Idle) \<and> opened s' = {0} \<and> m_services (mgr s') = [(''svc:web'', 0)] \<and>
    m_byKey (mgr s') = [] \<and> m_recs (mgr s') 0 = Some demo_rec"
  using assms by (simp add: move_defs demo_rec_def fun_eq_iff)

lemma serves_key_demo:
  "map_of (m_services (mgr s)) n = Some r \<Longrightarrow> m_recs (mgr s) r = Some (demo_rec\<lparr>as_name := n\<rparr>) \<Longrightarrow> r \<in> opened s \<Longrightarrow>
     serves_key s n ''a''"
  by (auto simp: serves_key_def serving_def demo_rec_def pool_keys_def example_backend_def)

text \<open>C32: what the manager does not promise. Two goroutines register one key at the same time, for two
  services, and both are told that all is well: the backend is then in the pools of both services, each
  serving with its listener open, while the key is registered for the later only. Deregistering the key
  withdraws that service; the backend is stranded in the other, which keeps serving, the key is no longer
  registered, and deregistering it again does nothing.\<close>

theorem stranded_backend:
  "\<exists>s s'. make_moves
       [StartRegister 0 ''a'' demo_def (example_backend ''a''),
        StartRegister 1 ''a'' (demo_def\<lparr>pd_service := ''svc:api''\<rparr>) (example_backend ''a''),
        Advance 0, Advance 1, Advance 0, Advance 1, Advance 0, Advance 1] (init_sys None) = Some s \<and>
     reach False s \<and> threads s 0 = Returned ''a'' None \<and> threads s 1 = Returned ''a'' None \<and>
     serves_key s ''svc:web'' ''a'' \<and> serves_key s ''svc:api'' ''a'' \<and>
     map_of (m_byKey (mgr s)) ''a'' = Some ''svc:api'' \<and>
     make_moves [Advance 0, Advance 1, StartDeregister 0 ''a'', Advance 0, Advance 0] s = Some s' \<and>
     reach False s' \<and> (\<forall>t. threads s' t = Idle) \<and>
     serves_key s' ''svc:web'' ''a'' \<and> map_of (m_services (mgr s')) ''svc:api'' = None \<and>
     map_of (m_byKey (mgr s')) ''a'' = None \<and> Deregister ''a'' (mgr s') = mgr s'"
proof -
  obtain s where s: "make_moves two_registrations (init_sys None) = Some s"
    "threads s = (\<lambda>_. Idle)(0 := Returned ''a'' None, 1 := Returned ''a'' None)" "opened s = {1, 0}"
    "m_services (mgr s) = [(''svc:web'', 0), (''svc:api'', 1)]" "m_byKey (mgr s) = [(''a'', ''svc:api'')]"
    "m_recs (mgr s) = [0 \<mapsto> demo_rec, 1 \<mapsto> demo_rec\<lparr>as_name := ''svc:api''\<rparr>]" "\<not> m_shutdown (mgr s)"
    using registrations_end by blast
  obtain s' where s': "make_moves [Advance 0, Advance 1, StartDeregister 0 ''a'', Advance 0, Advance 0] s = Some s'"
    "threads s' = (\<lambda>_. Idle)" "opened s' = {0}" "m_services (mgr s') = [(''svc:web'', 0)]" "m_byKey (mgr s') = []"
    "m_recs (mgr s') 0 = Some demo_rec"
    using deregistration_end [OF s(2-7)] by blast
  have r: "reach False s" by (rule make_moves_reach [OF reach.start s(1)]) simp
  moreover have "reach False s'" by (rule make_moves_reach [OF r s'(1)])
  moreover have web: "demo_rec\<lparr>as_name := ''svc:web''\<rparr> = demo_rec" by (simp add: demo_rec_def)
  have "serves_key s ''svc:web'' ''a''" by (rule serves_key_demo [of _ _ 0]) (simp_all add: s web)
  moreover have "serves_key s ''svc:api'' ''a''" by (rule serves_key_demo [of _ _ 1]) (simp_all add: s)
  moreover have "serves_key s' ''svc:web'' ''a''" by (rule serves_key_demo [of _ _ 0]) (simp_all add: s' web)
  moreover have "Deregister ''a'' (mgr s') = mgr s'" using s'(5) by (simp add: Deregister_def deregister_locked_def)
  ultimately show ?thesis using s s'
    by (intro exI [of _ s] exI [of _ s']) (simp add: two_registrations_def del: make_moves.simps)
qed

end
