(* ===== verification/Serve_Config.thy ===== *)
theory Serve_Config
  imports Manager
begin

text \<open>
  The lock around the node's serve config (\<^verbatim>\<open>Manager.serveMu\<close> of \<^verbatim>\<open>proxy/manager.go\<close>). Opening a service
  listener and closing one each edit the config of the tailnet node, which \<^verbatim>\<open>tsnet\<close> does by reading it and
  writing it back if its ETag is still the one that was read. Any number of goroutines make such calls: the
  callers of \<^verbatim>\<open>advertise\<close>, the closers of services, and the HTTP servers that close their listener as they
  return. What an edit does and what the tag of a config is are arguments. That the lock makes every call
  one indivisible edit is what lets the manager's step relation treat it as a single step.
\<close>

section \<open>The calls\<close>

datatype serve_call =
    ListenSvc string ServiceMode
  | CloseListener string

text \<open>What \<^verbatim>\<open>tsnet\<close> does, as far as the callers know: the tag of a config, and what a call makes of the
  config it has read, or why it fails.\<close>

record ('c, 'tag) tsnet =
  ts_etag :: "'c \<Rightarrow> 'tag"
  ts_edit :: "serve_call \<Rightarrow> 'c \<Rightarrow> string + 'c"

datatype outcome = Applied | Failed string | EtagMismatch

text \<open>The guarded write of what an edit makes of the config it has read.\<close>

definition put_config :: "('c, 'tag) tsnet \<Rightarrow> serve_call \<Rightarrow> 'c \<Rightarrow> 'c \<Rightarrow> 'c \<times> outcome" where
  "put_config ts c read cur =
     (case ts_edit ts c read of
        Inl e \<Rightarrow> (cur, Failed e)
      | Inr new \<Rightarrow> if ts_etag ts cur = ts_etag ts read then (new, Applied) else (cur, EtagMismatch))"

section \<open>The goroutines\<close>

text \<open>Where a goroutine is in a call: before the lock, inside with nothing read, with the config it has
  read, with the write behind it, and after the unlock with what the call returned.\<close>

datatype 'c call_pc =
    Outside
  | Acquiring serve_call
  | Entered serve_call
  | Fetched serve_call 'c
  | Leaving serve_call outcome
  | Answered serve_call outcome

fun in_tsnet :: "'c call_pc \<Rightarrow> bool" where
  "in_tsnet (Entered c) = True"
| "in_tsnet (Fetched c old) = True"
| "in_tsnet (Leaving c out) = True"
| "in_tsnet _ = False"

fun mismatched :: "'c call_pc \<Rightarrow> bool" where
  "mismatched (Leaving c out) = (out = EtagMismatch)"
| "mismatched (Answered c out) = (out = EtagMismatch)"
| "mismatched _ = False"

text \<open>The edits that went through are recorded in their order.\<close>

record 'c serve_sys =
  sc_config :: 'c
  sc_serveMu :: "nat option"
  sc_pcs :: "nat \<Rightarrow> 'c call_pc"
  sc_edits :: "serve_call list"

definition at_pc :: "nat \<Rightarrow> 'c call_pc \<Rightarrow> 'c serve_sys \<Rightarrow> 'c serve_sys" where
  "at_pc t p s = s\<lparr>sc_pcs := (sc_pcs s)(t := p)\<rparr>"

inductive serve_step :: "('c, 'tag) tsnet \<Rightarrow> 'c serve_sys \<Rightarrow> 'c serve_sys \<Rightarrow> bool" for ts where
  call: "sc_pcs s t = Outside \<Longrightarrow> serve_step ts s (at_pc t (Acquiring c) s)"
| lock: "sc_pcs s t = Acquiring c \<Longrightarrow> sc_serveMu s = None \<Longrightarrow>
    serve_step ts s (at_pc t (Entered c) (s\<lparr>sc_serveMu := Some t\<rparr>))"
| fetch: "sc_pcs s t = Entered c \<Longrightarrow> serve_step ts s (at_pc t (Fetched c (sc_config s)) s)"
| put: "sc_pcs s t = Fetched c old \<Longrightarrow> put_config ts c old (sc_config s) = (cfg, out) \<Longrightarrow>
    serve_step ts s (at_pc t (Leaving c out)
      (s\<lparr>sc_config := cfg, sc_edits := (if out = Applied then sc_edits s @ [c] else sc_edits s)\<rparr>))"
| unlock: "sc_pcs s t = Leaving c out \<Longrightarrow> serve_step ts s (at_pc t (Answered c out) (s\<lparr>sc_serveMu := None\<rparr>))"
| return: "sc_pcs s t = Answered c out \<Longrightarrow> serve_step ts s (at_pc t Outside s)"

definition serve_init :: "'c \<Rightarrow> 'c serve_sys" where
  "serve_init c0 = \<lparr>sc_config = c0, sc_serveMu = None, sc_pcs = (\<lambda>_. Outside), sc_edits = []\<rparr>"

inductive serve_reach :: "('c, 'tag) tsnet \<Rightarrow> 'c \<Rightarrow> 'c serve_sys \<Rightarrow> bool" for ts c0 where
  start: "serve_reach ts c0 (serve_init c0)"
| step: "serve_reach ts c0 s \<Longrightarrow> serve_step ts s s' \<Longrightarrow> serve_reach ts c0 s'"

text \<open>The config after a sequence of edits made one after the other, if none of them fails.\<close>

fun replay :: "('c, 'tag) tsnet \<Rightarrow> serve_call list \<Rightarrow> 'c \<Rightarrow> 'c option" where
  "replay ts [] cfg = Some cfg"
| "replay ts (c # cs) cfg = (case ts_edit ts c cfg of Inl e \<Rightarrow> None | Inr cfg' \<Rightarrow> replay ts cs cfg')"

section \<open>Lemmas\<close>

lemma at_pc_simps [simp]:
  "sc_pcs (at_pc t p s) = (sc_pcs s)(t := p)" "sc_config (at_pc t p s) = sc_config s"
  "sc_serveMu (at_pc t p s) = sc_serveMu s" "sc_edits (at_pc t p s) = sc_edits s"
  by (simp_all add: at_pc_def)

lemma replay_snoc:
  "replay ts cs c0 = Some cfg \<Longrightarrow> ts_edit ts c cfg = Inr cfg' \<Longrightarrow> replay ts (cs @ [c]) c0 = Some cfg'"
  by (induction cs arbitrary: c0) (auto split: sum.splits)

definition serve_inv :: "('c, 'tag) tsnet \<Rightarrow> 'c \<Rightarrow> 'c serve_sys \<Rightarrow> bool" where
  "serve_inv ts c0 s \<longleftrightarrow>
     (\<forall>t. in_tsnet (sc_pcs s t) \<longleftrightarrow> sc_serveMu s = Some t) \<and>
     (\<forall>t c old. sc_pcs s t = Fetched c old \<longrightarrow> old = sc_config s) \<and>
     (\<forall>t. \<not> mismatched (sc_pcs s t)) \<and> replay ts (sc_edits s) c0 = Some (sc_config s)"

lemma holder_iff: "serve_inv ts c0 s \<Longrightarrow> sc_serveMu s = Some t \<longleftrightarrow> in_tsnet (sc_pcs s t)"
  by (simp add: serve_inv_def)

lemma never_mismatched: "serve_inv ts c0 s \<Longrightarrow> \<not> mismatched (sc_pcs s t)"
  by (simp add: serve_inv_def)

lemma inside_alone:
  "serve_inv ts c0 s \<Longrightarrow> in_tsnet (sc_pcs s t) \<Longrightarrow> in_tsnet (sc_pcs s t') \<Longrightarrow> t' = t"
  by (metis holder_iff option.inject)

lemma fetched_current: "serve_inv ts c0 s \<Longrightarrow> sc_pcs s t = Fetched c old \<Longrightarrow> old = sc_config s"
  by (auto simp: serve_inv_def)

lemma put_current: "put_config ts c cfg cfg = (cfg', out) \<Longrightarrow>
    out = Applied \<and> ts_edit ts c cfg = Inr cfg' \<or> cfg' = cfg \<and> (\<exists>e. out = Failed e)"
  by (auto simp: put_config_def split: sum.splits)

lemma serve_inv_put:
  assumes inv: "serve_inv ts c0 s" and t: "sc_pcs s t = Fetched c old"
    and put: "put_config ts c old (sc_config s) = (cfg, out)"
  shows "serve_inv ts c0 (at_pc t (Leaving c out)
    (s\<lparr>sc_config := cfg, sc_edits := (if out = Applied then sc_edits s @ [c] else sc_edits s)\<rparr>))"
proof -
  have old: "old = sc_config s" using fetched_current [OF inv t] .
  have out: "out = Applied \<and> ts_edit ts c (sc_config s) = Inr cfg \<or> cfg = sc_config s \<and> (\<exists>e. out = Failed e)"
    using put_current [OF put [unfolded old]] .
  have others: "\<not> in_tsnet (sc_pcs s t')" if "t' \<noteq> t" for t'
    using inside_alone [OF inv, of t t'] t that by auto
  have "sc_pcs s t' \<noteq> Fetched c' old'" if "t' \<noteq> t" for t' c' old' using others [OF that] by auto
  moreover have "sc_serveMu s = Some t" using holder_iff [OF inv, of t] t by simp
  moreover have "out \<noteq> EtagMismatch" using out by auto
  moreover have "replay ts (if out = Applied then sc_edits s @ [c] else sc_edits s) c0 = Some cfg"
    using inv out replay_snoc [of ts "sc_edits s" c0 "sc_config s" c cfg] by (auto simp: serve_inv_def)
  ultimately show ?thesis using others never_mismatched [OF inv] by (auto simp: serve_inv_def)
qed

lemma serve_inv_step:
  assumes step: "serve_step ts s s'" and inv: "serve_inv ts c0 s"
  shows "serve_inv ts c0 s'"
  using step
proof cases
  case (put t c old cfg out)
  then show ?thesis using serve_inv_put [OF inv] by simp
next
  case (unlock t c out)
  then have "sc_serveMu s = Some t" "out \<noteq> EtagMismatch"
    using holder_iff [OF inv, of t] never_mismatched [OF inv, of t] by auto
  with unlock inv show ?thesis by (auto simp: serve_inv_def)
next
  case (call t c)
  with holder_iff [OF inv, of t] inv show ?thesis by (auto simp: serve_inv_def)
next
  case (return t c out)
  with holder_iff [OF inv, of t] inv show ?thesis by (auto simp: serve_inv_def)
qed (use inv in \<open>auto simp: serve_inv_def\<close>)

lemma serve_reach_inv: "serve_reach ts c0 s \<Longrightarrow> serve_inv ts c0 s"
  by (induction rule: serve_reach.induct) (auto simp: serve_inv_step, simp add: serve_inv_def serve_init_def)

text \<open>A goroutine inside leaves after at most three steps of its own, without disturbing the others.\<close>

definition serve_run :: "('c, 'tag) tsnet \<Rightarrow> 'c serve_sys \<Rightarrow> 'c serve_sys \<Rightarrow> bool" where
  "serve_run ts = (serve_step ts)\<^sup>*\<^sup>*"

lemma run_step: "serve_step ts s s' \<Longrightarrow> serve_run ts s' s'' \<Longrightarrow> serve_run ts s s''"
  by (simp add: serve_run_def converse_rtranclp_into_rtranclp)

lemma run_trans: "serve_run ts s s' \<Longrightarrow> serve_run ts s' s'' \<Longrightarrow> serve_run ts s s''"
  by (simp add: serve_run_def)

definition left :: "nat \<Rightarrow> serve_call \<Rightarrow> 'c serve_sys \<Rightarrow> 'c serve_sys \<Rightarrow> bool" where
  "left t c s s' \<longleftrightarrow> sc_serveMu s' = None \<and> (\<exists>out. sc_pcs s' = (sc_pcs s)(t := Answered c out))"

lemma leave_written:
  assumes "sc_pcs s t = Leaving c out"
  shows "\<exists>s'. serve_run ts s s' \<and> left t c s s'"
proof -
  let ?s = "at_pc t (Answered c out) (s\<lparr>sc_serveMu := None\<rparr>)"
  have "serve_run ts s ?s" using serve_step.unlock [OF assms, of ts] by (simp add: serve_run_def r_into_rtranclp)
  moreover have "left t c s ?s" by (auto simp: left_def)
  ultimately show ?thesis by blast
qed

lemma leave_fetched:
  assumes "sc_pcs s t = Fetched c old"
  shows "\<exists>s'. serve_run ts s s' \<and> left t c s s'"
proof -
  obtain cfg out where put: "put_config ts c old (sc_config s) = (cfg, out)" by fastforce
  let ?s = "at_pc t (Leaving c out)
    (s\<lparr>sc_config := cfg, sc_edits := (if out = Applied then sc_edits s @ [c] else sc_edits s)\<rparr>)"
  obtain s' where "serve_run ts ?s s'" "left t c ?s s'" using leave_written [of ?s t c out ts] by auto
  with run_step [OF serve_step.put [OF assms put]] show ?thesis by (auto simp: left_def)
qed

lemma leave_entered:
  assumes "sc_pcs s t = Entered c"
  shows "\<exists>s'. serve_run ts s s' \<and> left t c s s'"
proof -
  let ?s = "at_pc t (Fetched c (sc_config s)) s"
  obtain s' where "serve_run ts ?s s'" "left t c ?s s'" using leave_fetched [of ?s t c "sc_config s" ts] by auto
  with run_step [OF serve_step.fetch [OF assms]] show ?thesis by (auto simp: left_def)
qed

lemma leave:
  assumes "in_tsnet (sc_pcs s t)"
  shows "\<exists>c s'. serve_run ts s s' \<and> left t c s s'"
proof (cases "sc_pcs s t")
  case (Entered c)
  from leave_entered [OF this] show ?thesis by blast
next
  case (Fetched c old)
  from leave_fetched [OF this] show ?thesis by blast
next
  case (Leaving c out)
  from leave_written [OF this] show ?thesis by blast
qed (use assms in simp_all)

lemma lock_frees:
  assumes "serve_inv ts c0 s" "sc_pcs s t = Acquiring c"
  shows "\<exists>s'. serve_run ts s s' \<and> sc_serveMu s' = None \<and> sc_pcs s' t = Acquiring c"
proof (cases "sc_serveMu s")
  case None
  with assms show ?thesis by (auto simp: serve_run_def)
next
  case (Some h)
  with assms have h: "in_tsnet (sc_pcs s h)" by (simp add: serve_inv_def)
  with assms(2) have "h \<noteq> t" by auto
  with h leave [of s h ts] assms(2) show ?thesis by (fastforce simp: left_def)
qed

lemma call_completes:
  assumes "serve_inv ts c0 s" "sc_pcs s t = Acquiring c"
  shows "\<exists>s' out. serve_run ts s s' \<and> sc_pcs s' t = Answered c out"
proof -
  from lock_frees [OF assms] obtain s1 where s1: "serve_run ts s s1" "sc_serveMu s1 = None" "sc_pcs s1 t = Acquiring c"
    by blast
  let ?s = "at_pc t (Entered c) (s1\<lparr>sc_serveMu := Some t\<rparr>)"
  obtain s' where s': "serve_run ts ?s s'" "left t c ?s s'" using leave_entered [of ?s t c ts] by auto
  with s1 serve_step.lock [OF s1(3,2)] have "serve_run ts s s'" by (blast intro: run_trans run_step)
  with s'(2) show ?thesis by (auto simp: left_def)
qed

section \<open>Properties\<close>

text \<open>C10: edits of the serve config never collide. Whatever goroutines open and close listeners, at most
  one is in a call into \<^verbatim>\<open>tsnet\<close>, no call ends with an ETag mismatch, and the config is the result of the
  edits that went through, made one after the other; and a call that is waiting for the lock can always
  be brought to its end.\<close>

theorem serve_edits_serialised:
  assumes "serve_reach ts c0 s"
  shows "(\<forall>t t'. in_tsnet (sc_pcs s t) \<and> in_tsnet (sc_pcs s t') \<longrightarrow> t' = t) \<and>
    (\<forall>t c. sc_pcs s t \<noteq> Leaving c EtagMismatch \<and> sc_pcs s t \<noteq> Answered c EtagMismatch) \<and>
    replay ts (sc_edits s) c0 = Some (sc_config s) \<and>
    (\<forall>t c. sc_pcs s t = Acquiring c \<longrightarrow> (\<exists>s' out. serve_run ts s s' \<and> sc_pcs s' t = Answered c out))"
proof -
  have inv: "serve_inv ts c0 s" using serve_reach_inv [OF assms] .
  have "sc_pcs s t \<noteq> Leaving c EtagMismatch \<and> sc_pcs s t \<noteq> Answered c EtagMismatch" for t c
    using never_mismatched [OF inv, of t] by auto
  moreover have "replay ts (sc_edits s) c0 = Some (sc_config s)" using inv by (simp add: serve_inv_def)
  ultimately show ?thesis using inside_alone [OF inv] call_completes [OF inv] by blast
qed

text \<open>A config as a list of service names, tagged by itself.\<close>

definition demo_tsnet :: "(string list, string list) tsnet" where
  "demo_tsnet =
     \<lparr>ts_etag = (\<lambda>c. c),
      ts_edit = (\<lambda>call c. case call of ListenSvc n _ \<Rightarrow> Inr (n # c) | CloseListener n \<Rightarrow> Inr (removeAll n c))\<rparr>"

abbreviation demo_call :: serve_call where
  "demo_call \<equiv> CloseListener ''svc:web''"

definition demo_serve :: "string list serve_sys" where
  "demo_serve =
     at_pc 2 (Acquiring demo_call) (at_pc 1 (Entered demo_call)
       ((at_pc 1 (Acquiring demo_call) (serve_init [''svc:web'']))\<lparr>sc_serveMu := Some 1\<rparr>))"

lemma demo_serve_reach: "serve_reach demo_tsnet [''svc:web''] demo_serve"
proof -
  let ?s1 = "at_pc 1 (Acquiring demo_call) (serve_init [''svc:web''])"
  have "serve_reach demo_tsnet [''svc:web''] ?s1"
    by (rule serve_reach.step [OF serve_reach.start]) (rule serve_step.call, simp add: serve_init_def)
  then have "serve_reach demo_tsnet [''svc:web''] (at_pc 1 (Entered demo_call) (?s1\<lparr>sc_serveMu := Some 1\<rparr>))"
    by (rule serve_reach.step) (rule serve_step.lock, simp_all add: serve_init_def)
  then show ?thesis unfolding demo_serve_def
    by (rule serve_reach.step) (rule serve_step.call, simp add: serve_init_def)
qed

theorem serve_edits_serialised_witness:
  "\<exists>s' out. serve_run demo_tsnet demo_serve s' \<and> sc_pcs s' 2 = Answered demo_call out"
  using serve_edits_serialised [OF demo_serve_reach] by (simp add: demo_serve_def)

end
