(* ===== verification/Manager_Outage.thy ===== *)
theory Manager_Outage
  imports Manager_Properties
begin

text \<open>
  Services whose HTTP server ends by itself (\<^verbatim>\<open>proxy/manager.go\<close>). \<^verbatim>\<open>advertise\<close> leaves the serving of a
  listener to a goroutine, which runs \<^verbatim>\<open>http.Server.Serve\<close> until the service is torn down, or until the
  listener fails; \<^verbatim>\<open>Serve\<close> closes the listener as it returns, and the goroutine logs a failure that was
  not asked for. The goroutines of \<open>Manager_Steps\<close> run beside these.
\<close>

section \<open>The serving goroutines\<close>

text \<open>The records whose goroutine has returned, and the services for which it logged a warning.\<close>

record outage =
  ou_sys :: sys
  ou_ended :: "nat set"
  ou_warned :: "string list"

text \<open>The goroutine of a record starts once the record has been published, and serves until it has ended.\<close>

definition went_ready :: "Manager \<Rightarrow> nat \<Rightarrow> bool" where
  "went_ready m r \<longleftrightarrow> (\<exists>rec. m_recs m r = Some rec \<and> as_ready rec)"

definition served_by :: "outage \<Rightarrow> nat \<Rightarrow> bool" where
  "served_by x r \<longleftrightarrow> r \<notin> ou_ended x \<and> went_ready (mgr (ou_sys x)) r"

text \<open>A server that fails closes its listener and is reported; the manager is not told.\<close>

definition serve_failure :: "nat \<Rightarrow> outage \<Rightarrow> outage" where
  "serve_failure r x =
     x\<lparr>ou_sys := (ou_sys x)\<lparr>opened := opened (ou_sys x) - {r}\<rparr>, ou_ended := insert r (ou_ended x),
       ou_warned := ou_warned x @ [name_of (mgr (ou_sys x)) r]\<rparr>"

inductive outage_step :: "bool \<Rightarrow> outage \<Rightarrow> outage \<Rightarrow> bool" for disc where
  manager: "mgr_step disc (ou_sys x) s' \<Longrightarrow> outage_step disc x (x\<lparr>ou_sys := s'\<rparr>)"
| serve_failed: "served_by x r \<Longrightarrow> closes (ou_sys x) r = 0 \<Longrightarrow>
    outage_step disc x (serve_failure r x)"
| serve_closed: "served_by x r \<Longrightarrow> closes (ou_sys x) r \<noteq> 0 \<Longrightarrow>
    outage_step disc x (x\<lparr>ou_ended := insert r (ou_ended x)\<rparr>)"

inductive outage_reach :: "bool \<Rightarrow> outage \<Rightarrow> bool" for disc where
  start: "mc \<in> {None, Some fresh_gauges} \<Longrightarrow>
    outage_reach disc \<lparr>ou_sys = init_sys mc, ou_ended = {}, ou_warned = []\<rparr>"
| step: "outage_reach disc x \<Longrightarrow> outage_step disc x x' \<Longrightarrow> outage_reach disc x'"

section \<open>Lemmas\<close>

lemma serve_failure_simps [simp]:
  "ou_sys (serve_failure r x) = (ou_sys x)\<lparr>opened := opened (ou_sys x) - {r}\<rparr>"
  "ou_ended (serve_failure r x) = insert r (ou_ended x)"
  by (simp_all add: serve_failure_def)

text \<open>The same state but for listeners that are down.\<close>

definition fewer_open :: "sys \<Rightarrow> sys \<Rightarrow> bool" where
  "fewer_open s s0 \<longleftrightarrow>
     mgr s0 = mgr s \<and> threads s0 = threads s \<and> closes s0 = closes s \<and> opened s \<subseteq> opened s0"

lemma fewer_open_intros [intro]:
  "fewer_open s s0 \<Longrightarrow> fewer_open (go t p s) (go t p s0)"
  "fewer_open s s0 \<Longrightarrow> fewer_open (s\<lparr>mgr := m\<rparr>) (s0\<lparr>mgr := m\<rparr>)"
  "fewer_open s s0 \<Longrightarrow> fewer_open (close_listener r s) (close_listener r s0)"
  "fewer_open s s0 \<Longrightarrow> fewer_open (s\<lparr>opened := insert r (opened s)\<rparr>) (s0\<lparr>opened := insert r (opened s0)\<rparr>)"
  "fewer_open s s0 \<Longrightarrow> fewer_open (s\<lparr>opened := opened s - {r}\<rparr>) s0"
  by (auto simp: fewer_open_def go_def close_listener_def)

text \<open>No step of the manager looks at the listeners.\<close>

lemma fewer_open_step:
  assumes "mgr_step disc s s'" and few: "fewer_open s s0"
  shows "\<exists>s0'. mgr_step disc s0 s0' \<and> fewer_open s' s0'"
proof -
  have eq: "mgr s = mgr s0" "threads s = threads s0" "key_free s = key_free s0"
    using few by (auto simp: fewer_open_def key_free_def fun_eq_iff)
  show ?thesis using assms(1)
    by cases (simp only: eq, rule exI, rule conjI, erule mgr_step.intros, (assumption | rule few | rule fewer_open_intros)+)+
qed

text \<open>So a run with failures is a run without, in which the failed listeners would be up.\<close>

lemma outage_simulated:
  assumes "outage_reach disc x"
  shows "\<exists>s0. reach disc s0 \<and> fewer_open (ou_sys x) s0"
  using assms
proof (induction rule: outage_reach.induct)
  case (start mc)
  then show ?case using reach.start [of mc disc] by (auto simp: fewer_open_def)
next
  case (step x x')
  then obtain s0 where s0: "reach disc s0" "fewer_open (ou_sys x) s0" by blast
  from step.hyps(2) show ?case
  proof cases
    case (manager s')
    with fewer_open_step [OF manager(2) s0(2)] s0(1) show ?thesis by (auto intro: reach.step)
  qed (use s0 in auto)
qed


text \<open>A record that has been published stays so, and is not listened for again.\<close>

lemma went_ready_parts:
  "went_ready m r \<Longrightarrow> went_ready (releaseLocked q m) r" "went_ready m r \<Longrightarrow> went_ready (deregister_finish q n m) r"
  "went_ready m r \<Longrightarrow> went_ready (call_closeFn q m) r" "went_ready m r \<Longrightarrow> went_ready (abandon q m) r"
  by (auto simp: went_ready_def releaseLocked_def abandon_def deregister_finish_def call_closeFn_def Let_def close_advertised_def
      close_withdrawing_def split: option.splits)

lemma went_ready_locked:
  "deregister_locked k m = (m', out) \<Longrightarrow> went_ready m r \<Longrightarrow> went_ready m' r"
  "close_locked m = (m', rs) \<Longrightarrow> went_ready m r \<Longrightarrow> went_ready m' r"
  "advertise_locked q k b m = (m', ok) \<Longrightarrow> went_ready m r \<Longrightarrow> went_ready m' r"
  "register_locked k d b m = (m', res) \<Longrightarrow> went_ready m r \<Longrightarrow> m_recs m (m_next m) = None \<Longrightarrow> went_ready m' r"
  subgoal by (auto simp: went_ready_def deregister_locked_def Let_def pool_remove_eq split: option.splits if_splits)
  subgoal by (auto simp: went_ready_def close_locked_def Let_def)
  subgoal using went_ready_parts(1) [of m r q]
    by (auto simp: went_ready_def advertise_locked_def Let_def pool_add_eq close_advertised_def split: option.splits if_splits)
  subgoal by (auto simp: went_ready_def register_locked_def Let_def pool_add_eq split: option.splits if_splits)
  done

lemma went_ready_step:
  assumes "mgr_step disc s s'" "m_recs (mgr s) (m_next (mgr s)) = None" "went_ready (mgr s) r"
  shows "went_ready (mgr s') r"
  using assms(1) by cases (use assms(2,3) in \<open>auto intro: went_ready_parts went_ready_locked\<close>)

lemma went_ready_down:
  assumes "mgr_step disc s s'" "\<And>t k b. threads s t \<noteq> Listening r k b" "r \<notin> opened s"
  shows "r \<notin> opened s'"
  using assms(1) by cases (use assms(2,3) in auto)


lemma went_ready_not_listening:
  assumes inv: "sys_inv st s" and "went_ready (mgr s) r"
  shows "threads s t \<noteq> Listening r k b"
proof
  assume "threads s t = Listening r k b"
  with tied_in [OF inv, of t r] have "st r = Adv t" by simp
  with stage_rec [OF inv, of r] obtain rec where "m_recs (mgr s) r = Some rec" "pending rec"
    by (auto simp: rec_fits_def)
  with assms(2) show False by (simp add: went_ready_def pending_def)
qed

definition ended_down :: "outage \<Rightarrow> bool" where
  "ended_down x \<longleftrightarrow> (\<forall>r\<in>ou_ended x. went_ready (mgr (ou_sys x)) r \<and> r \<notin> opened (ou_sys x))"

lemma ended_down_step:
  assumes "reach disc s0" and few: "fewer_open (ou_sys x) s0" and "outage_step disc x x'" "ended_down x"
  shows "ended_down x'"
  using assms(3)
proof cases
  case (manager s')
  obtain st where inv: "sys_inv st s0" using reach_inv [OF assms(1)] ..
  have eq: "mgr s0 = mgr (ou_sys x)" "threads s0 = threads (ou_sys x)" using few by (auto simp: fewer_open_def)
  have "threads (ou_sys x) t \<noteq> Listening r k b" if "r \<in> ou_ended x" for r t k b
    using went_ready_not_listening [OF inv, of r t k b] assms(4) that by (auto simp: ended_down_def eq)
  then have "r \<notin> opened s'" if "r \<in> ou_ended x" for r
    using went_ready_down [OF manager(2)] assms(4) that by (metis ended_down_def)
  with manager next_unused [OF inv] assms(4) show ?thesis by (auto simp: ended_down_def eq went_ready_step)
next
  case (serve_failed r)
  with assms(4) show ?thesis by (auto simp: ended_down_def served_by_def)
next
  case (serve_closed r)
  have "r \<notin> opened (ou_sys x)"
    using closed_once [OF assms(1), of r] serve_closed(3) few by (auto simp: fewer_open_def)
  with serve_closed assms(4) show ?thesis by (auto simp: ended_down_def served_by_def)
qed

lemma outage_ended_down: "outage_reach disc x \<Longrightarrow> ended_down x"
proof (induction rule: outage_reach.induct)
  case (step x x')
  from outage_simulated [OF step.hyps(1)] obtain s0 where "reach disc s0" "fewer_open (ou_sys x) s0" by blast
  from ended_down_step [OF this step.hyps(2) step.IH] show ?case .
qed (simp add: ended_down_def)

lemma outage_step_ended: "outage_step disc x x' \<Longrightarrow> ou_ended x \<subseteq> ou_ended x'"
  by (cases rule: outage_step.cases) auto

text \<open>What follows a failure.\<close>

lemma after_failure:
  assumes "outage_reach disc x" "served_by x r" "closes (ou_sys x) r = 0"
    and "(outage_step disc)\<^sup>*\<^sup>* (serve_failure r x) x'"
  shows "outage_reach disc x' \<and> r \<in> ou_ended x'"
  using assms(4)
proof (induction rule: rtranclp_induct)
  case base
  from outage_reach.step [OF assms(1) outage_step.serve_failed [OF assms(2,3)]] show ?case by simp
next
  case (step y z)
  then show ?case using outage_step_ended [of disc y z] outage_reach.step [of disc y z] by blast
qed

lemma listed:
  assumes "map_of (m_services m) n = Some r" "m_recs m r = Some rec" "serving m r"
  shows "as_name rec \<in> sv_service ` set (Snapshot m)"
proof -
  from map_of_SomeD [OF assms(1)] assms(3) have "r \<in> set (filter (serving m) (map snd (m_services m)))" by force
  then have "service_view rec \<in> set (Snapshot m)" using assms(2) by (force simp: Snapshot_def)
  moreover have "sv_service (service_view rec) = as_name rec" by (simp add: service_view_def)
  ultimately show ?thesis by (metis imageI)
qed

section \<open>Properties\<close>

text \<open>C11: a listener that fails by itself disturbs nothing else. Whatever services have failed, whenever they
  do, and however the calls interleave, the manager does not panic, tsnet never has two listeners for one
  name, and shutdown leaves no listener open. And if no two operations on one key run at the same time
  (\<open>disc\<close>, which the manager does not enforce), the keys are registered exactly for the members of the
  pools of the serving services.\<close>

theorem serve_failure_contained:
  assumes "outage_reach disc x"
  shows "\<not> m_panicked (mgr (ou_sys x)) \<and>
    (\<forall>r1 r2. in_tsnet (ou_sys x) r1 \<and> in_tsnet (ou_sys x) r2 \<and>
       name_of (mgr (ou_sys x)) r1 = name_of (mgr (ou_sys x)) r2 \<longrightarrow> r1 = r2) \<and>
    (disc \<longrightarrow> (\<forall>k n. map_of (m_byKey (mgr (ou_sys x))) k = Some n \<longleftrightarrow>
       (\<exists>r rec. map_of (m_services (mgr (ou_sys x))) n = Some r \<and> m_recs (mgr (ou_sys x)) r = Some rec \<and>
          serving (mgr (ou_sys x)) r \<and> k \<in> set (pool_keys (as_pool rec))))) \<and>
    (m_shutdown (mgr (ou_sys x)) \<and> (\<forall>t. at_rest (threads (ou_sys x) t)) \<longrightarrow> opened (ou_sys x) = {})"
proof -
  obtain s0 where r: "reach disc s0" and few: "fewer_open (ou_sys x) s0" using outage_simulated [OF assms] by blast
  have eq: "mgr s0 = mgr (ou_sys x)" "threads s0 = threads (ou_sys x)" and sub: "opened (ou_sys x) \<subseteq> opened s0"
    using few by (auto simp: fewer_open_def)
  obtain st where inv: "sys_inv st s0" using reach_inv [OF r] ..
  have "in_tsnet s0 q" if "in_tsnet (ou_sys x) q" for q using that sub by (auto simp: in_tsnet_def eq)
  then have "r1 = r2" if "in_tsnet (ou_sys x) r1" "in_tsnet (ou_sys x) r2"
    "name_of (mgr (ou_sys x)) r1 = name_of (mgr (ou_sys x)) r2" for r1 r2
    using listener_unique [OF r] that by (simp add: eq)
  moreover have "q \<in> opened s0" if "map_of (m_services (mgr s0)) n = Some q" "serving (mgr s0) q" for n q
    using serving_stage [OF inv that(1)] that(2) inv by (simp add: sys_inv_def rec_ok_def)
  then have "map_of (m_byKey (mgr s0)) k = Some n \<longleftrightarrow>
       (\<exists>q rec. map_of (m_services (mgr s0)) n = Some q \<and> m_recs (mgr s0) q = Some rec \<and>
          serving (mgr s0) q \<and> k \<in> set (pool_keys (as_pool rec)))" if disc for k n
    unfolding registered_iff_member [OF r [unfolded eqTrueI [OF that]]] by blast
  moreover have "opened (ou_sys x) = {}" if "m_shutdown (mgr s0)" "\<forall>t. at_rest (threads s0 t)"
    using shutdown_quiescent [OF r] that sub by blast
  ultimately show ?thesis using inv by (simp add: sys_inv_def eq)
qed

text \<open>The server of the service of the example ends.\<close>

definition before_outage :: outage where
  "before_outage = \<lparr>ou_sys = demo_state demo_mgr Idle {0}, ou_ended = {}, ou_warned = []\<rparr>"

definition demo_outage :: outage where
  "demo_outage = serve_failure 0 before_outage"

lemma reach_outage: "reach disc s \<Longrightarrow> outage_reach disc \<lparr>ou_sys = s, ou_ended = {}, ou_warned = []\<rparr>"
proof (induction rule: reach.induct)
  case (step s s')
  from outage_reach.step [OF step.IH outage_step.manager] step.hyps(2) show ?case by fastforce
qed (rule outage_reach.start)

lemma before_outage:
  "outage_reach True before_outage" "served_by before_outage 0" "closes (ou_sys before_outage) 0 = 0"
  using reach_outage [OF demo_run(2)]
  by (simp_all add: before_outage_def served_by_def went_ready_def demo_mgr_def demo_rec_def demo_state_def)

lemma demo_outage_reach: "outage_reach True demo_outage"
  unfolding demo_outage_def
  by (rule outage_reach.step [OF before_outage(1) outage_step.serve_failed [OF before_outage(2,3)]])

lemma demo_outage_mgr [simp]: "mgr (ou_sys demo_outage) = demo_mgr"
  by (simp add: demo_outage_def before_outage_def demo_state_def)

theorem serve_failure_contained_witness:
  "\<exists>r rec. map_of (m_services demo_mgr) ''svc:web'' = Some r \<and> m_recs demo_mgr r = Some rec \<and>
     serving demo_mgr r \<and> ''a'' \<in> set (pool_keys (as_pool rec))"
proof -
  have "map_of (m_byKey (mgr (ou_sys demo_outage))) ''a'' = Some ''svc:web''" by (simp add: demo_mgr_def)
  with serve_failure_contained [OF demo_outage_reach] show ?thesis by simp
qed

text \<open>C30: a service whose server has failed by itself stays down while it is advertised. The failure leaves
  the manager as it was; and in whatever state follows, as long as the name is the one of the same record
  and not withdrawn (until its last backend leaves), no listener for the name is open, yet the status
  snapshot lists the service, and a backend that fits it joins its pool, has its key registered and is
  told that all is well.\<close>

theorem failed_service_stays_down:
  assumes "outage_reach disc x" "served_by x r" "closes (ou_sys x) r = 0"
    and "(outage_step disc)\<^sup>*\<^sup>* (serve_failure r x) x'" and "m = mgr (ou_sys x')"
    and "map_of (m_services m) n = Some r" "m_recs m r = Some rec" "serving m r"
  shows "mgr (ou_sys (serve_failure r x)) = mgr (ou_sys x) \<and>
    (\<forall>q. q \<in> opened (ou_sys x') \<longrightarrow> name_of m q \<noteq> n) \<and>
    n \<in> sv_service ` set (Snapshot m) \<and>
    (\<forall>k d b. map_of (m_byKey m) k = None \<and> pd_service d = n \<and> conflictWith rec k d = None \<longrightarrow>
       (\<exists>m'. register_locked k d b m = (m', Return None) \<and> map_of (m_byKey m') k = Some n \<and>
          map_option (\<lambda>rec'. members (as_pool rec')) (m_recs m' r) = Some (members (as_pool rec) @ [b])))"
proof -
  have x': "outage_reach disc x'" "r \<in> ou_ended x'"
    using after_failure [OF assms(1-4)] by simp_all
  obtain s0 where s0: "reach disc s0" "mgr s0 = m" "opened (ou_sys x') \<subseteq> opened s0"
    using outage_simulated [OF x'(1)] assms(5) by (auto simp: fewer_open_def)
  obtain st where inv: "sys_inv st s0" using reach_inv [OF s0(1)] ..
  have name: "as_name rec = n" using index_recs [OF inv] assms(6,7) s0(2) by force
  have "r \<in> opened s0" using serving_stage [OF inv, of n r] assms(6,8) s0(2) inv by (simp add: sys_inv_def rec_ok_def)
  then have "q = r" if "q \<in> opened (ou_sys x')" "name_of m q = n" for q
    using listener_unique [OF s0(1), of q r] that s0(2,3) assms(7) name by (auto simp: in_tsnet_def name_of_def)
  moreover have "r \<notin> opened (ou_sys x')" using outage_ended_down [OF x'(1)] x'(2) by (simp add: ended_down_def)
  moreover have "n \<in> sv_service ` set (Snapshot m)" using listed [OF assms(6-8)] name by simp
  moreover have "\<not> m_shutdown m" using inv assms(6) s0(2) by (auto simp: sys_inv_def index_ok_def)
  then have "\<exists>m'. register_locked k d b m = (m', Return None) \<and> map_of (m_byKey m') k = Some n \<and>
      map_option (\<lambda>rec'. members (as_pool rec')) (m_recs m' r) = Some (members (as_pool rec) @ [b])"
    if "map_of (m_byKey m) k = None" "pd_service d = n" "conflictWith rec k d = None" for k d b
    using that assms(6-8) name
    by (auto simp: register_locked_def transition_def serving_def Let_def pool_add_eq upd_rec_def)
  ultimately show ?thesis by auto
qed

theorem failed_service_stays_down_witness:
  "\<not> (\<exists>q. q \<in> opened (ou_sys demo_outage) \<and> name_of demo_mgr q = ''svc:web'') \<and>
   ''svc:web'' \<in> sv_service ` set (Snapshot demo_mgr) \<and>
   (\<exists>m'. register_locked ''b'' demo_def (example_backend ''b'') demo_mgr = (m', Return None) \<and>
      map_of (m_byKey m') ''b'' = Some ''svc:web'')"
proof -
  have "serving demo_mgr 0" "map_of (m_services demo_mgr) ''svc:web'' = Some 0" "m_recs demo_mgr 0 = Some demo_rec"
    "map_of (m_byKey demo_mgr) ''b'' = None" "conflictWith demo_rec ''b'' demo_def = None" "pd_service demo_def = ''svc:web''"
    by (simp_all add: serving_def demo_mgr_def demo_rec_def demo_def_def conflictWith_def sameCaps_iff)
  moreover have "(outage_step True)\<^sup>*\<^sup>* (serve_failure 0 before_outage) demo_outage" by (simp add: demo_outage_def)
  ultimately show ?thesis
    using failed_service_stays_down [OF before_outage, of demo_outage demo_mgr "''svc:web''" demo_rec]
    by (metis demo_outage_mgr)
qed

end
