(* ===== verification/Docker_Watcher.thy ===== *)
theory Docker_Watcher
  imports Registrar
begin

text \<open>
  The Docker watcher (\<^verbatim>\<open>docker/watcher.go\<close>). The Docker API is not part of the repository: what it
  answers (a listing, an inspection, an event) is an argument of each operation. So are the
  registrar's operations and the texts of the errors, which the watcher keeps to recognise a
  failure that repeats.
\<close>

section \<open>What Docker answers\<close>

text \<open>\<^verbatim>\<open>ContainerInspect\<close>: the labels of the config, unless it is nil, and the IP address on each
  network, unless the settings, or an endpoint, are nil.\<close>

record InspectResponse =
  ir_config :: "labels option"
  ir_networks :: "(string, string option) gomap option"

type_synonym inspection = "string \<Rightarrow> string + InspectResponse"

datatype docker_error =
    ApiError string
  | NoConfig string
  | LabelError label_error
  | NoNetworkSettings
  | NotAttached string
  | NoIP string

datatype docker_action = ActionStart | ActionDie | ActionStop | ActionKill | ActionDestroy | OtherAction

section \<open>Operations\<close>

definition resolveIP :: "inspection \<Rightarrow> string \<Rightarrow> string \<Rightarrow> docker_error + string" where
  "resolveIP insp i network =
     (case insp i of
        Inl err \<Rightarrow> Inl (ApiError err)
      | Inr r \<Rightarrow>
          (case ir_networks r of
             None \<Rightarrow> Inl NoNetworkSettings
           | Some nets \<Rightarrow>
               (case map_of nets network of
                  Some (Some ip) \<Rightarrow> if ip = [] then Inl (NoIP network) else Inr ip
                | _ \<Rightarrow> Inl (NotAttached network))))"

definition inspect :: "inspection \<Rightarrow> string \<Rightarrow> docker_error + ServiceDef" where
  "inspect insp i =
     (case insp i of
        Inl err \<Rightarrow> Inl (ApiError err)
      | Inr r \<Rightarrow>
          (case ir_config r of
             None \<Rightarrow> Inl (NoConfig i)
           | Some ls \<Rightarrow> (case Parse ls of Inl e \<Rightarrow> Inl (LabelError e) | Inr def \<Rightarrow> Inr def)))"

definition backend_addr :: "string \<Rightarrow> 16 word \<Rightarrow> string" where
  "backend_addr host port = host @ '':'' @ show_nat (unat port)"

definition docker_register ::
  "(string \<Rightarrow> ServiceDef \<times> string \<Rightarrow> 's \<Rightarrow> 's \<times> 'e option) \<Rightarrow> (string \<Rightarrow> 's \<Rightarrow> 's)
     \<Rightarrow> ('e \<Rightarrow> string) \<Rightarrow> (docker_error \<Rightarrow> string) \<Rightarrow> inspection
     \<Rightarrow> string \<Rightarrow> ServiceDef \<Rightarrow> 's \<times> string book \<Rightarrow> 's \<times> string book" where
  "docker_register reg dereg regtext errtext insp i def st =
     (case st of (s, w) \<Rightarrow>
        (case resolveIP insp i (sd_network def) of
           Inl err \<Rightarrow> (s, note_failure i (''resolve-ip: '' @ errtext err) w)
         | Inr ip \<Rightarrow>
             sync_key reg dereg (\<lambda>err. ''register: '' @ regtext err) i (def, ip)
               (backend_addr ip (sd_port def)) (s, w)))"

definition docker_deregister ::
  "(string \<Rightarrow> 's \<Rightarrow> 's) \<Rightarrow> string \<Rightarrow> 's \<times> string book \<Rightarrow> 's \<times> string book" where
  "docker_deregister dereg i st =
     (case st of (s, w) \<Rightarrow>
        (dereg i s, w\<lparr>active := m_del i (active w), failed := m_del i (failed w)\<rparr>))"

text \<open>One container of a listing.\<close>

definition reconcile_one ::
  "(string \<Rightarrow> ServiceDef \<times> string \<Rightarrow> 's \<Rightarrow> 's \<times> 'e option) \<Rightarrow> (string \<Rightarrow> 's \<Rightarrow> 's)
     \<Rightarrow> ('e \<Rightarrow> string) \<Rightarrow> (docker_error \<Rightarrow> string) \<Rightarrow> inspection
     \<Rightarrow> string \<times> labels \<Rightarrow> 's \<times> string book \<Rightarrow> 's \<times> string book" where
  "reconcile_one reg dereg regtext errtext insp c st =
     (case Parse (snd c) of
        Inl _ \<Rightarrow> st
      | Inr def \<Rightarrow>
          if map_of (active (snd st)) (fst c) \<noteq> None then st
          else docker_register reg dereg regtext errtext insp (fst c) def st)"

definition reconcile ::
  "(string \<Rightarrow> ServiceDef \<times> string \<Rightarrow> 's \<Rightarrow> 's \<times> 'e option) \<Rightarrow> (string \<Rightarrow> 's \<Rightarrow> 's)
     \<Rightarrow> ('e \<Rightarrow> string) \<Rightarrow> (docker_error \<Rightarrow> string) \<Rightarrow> string + (string \<times> labels) list \<Rightarrow> inspection
     \<Rightarrow> 's \<times> string book \<Rightarrow> ('s \<times> string book) \<times> string option" where
  "reconcile reg dereg regtext errtext listing insp st =
     (case listing of
        Inl err \<Rightarrow> (st, Some err)
      | Inr cs \<Rightarrow>
          (removeMissing dereg (map fst cs)
             (fold (reconcile_one reg dereg regtext errtext insp) cs st), None))"

text \<open>\<^verbatim>\<open>handleEvent\<close> inspects a started container twice: for its labels, and then for its address.\<close>

definition handleEvent ::
  "(string \<Rightarrow> ServiceDef \<times> string \<Rightarrow> 's \<Rightarrow> 's \<times> 'e option) \<Rightarrow> (string \<Rightarrow> 's \<Rightarrow> 's)
     \<Rightarrow> ('e \<Rightarrow> string) \<Rightarrow> (docker_error \<Rightarrow> string) \<Rightarrow> docker_action \<Rightarrow> string
     \<Rightarrow> inspection \<Rightarrow> inspection \<Rightarrow> 's \<times> string book \<Rightarrow> 's \<times> string book" where
  "handleEvent reg dereg regtext errtext action i insp1 insp2 st =
     (case action of
        ActionStart \<Rightarrow>
          (case inspect insp1 i of
             Inl _ \<Rightarrow> st
           | Inr def \<Rightarrow> docker_register reg dereg regtext errtext insp2 i def st)
      | OtherAction \<Rightarrow> st
      | _ \<Rightarrow> docker_deregister dereg i st)"

section \<open>The watcher's loop\<close>

text \<open>\<^verbatim>\<open>NewWatcher\<close>, with the error of making the Docker client.\<close>

definition docker_NewWatcher :: "string option \<Rightarrow> string + string book" where
  "docker_NewWatcher client =
     (case client of Some err \<Rightarrow> Inl (''docker client: '' @ err) | None \<Rightarrow> Inr new_book)"

text \<open>What the \<^verbatim>\<open>select\<close> of \<^verbatim>\<open>Run\<close> receives. A nil error is what a closed error channel gives.\<close>

datatype docker_input =
    CtxDone string
  | EventsError "string option" "string option"
  | Event docker_action string inspection inspection
  | SweepTick "string + (string \<times> labels) list" inspection

datatype docker_exit = PingFailed string | ScanFailed string | EventsFailed string | CtxErr "string option"

text \<open>\<open>None\<close> as the result: the loop is still waiting; \<open>CtxErr None\<close>: it returned nil. What the error
  channel yields comes with the error of the context at that moment.\<close>

fun docker_loop ::
  "(string \<Rightarrow> ServiceDef \<times> string \<Rightarrow> 's \<Rightarrow> 's \<times> 'e option) \<Rightarrow> (string \<Rightarrow> 's \<Rightarrow> 's)
     \<Rightarrow> ('e \<Rightarrow> string) \<Rightarrow> (docker_error \<Rightarrow> string) \<Rightarrow> docker_input list
     \<Rightarrow> 's \<times> string book \<Rightarrow> ('s \<times> string book) \<times> docker_exit option" where
  "docker_loop reg dereg regtext errtext [] st = (st, None)"
| "docker_loop reg dereg regtext errtext (CtxDone e # ins) st = (st, Some (CtxErr (Some e)))"
| "docker_loop reg dereg regtext errtext (EventsError e ctxErr # ins) st =
     (st, Some (case e of
                  None \<Rightarrow> CtxErr ctxErr
                | Some err \<Rightarrow> if ctxErr \<noteq> None then CtxErr ctxErr else EventsFailed err))"
| "docker_loop reg dereg regtext errtext (Event action i insp1 insp2 # ins) st =
     docker_loop reg dereg regtext errtext ins
       (handleEvent reg dereg regtext errtext action i insp1 insp2 st)"
| "docker_loop reg dereg regtext errtext (SweepTick listing insp # ins) st =
     docker_loop reg dereg regtext errtext ins
       (fst (reconcile reg dereg regtext errtext listing insp st))"

definition docker_Run ::
  "(string \<Rightarrow> ServiceDef \<times> string \<Rightarrow> 's \<Rightarrow> 's \<times> 'e option) \<Rightarrow> (string \<Rightarrow> 's \<Rightarrow> 's)
     \<Rightarrow> ('e \<Rightarrow> string) \<Rightarrow> (docker_error \<Rightarrow> string) \<Rightarrow> string option
     \<Rightarrow> string + (string \<times> labels) list \<Rightarrow> inspection \<Rightarrow> docker_input list
     \<Rightarrow> 's \<times> string book \<Rightarrow> ('s \<times> string book) \<times> docker_exit option" where
  "docker_Run reg dereg regtext errtext ping listing insp ins st =
     (case ping of
        Some err \<Rightarrow> (st, Some (PingFailed err))
      | None \<Rightarrow>
          (case reconcile reg dereg regtext errtext listing insp st of
             (st', Some err) \<Rightarrow> (st', Some (ScanFailed err))
           | (st', None) \<Rightarrow> docker_loop reg dereg regtext errtext ins st'))"

section \<open>Lemmas\<close>

text \<open>The containers an input is about.\<close>

fun input_ids :: "docker_input \<Rightarrow> string set" where
  "input_ids (Event action i insp1 insp2) = {i}"
| "input_ids (SweepTick (Inr cs) insp) = fst ` set cs"
| "input_ids _ = {}"

text \<open>A registrar of containers, and how the address a watcher records relates to a target.\<close>

locale container_registrar = registrar reg dereg view target ok K
  for reg :: "string \<Rightarrow> ServiceDef \<times> string \<Rightarrow> 's \<Rightarrow> 's \<times> 'e option"
    and dereg :: "string \<Rightarrow> 's \<Rightarrow> 's" and view :: "'s \<Rightarrow> string \<Rightarrow> 't option"
    and target :: "string \<Rightarrow> ServiceDef \<times> string \<Rightarrow> 't" and ok :: "'s \<Rightarrow> bool" and K :: "string set" +
  fixes R :: "string \<Rightarrow> string \<Rightarrow> 't \<Rightarrow> bool"
  assumes fits: "R k (backend_addr ip (sd_port def)) (target k (def, ip))"
begin

lemma register_step:
  assumes ag: "agrees ok view R K s w" and i: "i \<in> K"
    and run: "docker_register reg dereg regtext errtext insp i def (s, w) = (s', w')"
  shows "agrees ok view R K s' w' \<and> touches view i (s, w) (s', w') \<and> settled w' i"
proof (cases "resolveIP insp i (sd_network def)")
  case (Inl err)
  then have "s' = s" "w' = note_failure i (''resolve-ip: '' @ errtext err) w"
    using run by (auto simp: docker_register_def)
  then show ?thesis using ag by (auto simp: touches_def settled_def)
next
  case (Inr ip)
  then show ?thesis using run sync_key_step [OF ag i fits] by (auto simp: docker_register_def)
qed

lemma deregister_step:
  assumes "agrees ok view R K s w" "i \<in> K" "docker_deregister dereg i (s, w) = (s', w')"
  shows "agrees ok view R K s' w'"
  using agrees_dereg [OF assms(1,2)] assms(3) by (auto simp: docker_deregister_def)

lemma reconcile_one_step:
  assumes ag: "agrees ok view R K s w" and c: "fst c \<in> K"
    and run: "reconcile_one reg dereg regtext errtext insp c (s, w) = (s', w')"
  shows "agrees ok view R K s' w' \<and> touches view (fst c) (s, w) (s', w') \<and>
    (map_of (active w) (fst c) \<noteq> None \<longrightarrow> (s', w') = (s, w)) \<and>
    (settled w (fst c) \<or> (\<exists>def. Parse (snd c) = Inr def) \<longrightarrow> settled w' (fst c))"
proof (cases "Parse (snd c)")
  case (Inl e)
  then show ?thesis using ag run by (auto simp: reconcile_one_def)
next
  case (Inr def)
  then show ?thesis
    using ag run register_step [OF ag c, of regtext errtext insp def s' w']
    by (cases "map_of (active w) (fst c)") (auto simp: reconcile_one_def settled_def)
qed

lemma reconcile_fold:
  assumes "agrees ok view R K s w" "fst ` set cs \<subseteq> K"
    "fold (reconcile_one reg dereg regtext errtext insp) cs (s, w) = (s', w')"
  shows "agrees ok view R K s' w' \<and>
    (\<forall>k. map_of (active w) k \<noteq> None \<longrightarrow> map_of (active w') k = map_of (active w) k \<and> view s' k = view s k) \<and>
    (\<forall>k. k \<notin> fst ` set cs \<longrightarrow> view s' k = view s k \<and> map_of (active w') k = map_of (active w) k) \<and>
    (\<forall>k. settled w k \<longrightarrow> settled w' k) \<and>
    (\<forall>c\<in>set cs. (\<exists>def. Parse (snd c) = Inr def) \<longrightarrow> settled w' (fst c))"
  using assms
proof (induction cs arbitrary: s w)
  case (Cons c cs)
  obtain s1 w1 where one: "reconcile_one reg dereg regtext errtext insp c (s, w) = (s1, w1)" by fastforce
  have c: "fst c \<in> K" "fst ` set cs \<subseteq> K" using Cons.prems(2) by auto
  note step = reconcile_one_step [OF Cons.prems(1) c(1) one]
  have "fold (reconcile_one reg dereg regtext errtext insp) cs (s1, w1) = (s', w')"
    using Cons.prems(3) one by simp
  note ih = Cons.IH [OF _ c(2) this]
  have a: "map_of (active w1) k = map_of (active w) k \<and> view s1 k = view s k"
    if "map_of (active w) k \<noteq> None \<or> k \<noteq> fst c" for k
    using step that by (cases "k = fst c") (auto simp: touches_def)
  have b: "settled w k \<Longrightarrow> settled w1 k" for k
    using step by (cases "k = fst c") (auto simp: touches_def settled_def)
  show ?case
  proof (intro conjI allI impI ballI)
    show "agrees ok view R K s' w'" using ih step by blast
    show "map_of (active w') k = map_of (active w) k" if "map_of (active w) k \<noteq> None" for k
      using ih step a [of k] that by simp
    show "view s' k = view s k" if "map_of (active w) k \<noteq> None" for k
      using ih step a [of k] that by simp
    show "view s' k = view s k" if "k \<notin> fst ` set (c # cs)" for k
      using ih step a [of k] that by simp
    show "map_of (active w') k = map_of (active w) k" if "k \<notin> fst ` set (c # cs)" for k
      using ih step a [of k] that by simp
    show "settled w' k" if "settled w k" for k using ih step b that by blast
    show "settled w' (fst c')" if "c' \<in> set (c # cs)" "\<exists>def. Parse (snd c') = Inr def" for c'
      using ih step that by auto
  qed
qed simp

text \<open>A sweep that could list the containers.\<close>

lemma reconcile_step:
  assumes ag: "agrees ok view R K s w" and cs: "fst ` set cs \<subseteq> K"
    and run: "reconcile reg dereg regtext errtext (Inr cs) insp (s, w) = ((s', w'), e)"
  shows "e = None \<and> agrees ok view R K s' w' \<and>
    (\<forall>k\<in>K. view s' k \<noteq> None \<longrightarrow> k \<in> fst ` set cs) \<and>
    (\<forall>k\<in>K. k \<in> fst ` set cs \<longrightarrow> view s k \<noteq> None \<longrightarrow> view s' k = view s k) \<and>
    (\<forall>k. k \<notin> K \<longrightarrow> view s' k = view s k) \<and>
    (\<forall>c\<in>set cs. (\<exists>def. Parse (snd c) = Inr def) \<longrightarrow> view s' (fst c) = None \<longrightarrow> map_of (failed w') (fst c) \<noteq> None)"
proof -
  obtain s1 w1 where f: "fold (reconcile_one reg dereg regtext errtext insp) cs (s, w) = (s1, w1)" by fastforce
  note fold = reconcile_fold [OF ag cs f]
  from run f have rm: "removeMissing dereg (map fst cs) (s1, w1) = (s', w')" and e: "e = None"
    by (auto simp: reconcile_def)
  have ag1: "agrees ok view R K s1 w1" using fold by blast
  note rem = removeMissing_agrees [OF ag1 rm]
  have act: "dom (map_of (active w1)) \<subseteq> K" using ag1 by (simp add: agrees_def)
  show ?thesis
  proof (intro conjI ballI allI impI)
    show "e = None" by (rule e)
    show "agrees ok view R K s' w'" by (rule rem)
    show "k \<in> fst ` set cs" if "k \<in> K" "view s' k \<noteq> None" for k
      using agrees_iff [OF rem(1) that(1)] that rem(2) [of k] by (auto split: if_splits)
    show "view s' k = view s k" if "k \<in> K" "k \<in> fst ` set cs" "view s k \<noteq> None" for k
      using agrees_iff [OF ag that(1)] that fold rem(4) [of k] by auto
    show "view s' k = view s k" if "k \<notin> K" for k
    proof -
      have "k \<notin> fst ` set cs" "k \<notin> dom (map_of (active w1))" using that act cs by blast+
      then show ?thesis using fold rem(4) [of k] by simp
    qed
    show "map_of (failed w') (fst c) \<noteq> None"
      if "c \<in> set cs" "\<exists>def. Parse (snd c) = Inr def" "view s' (fst c) = None" for c
    proof -
      have "settled w1 (fst c)" using fold that by blast
      moreover have "map_of (active w') (fst c) = None" using agrees_iff [OF rem(1)] that cs by auto
      ultimately show ?thesis using rem(2,3) that(1) by (auto simp: settled_def)
    qed
  qed
qed

lemma event_step:
  assumes "agrees ok view R K s w" "i \<in> K"
    "handleEvent reg dereg regtext errtext action i insp1 insp2 (s, w) = (s', w')"
  shows "agrees ok view R K s' w'"
proof (cases action)
  case ActionStart
  then show ?thesis using assms register_step [OF assms(1,2)]
    by (cases "inspect insp1 i") (auto simp: handleEvent_def)
qed (use assms deregister_step [OF assms(1,2)] in \<open>auto simp: handleEvent_def\<close>)

lemma reconcile_agrees:
  assumes "agrees ok view R K s w" "\<And>cs. listing = Inr cs \<Longrightarrow> fst ` set cs \<subseteq> K"
    "reconcile reg dereg regtext errtext listing insp (s, w) = ((s', w'), e)"
  shows "agrees ok view R K s' w'"
  using assms reconcile_step [OF assms(1)] by (cases listing) (auto simp: reconcile_def)

lemma loop_agrees:
  assumes "agrees ok view R K s w" "\<forall>x\<in>set ins. input_ids x \<subseteq> K"
    "docker_loop reg dereg regtext errtext ins (s, w) = ((s', w'), e)"
  shows "agrees ok view R K s' w'"
  using assms
proof (induction ins arbitrary: s w)
  case (Cons x ins)
  show ?case
  proof (cases x)
    case (Event action i insp1 insp2)
    obtain s1 w1 where ev: "handleEvent reg dereg regtext errtext action i insp1 insp2 (s, w) = (s1, w1)"
      by fastforce
    have "agrees ok view R K s1 w1" by (rule event_step [OF Cons.prems(1) _ ev]) (use Cons.prems(2) Event in simp)
    then show ?thesis by (rule Cons.IH) (use Event Cons.prems ev in simp_all)
  next
    case (SweepTick listing insp)
    obtain s1 w1 e1 where rc: "reconcile reg dereg regtext errtext listing insp (s, w) = ((s1, w1), e1)"
      by (metis surj_pair)
    have "agrees ok view R K s1 w1" by (rule reconcile_agrees [OF Cons.prems(1) _ rc]) (use Cons.prems(2) SweepTick in auto)
    then show ?thesis by (rule Cons.IH) (use SweepTick Cons.prems rc in simp_all)
  qed (use Cons.prems in auto)
qed simp

lemma run_agrees:
  assumes "agrees ok view R K s w" "\<And>cs. listing = Inr cs \<Longrightarrow> fst ` set cs \<subseteq> K" "\<forall>x\<in>set ins. input_ids x \<subseteq> K"
    "docker_Run reg dereg regtext errtext ping listing insp ins (s, w) = ((s', w'), e)"
  shows "agrees ok view R K s' w'"
proof -
  obtain s1 w1 e1 where rec: "reconcile reg dereg regtext errtext listing insp (s, w) = ((s1, w1), e1)"
    by (metis surj_pair)
  have "agrees ok view R K s1 w1" by (rule reconcile_agrees [OF assms(1) _ rec]) (use assms(2) in blast)
  with assms rec loop_agrees [of s1 w1] show ?thesis
    by (auto simp: docker_Run_def split: option.splits)
qed

end

definition addr_fits :: "string \<Rightarrow> string \<Rightarrow> string \<times> string \<Rightarrow> bool" where
  "addr_fits k a t \<longleftrightarrow>
     (\<exists>(def :: ServiceDef) ip. a = backend_addr ip (sd_port def) \<and>
        t = (sd_service def, join_host_port ip (show_nat (unat (sd_port def)))))"

interpretation dctr: container_registrar "adapter_Register listen clock origin" adapter_Deregister
  view_of container_target adapter_ok K addr_fits for listen clock origin K
  by unfold_locales (auto simp: addr_fits_def container_target_def)

definition fresh_adapter :: adapter where
  "fresh_adapter = \<lparr>ad_mgr = NewManager (Some fresh_gauges), ad_fatal = None, ad_calls = 0, ad_blocked = False\<rparr>"

lemma fresh_agrees: "agrees adapter_ok view_of R K fresh_adapter new_book"
  using quiet_new [of "Some fresh_gauges"]
  by (simp add: agrees_def adapter_ok_def fresh_adapter_def view_of_def new_book_def backend_of_def)
    (simp add: NewManager_def)

section \<open>Properties\<close>

text \<open>The Docker watcher over the manager, from start-up and through any sequence of events,
  sweeps and errors: the book agrees with the manager at every moment (a container is active
  exactly when its key is registered, for a service and address of a definition it was registered
  with), the manager is left with nothing in flight, and no call has blocked.\<close>

lemma docker_run_agrees:
  "case docker_Run (adapter_Register listen clock origin) adapter_Deregister regtext errtext
          ping listing insp ins (fresh_adapter, new_book) of
     ((a, w), e) \<Rightarrow> agrees adapter_ok view_of addr_fits UNIV a w"
  using dctr.run_agrees [OF fresh_agrees, where K = UNIV] by (auto split: prod.splits)

text \<open>C22: a sweep that can list the containers brings the registered set into line with the list:
  what is registered afterwards is listed, what was registered and is listed stays as it was, keys
  of other readers are not touched, and a listed container whose labels are valid is registered or
  its failure is on record for the next sweep.\<close>

theorem docker_sweep_converges:
  assumes "agrees adapter_ok view_of addr_fits K a w" "fst ` set cs \<subseteq> K"
    and "reconcile (adapter_Register listen clock origin) adapter_Deregister regtext errtext
           (Inr cs) insp (a, w) = ((a', w'), e)"
  shows "e = None \<and> agrees adapter_ok view_of addr_fits K a' w' \<and>
    (\<forall>k\<in>K. view_of a' k \<noteq> None \<longrightarrow> k \<in> fst ` set cs) \<and>
    (\<forall>k\<in>K. k \<in> fst ` set cs \<longrightarrow> view_of a k \<noteq> None \<longrightarrow> view_of a' k = view_of a k) \<and>
    (\<forall>k. k \<notin> K \<longrightarrow> view_of a' k = view_of a k) \<and>
    (\<forall>c\<in>set cs. (\<exists>def. Parse (snd c) = Inr def) \<longrightarrow> view_of a' (fst c) = None \<longrightarrow>
       map_of (failed w') (fst c) \<noteq> None)"
  using assms by (rule dctr.reconcile_step)

theorem docker_sweep_converges_witness:
  "case reconcile (adapter_Register (\<lambda>_ _ _. None) (\<lambda>_. 0) \<lparr>o_account = [], o_cluster = [], o_region = []\<rparr>)
          adapter_Deregister (\<lambda>_. []) (\<lambda>_. []) (Inr [(''c1'', demo_labels)])
          (\<lambda>_. Inr \<lparr>ir_config = Some demo_labels, ir_networks = Some [(''bridge'', Some ''10.0.0.1'')]\<rparr>)
          (fresh_adapter, new_book) of
     ((a', w'), e) \<Rightarrow> e = None \<and> {k. view_of a' k \<noteq> None} \<subseteq> {''c1''}"
  using docker_sweep_converges [OF fresh_agrees, where K = UNIV and cs = "[(''c1'', demo_labels)]"]
  by (auto split: prod.splits)

text \<open>C35: a start event for a container that is already active and whose address cannot be resolved
  only notes the failure. The later sweeps that still list it skip it, so the address recorded
  before the event stays the active and registered one.\<close>

theorem stale_address_kept:
  assumes "resolveIP again i (sd_network def) = Inl err" "inspect first i = Inr def"
    and "map_of (active w) i = Some prev"
  shows "case handleEvent reg dereg regtext errtext ActionStart i first again (s, w) of (s', w') \<Rightarrow>
           s' = s \<and> map_of (active w') i = Some prev \<and>
           reconcile_one reg dereg regtext errtext insp (i, ls) (s', w') = (s', w')"
  using assms
  by (auto simp: handleEvent_def docker_register_def reconcile_one_def split: sum.splits)

theorem stale_address_kept_witness:
  "case handleEvent (adapter_Register (\<lambda>_ _ _. None) (\<lambda>_. 0) \<lparr>o_account = [], o_cluster = [], o_region = []\<rparr>)
          adapter_Deregister (\<lambda>_. []) (\<lambda>_. []) ActionStart ''c1''
          (\<lambda>_. Inr \<lparr>ir_config = Some demo_labels, ir_networks = None\<rparr>) (\<lambda>_. Inl ''timeout'')
          (fresh_adapter, \<lparr>active = [(''c1'', ''10.0.0.1:80'')], failed = [], warned = []\<rparr>) of
     (s', w') \<Rightarrow> map_of (active w') ''c1'' = Some ''10.0.0.1:80''"
proof -
  have "inspect (\<lambda>_. Inr \<lparr>ir_config = Some demo_labels, ir_networks = None\<rparr>) ''c1'' = Inr demo_service"
    by (simp add: inspect_def demo_parse)
  note stale = stale_address_kept [OF _ this,
      where again = "\<lambda>_. Inl ''timeout''" and err = "ApiError ''timeout''" and prev = "''10.0.0.1:80''"
        and w = "\<lparr>active = [(''c1'', ''10.0.0.1:80'')], failed = [], warned = []\<rparr>"
        and s = fresh_adapter and dereg = adapter_Deregister and regtext = "\<lambda>_. []" and errtext = "\<lambda>_. []"
        and insp = "\<lambda>_. Inl ''timeout''" and ls = demo_labels
        and reg = "adapter_Register (\<lambda>_ _ _. None) (\<lambda>_. 0) \<lparr>o_account = [], o_cluster = [], o_region = []\<rparr>"]
  show ?thesis using stale by (simp add: resolveIP_def split: prod.splits)
qed

end
