(* ===== verification/Ecs_Resolve.thy ===== *)
theory Ecs_Resolve
  imports Docker_Watcher
begin

text \<open>
  The caches and the backend resolution of ECS discovery (\<^verbatim>\<open>ecs/cache.go\<close>, \<^verbatim>\<open>ecs/resolve.go\<close>). The
  AWS clients are arguments: a record of what the calls answer during one cycle. Errors are
  constructors that carry what their text is made of.
\<close>

section \<open>What AWS answers\<close>

text \<open>The fields the code reads. A pointer is an option; an \<^verbatim>\<open>int32\<close> a \<open>32 word\<close>.\<close>

record NetworkBinding =
  nb_containerPort :: "32 word option"
  nb_hostPort :: "32 word option"

record TaskContainer =
  tc_name :: "string option"
  tc_networkBindings :: "NetworkBinding list"

record Attachment =
  at_type :: "string option"
  at_details :: "(string option \<times> string option) list"

record Task =
  t_taskArn :: "string option"
  t_taskDefinitionArn :: "string option"
  t_lastStatus :: "string option"
  t_containerInstanceArn :: "string option"
  t_containers :: "TaskContainer list"
  t_attachments :: "Attachment list"

record ContainerDefinition =
  cd_name :: "string option"
  cd_dockerLabels :: labels

record TaskDefinition =
  td_networkMode :: string
  td_containerDefinitions :: "ContainerDefinition list"

text \<open>The three calls of the caches: a task definition, the EC2 instance ids of a container
  instance, and the private addresses of an instance's reservations; \<open>Inl\<close> is the error's text.\<close>

record aws =
  aws_describeTaskDefinition :: "string \<Rightarrow> string + TaskDefinition option"
  aws_describeContainerInstances :: "string \<Rightarrow> string + string option list"
  aws_describeInstances :: "string \<Rightarrow> string + string option list list"

text \<open>The errors; \<open>NoENI\<close>, \<open>NoBinding\<close> and \<open>NoInstanceArn\<close> wrap \<^verbatim>\<open>errNoBackend\<close>.\<close>

datatype ecs_error =
    ApiFailed string string string
  | EmptyTaskDefinition string
  | InstanceNotFound string
  | NoEC2Id string
  | NoPrivateIP string
  | NoENI string
  | NoBinding string string "16 word"
  | NoInstanceArn string
  | UnsupportedMode string string

definition is_errNoBackend :: "ecs_error \<Rightarrow> bool" where
  "is_errNoBackend e = (case e of NoENI _ \<Rightarrow> True | NoBinding _ _ _ \<Rightarrow> True | NoInstanceArn _ \<Rightarrow> True | _ \<Rightarrow> False)"

section \<open>Caches\<close>

type_synonym taskDefCache = "(string, TaskDefinition) gomap"
type_synonym hostIPCache = "(string, string) gomap"

definition taskDefs_get :: "aws \<Rightarrow> string \<Rightarrow> taskDefCache \<Rightarrow> taskDefCache \<times> (ecs_error + TaskDefinition)" where
  "taskDefs_get api arn c =
     (case map_of c arn of
        Some td \<Rightarrow> (c, Inr td)
      | None \<Rightarrow>
          (case aws_describeTaskDefinition api arn of
             Inl err \<Rightarrow> (c, Inl (ApiFailed ''DescribeTaskDefinition'' arn err))
           | Inr None \<Rightarrow> (c, Inl (EmptyTaskDefinition arn))
           | Inr (Some td) \<Rightarrow> (m_put arn td c, Inr td)))"

definition privateIP :: "string option \<Rightarrow> string" where
  "privateIP i = (case i of Some ip \<Rightarrow> if ip \<noteq> [] then ip else [] | None \<Rightarrow> [])"

definition lookupHostIP :: "aws \<Rightarrow> string \<Rightarrow> ecs_error + string" where
  "lookupHostIP api ciArn =
     (case aws_describeContainerInstances api ciArn of
        Inl err \<Rightarrow> Inl (ApiFailed ''DescribeContainerInstances'' ciArn err)
      | Inr [] \<Rightarrow> Inl (InstanceNotFound ciArn)
      | Inr (ec2ID # _) \<Rightarrow>
          (case ec2ID of
             None \<Rightarrow> Inl (NoEC2Id ciArn)
           | Some i \<Rightarrow>
               if i = [] then Inl (NoEC2Id ciArn)
               else (case aws_describeInstances api i of
                       Inl err \<Rightarrow> Inl (ApiFailed ''DescribeInstances'' i err)
                     | Inr reservations \<Rightarrow>
                         (case find (\<lambda>ip. ip \<noteq> []) (map privateIP (concat reservations)) of
                            Some ip \<Rightarrow> Inr ip
                          | None \<Rightarrow> Inl (NoPrivateIP i)))))"

definition hostIPs_get :: "aws \<Rightarrow> string \<Rightarrow> hostIPCache \<Rightarrow> hostIPCache \<times> (ecs_error + string)" where
  "hostIPs_get api ciArn c =
     (case map_of c ciArn of
        Some ip \<Rightarrow> (c, Inr ip)
      | None \<Rightarrow>
          (case lookupHostIP api ciArn of
             Inl err \<Rightarrow> (c, Inl err)
           | Inr ip \<Rightarrow> (m_put ciArn ip c, Inr ip)))"

definition hostIPs_invalidate :: "string \<Rightarrow> hostIPCache \<Rightarrow> hostIPCache" where
  "hostIPs_invalidate ciArn c = m_del ciArn c"

section \<open>Resolving a backend\<close>

definition derefArn :: "string option \<Rightarrow> string" where
  "derefArn p = (case p of None \<Rightarrow> ''<nil>'' | Some a \<Rightarrow> a)"

text \<open>The value of the first \<^verbatim>\<open>privateIPv4Address\<close> detail that has one.\<close>

fun eni_detail :: "(string option \<times> string option) list \<Rightarrow> string option" where
  "eni_detail [] = None"
| "eni_detail ((n, v) # kvs) =
     (if n = Some ''privateIPv4Address'' \<and> v \<noteq> None then v else eni_detail kvs)"

fun eni_ip :: "Attachment list \<Rightarrow> string option" where
  "eni_ip [] = None"
| "eni_ip (a # as) =
     (if at_type a \<noteq> Some ''ElasticNetworkInterface'' then eni_ip as
      else case eni_detail (at_details a) of Some ip \<Rightarrow> Some ip | None \<Rightarrow> eni_ip as)"

definition awsvpcIP :: "Task \<Rightarrow> ecs_error + string" where
  "awsvpcIP task =
     (case eni_ip (t_attachments task) of
        Some ip \<Rightarrow> Inr ip
      | None \<Rightarrow> Inl (NoENI (derefArn (t_taskArn task))))"

text \<open>The conversion \<^verbatim>\<open>uint16(p)\<close> of an \<^verbatim>\<open>int32\<close> keeps its low 16 bits.\<close>

fun binding_port :: "16 word \<Rightarrow> NetworkBinding list \<Rightarrow> 16 word option" where
  "binding_port port [] = None"
| "binding_port port (nb # nbs) =
     (case nb_containerPort nb of
        None \<Rightarrow> binding_port port nbs
      | Some cp \<Rightarrow>
          if (ucast cp :: 16 word) \<noteq> port then binding_port port nbs
          else (case nb_hostPort nb of
                  None \<Rightarrow> binding_port port nbs
                | Some hp \<Rightarrow> if hp = 0 then binding_port port nbs else Some (ucast hp)))"

fun container_port :: "string \<Rightarrow> 16 word \<Rightarrow> TaskContainer list \<Rightarrow> 16 word option" where
  "container_port name port [] = None"
| "container_port name port (c # cs) =
     (if tc_name c \<noteq> Some name then container_port name port cs
      else case binding_port port (tc_networkBindings c) of
             Some hp \<Rightarrow> Some hp
           | None \<Rightarrow> container_port name port cs)"

definition bridgeHostPort :: "Task \<Rightarrow> string \<Rightarrow> 16 word \<Rightarrow> ecs_error + 16 word" where
  "bridgeHostPort task name port =
     (case container_port name port (t_containers task) of
        Some hp \<Rightarrow> Inr hp
      | None \<Rightarrow> Inl (NoBinding (derefArn (t_taskArn task)) name port))"

text \<open>The host's address, with the cache entry dropped when the lookup fails.\<close>

definition host_ip :: "aws \<Rightarrow> string \<Rightarrow> hostIPCache \<Rightarrow> hostIPCache \<times> (ecs_error + string)" where
  "host_ip api ciArn c =
     (case hostIPs_get api ciArn c of
        (c', Inl err) \<Rightarrow> (hostIPs_invalidate ciArn c', Inl err)
      | (c', Inr ip) \<Rightarrow> (c', Inr ip))"

definition instance_arn :: "string \<Rightarrow> Task \<Rightarrow> ecs_error + string" where
  "instance_arn mode task =
     (case t_containerInstanceArn task of
        None \<Rightarrow> Inl (NoInstanceArn mode)
      | Some arn \<Rightarrow> if arn = [] then Inl (NoInstanceArn mode) else Inr arn)"

definition resolveBackend ::
  "aws \<Rightarrow> Task \<Rightarrow> TaskDefinition \<Rightarrow> string \<Rightarrow> 16 word \<Rightarrow> hostIPCache
     \<Rightarrow> hostIPCache \<times> (ecs_error + string \<times> 16 word)" where
  "resolveBackend api task td name port c =
     (let mode = td_networkMode td in
      if mode = ''awsvpc'' then
        (c, case awsvpcIP task of Inl err \<Rightarrow> Inl err | Inr ip \<Rightarrow> Inr (ip, port))
      else if mode = ''bridge'' \<or> mode = [] then
        (case bridgeHostPort task name port of
           Inl err \<Rightarrow> (c, Inl err)
         | Inr hostPort \<Rightarrow>
             (case instance_arn ''bridge'' task of
                Inl err \<Rightarrow> (c, Inl err)
              | Inr arn \<Rightarrow>
                  (case host_ip api arn c of
                     (c', Inl err) \<Rightarrow> (c', Inl err)
                   | (c', Inr ip) \<Rightarrow> (c', Inr (ip, hostPort)))))
      else if mode = ''host'' then
        (case instance_arn ''host'' task of
           Inl err \<Rightarrow> (c, Inl err)
         | Inr arn \<Rightarrow>
             (case host_ip api arn c of
                (c', Inl err) \<Rightarrow> (c', Inl err)
              | (c', Inr ip) \<Rightarrow> (c', Inr (ip, port))))
      else (c, Inl (UnsupportedMode mode (derefArn (t_taskArn task)))))"

section \<open>Lemmas\<close>

text \<open>The host cache only ever holds what a lookup returned at some time.\<close>

lemma hostIPs_get_Inl:
  "hostIPs_get api arn c = (c', Inl err) \<Longrightarrow> c' = c \<and> map_of c arn = None \<and> lookupHostIP api arn = Inl err"
  by (auto simp: hostIPs_get_def split: option.splits sum.splits)

lemma lookup_nonempty: "lookupHostIP api arn = Inr ip \<Longrightarrow> ip \<noteq> []"
  by (auto simp: lookupHostIP_def find_Some_iff split: sum.splits list.splits option.splits if_splits)

text \<open>A binding that publishes container port \<open>port\<close> as \<open>hp\<close>, after the conversions.\<close>

definition publishes :: "NetworkBinding \<Rightarrow> 16 word \<Rightarrow> 16 word \<Rightarrow> bool" where
  "publishes nb port hp \<longleftrightarrow>
     (\<exists>cp h. nb_containerPort nb = Some cp \<and> nb_hostPort nb = Some h \<and> ucast cp = port \<and> h \<noteq> 0 \<and> hp = ucast h)"

lemma binding_port_Some: "binding_port port nbs = Some hp \<Longrightarrow> \<exists>nb\<in>set nbs. publishes nb port hp"
  by (induction nbs) (auto simp: publishes_def split: option.splits if_splits)

lemma binding_port_None: "binding_port port nbs = None \<Longrightarrow> nb \<in> set nbs \<Longrightarrow> \<not> publishes nb port hp"
  by (induction nbs) (auto simp: publishes_def split: option.splits if_splits)

lemma container_port_Some:
  "container_port name port cs = Some hp \<Longrightarrow>
     \<exists>c\<in>set cs. tc_name c = Some name \<and> (\<exists>nb\<in>set (tc_networkBindings c). publishes nb port hp)"
  by (induction cs) (auto split: if_splits option.splits dest: binding_port_Some)

lemma container_port_None:
  "container_port name port cs = None \<Longrightarrow> c \<in> set cs \<Longrightarrow> tc_name c = Some name \<Longrightarrow>
     nb \<in> set (tc_networkBindings c) \<Longrightarrow> \<not> publishes nb port hp"
  by (induction cs) (auto split: if_splits option.splits dest: binding_port_None)

lemma host_ip_cases:
  "host_ip api arn c = (c', res) \<Longrightarrow>
     (case res of
        Inl err \<Rightarrow> map_of c arn = None \<and> map_of c' = map_of c \<and> lookupHostIP api arn = Inl err
      | Inr ip \<Rightarrow> map_of c' = (map_of c)(arn \<mapsto> ip) \<and>
                  (map_of c arn = Some ip \<or> map_of c arn = None \<and> lookupHostIP api arn = Inr ip))"
  by (auto simp: host_ip_def hostIPs_get_def hostIPs_invalidate_def fun_eq_iff split: option.splits sum.splits)

section \<open>Properties\<close>

text \<open>C39: where a container's requests go, by network mode. An \<^verbatim>\<open>awsvpc\<close> task is reached at an
  address of its network interface on the labelled port; a bridge task at its host's address, cached
  or just looked up, on a host port that a binding of the named container publishes for the labelled
  port; a host-mode task at its host's address on the labelled port. No other mode resolves.\<close>

theorem resolveBackend_sound:
  assumes "resolveBackend api task td name port c = (c', Inr (host, p))"
  shows "(td_networkMode td = ''awsvpc'' \<and> p = port \<and> c' = c \<and> eni_ip (t_attachments task) = Some host) \<or>
    (td_networkMode td \<in> {''bridge'', [], ''host''} \<and>
     (\<exists>arn. t_containerInstanceArn task = Some arn \<and> arn \<noteq> [] \<and> map_of c' = (map_of c)(arn \<mapsto> host) \<and>
        (map_of c arn = Some host \<or> map_of c arn = None \<and> lookupHostIP api arn = Inr host)) \<and>
     (if td_networkMode td = ''host'' then p = port
      else \<exists>tc\<in>set (t_containers task). tc_name tc = Some name \<and>
             (\<exists>nb\<in>set (tc_networkBindings tc). publishes nb port p)))"
proof -
  have h: "map_of c' = (map_of c)(arn \<mapsto> host) \<and>
      (map_of c arn = Some host \<or> map_of c arn = None \<and> lookupHostIP api arn = Inr host)"
    if "host_ip api arn c = (c', Inr host)" for arn
    using host_ip_cases [OF that] by simp
  from assms show ?thesis
    by (auto simp: resolveBackend_def awsvpcIP_def bridgeHostPort_def instance_arn_def Let_def
        split: if_splits sum.splits option.splits prod.splits dest!: container_port_Some dest: h)
qed

definition demo_task :: Task where
  "demo_task = \<lparr>t_taskArn = Some ''arn:t'', t_taskDefinitionArn = Some ''arn:td'', t_lastStatus = Some ''RUNNING'',
     t_containerInstanceArn = Some ''arn:ci'',
     t_containers = [\<lparr>tc_name = Some ''web'',
       tc_networkBindings = [\<lparr>nb_containerPort = Some 80, nb_hostPort = Some 32768\<rparr>]\<rparr>],
     t_attachments = []\<rparr>"

definition demo_td :: TaskDefinition where
  "demo_td = \<lparr>td_networkMode = ''bridge'',
     td_containerDefinitions = [\<lparr>cd_name = Some ''web'', cd_dockerLabels = demo_labels\<rparr>]\<rparr>"

definition demo_aws :: aws where
  "demo_aws = \<lparr>aws_describeTaskDefinition = (\<lambda>_. Inr (Some demo_td)),
     aws_describeContainerInstances = (\<lambda>_. Inr [Some ''i-1'']),
     aws_describeInstances = (\<lambda>_. Inr [[Some ''10.0.0.9'']])\<rparr>"

lemma demo_resolve:
  "resolveBackend demo_aws demo_task demo_td ''web'' 80 [] = ([(''arn:ci'', ''10.0.0.9'')], Inr (''10.0.0.9'', 32768))"
  by (simp add: resolveBackend_def demo_aws_def demo_task_def demo_td_def bridgeHostPort_def instance_arn_def
      host_ip_def hostIPs_get_def lookupHostIP_def privateIP_def)

theorem resolveBackend_sound_witness:
  "\<exists>tc\<in>set (t_containers demo_task). tc_name tc = Some ''web'' \<and>
     (\<exists>nb\<in>set (tc_networkBindings tc). publishes nb 80 32768)"
  using resolveBackend_sound [OF demo_resolve] by (auto simp: demo_td_def split: if_splits)

text \<open>A task definition is fetched at most once per ARN: once a lookup has succeeded, every later
  one answers the same definition from the cache, whatever the API would say.\<close>

lemma taskDefs_memoised:
  assumes "taskDefs_get api arn c = (c', Inr td)"
  shows "taskDefs_get api' arn c' = (c', Inr td) \<and>
         (arn' \<noteq> arn \<longrightarrow> map_of c' arn' = map_of c arn') \<and> (map_of c arn \<noteq> None \<longrightarrow> c' = c)"
  using assms by (auto simp: taskDefs_get_def split: option.splits sum.splits)

text \<open>Dropping the cached host address after a failed lookup never drops anything: a lookup can
  only fail when the address is not cached. An address once cached is answered from then on,
  whatever becomes of the instance.\<close>

lemma host_cache_never_refreshed:
  "(host_ip api arn c = (c', Inl err) \<longrightarrow> map_of c' = map_of c) \<and>
   (map_of c arn = Some ip \<longrightarrow> host_ip api arn c = (c, Inr ip))"
  using host_ip_cases [of api arn c c' "Inl err"]
  by (auto simp: host_ip_def hostIPs_get_def)

lemma host_cache_never_refreshed_witness:
  "host_ip (demo_aws\<lparr>aws_describeInstances := (\<lambda>_. Inl ''gone'')\<rparr>) ''arn:ci'' [(''arn:ci'', ''10.0.0.9'')] =
     ([(''arn:ci'', ''10.0.0.9'')], Inr ''10.0.0.9'')"
  using host_cache_never_refreshed [of "demo_aws\<lparr>aws_describeInstances := (\<lambda>_. Inl ''gone'')\<rparr>" "''arn:ci''"
      "[(''arn:ci'', ''10.0.0.9'')]" _ _ "''10.0.0.9''"] by simp

end
