(* ===== verification/Registry.thy ===== *)
theory Registry
  imports Prelude
begin

text \<open>
  The reader registry (\<^verbatim>\<open>ecs/registry.go\<close>): the status of every configured ECS and Lambda reader,
  as the watchers report it and the status page shows it. Every operation is one critical section
  under the registry's mutex.
\<close>

section \<open>Data\<close>

text \<open>A zero \<^verbatim>\<open>time.Time\<close> is \<open>None\<close>.\<close>

record ReaderStatus =
  rs_mode :: string
  rs_name :: string
  rs_account :: string
  rs_cluster :: string
  rs_region :: string
  rs_pollInterval :: nanos
  rs_lastPollStart :: "nanos option"
  rs_lastPollOK :: "nanos option"
  rs_lastError :: string
  rs_polls :: "64 word"
  rs_healthy :: bool

text \<open>The registry is the list of records in the order they were added; a \<^verbatim>\<open>Reader\<close> handle is the
  position of its record, or \<open>None\<close> for the nil handle.\<close>

type_synonym Registry = "ReaderStatus list"
type_synonym Reader = "nat option"

section \<open>Operations\<close>

definition NewRegistry :: Registry where
  "NewRegistry = []"

definition registry_Add :: "ReaderStatus \<Rightarrow> Registry \<Rightarrow> Registry \<times> Reader" where
  "registry_Add initial r = (r @ [initial], Some (length r))"

definition registry_Snapshot :: "Registry option \<Rightarrow> ReaderStatus list" where
  "registry_Snapshot r = (case r of None \<Rightarrow> [] | Some order \<Rightarrow> order)"

definition upd_reader :: "Reader \<Rightarrow> (ReaderStatus \<Rightarrow> ReaderStatus) \<Rightarrow> Registry \<Rightarrow> Registry" where
  "upd_reader h f r =
     (case h of None \<Rightarrow> r | Some i \<Rightarrow> if i < length r then r[i := f (r ! i)] else r)"

definition PollStarted :: "Reader \<Rightarrow> nanos \<Rightarrow> Registry \<Rightarrow> Registry" where
  "PollStarted h now = upd_reader h (\<lambda>s. s\<lparr>rs_lastPollStart := Some now\<rparr>)"

definition PollSucceeded :: "Reader \<Rightarrow> nanos \<Rightarrow> Registry \<Rightarrow> Registry" where
  "PollSucceeded h now =
     upd_reader h (\<lambda>s. s\<lparr>rs_lastPollOK := Some now, rs_lastError := [], rs_polls := rs_polls s + 1,
                         rs_healthy := True\<rparr>)"

text \<open>The error's text; \<open>None\<close> for a nil error.\<close>

definition error_text :: "string option \<Rightarrow> string" where
  "error_text err = (case err of None \<Rightarrow> [] | Some e \<Rightarrow> e)"

definition PollFailed :: "Reader \<Rightarrow> nanos \<Rightarrow> string option \<Rightarrow> Registry \<Rightarrow> Registry" where
  "PollFailed h now err =
     upd_reader h (\<lambda>s. s\<lparr>rs_lastError := error_text err, rs_polls := rs_polls s + 1, rs_healthy := False\<rparr>)"

definition NoteError :: "Reader \<Rightarrow> string option \<Rightarrow> Registry \<Rightarrow> Registry" where
  "NoteError h err = upd_reader h (\<lambda>s. s\<lparr>rs_lastError := error_text err, rs_healthy := False\<rparr>)"

definition SetAccount :: "Reader \<Rightarrow> string \<Rightarrow> Registry \<Rightarrow> Registry" where
  "SetAccount h account = upd_reader h (\<lambda>s. s\<lparr>rs_account := account\<rparr>)"

section \<open>A sequence of reports\<close>

datatype report =
    Started nanos | Succeeded nanos | FailedPoll nanos string | Noted string | AccountSet string

fun apply_report :: "Reader \<Rightarrow> report \<Rightarrow> Registry \<Rightarrow> Registry" where
  "apply_report h (Started t) r = PollStarted h t r"
| "apply_report h (Succeeded t) r = PollSucceeded h t r"
| "apply_report h (FailedPoll t e) r = PollFailed h t (Some e) r"
| "apply_report h (Noted e) r = NoteError h (Some e) r"
| "apply_report h (AccountSet a) r = SetAccount h a r"

definition counts :: "report \<Rightarrow> bool" where
  "counts x = (case x of Succeeded _ \<Rightarrow> True | FailedPoll _ _ \<Rightarrow> True | _ \<Rightarrow> False)"

text \<open>The health after a sequence of reports: that of the last one that says anything of it.\<close>

fun health :: "report list \<Rightarrow> bool \<Rightarrow> bool" where
  "health [] h = h"
| "health (Succeeded _ # xs) h = health xs True"
| "health (FailedPoll _ _ # xs) h = health xs False"
| "health (Noted _ # xs) h = health xs False"
| "health (_ # xs) h = health xs h"

section \<open>Lemmas\<close>

lemma upd_reader_simps:
  "length (upd_reader h f r) = length r"
  "j \<noteq> i \<Longrightarrow> upd_reader (Some i) f r ! j = r ! j"
  "i < length r \<Longrightarrow> upd_reader (Some i) f r ! i = f (r ! i)"
  "upd_reader None f r = r"
  by (auto simp: upd_reader_def split: option.splits)

lemmas report_defs = PollStarted_def PollSucceeded_def PollFailed_def NoteError_def SetAccount_def

lemma apply_report_frame:
  "length (apply_report h x r) = length r" "j \<noteq> i \<Longrightarrow> apply_report (Some i) x r ! j = r ! j"
  by (cases x; simp add: report_defs upd_reader_simps)+

lemma apply_report_own:
  assumes "i < length r"
  shows "rs_polls (apply_report (Some i) x r ! i) = rs_polls (r ! i) + (if counts x then 1 else 0)"
    "rs_healthy (apply_report (Some i) x r ! i) = health [x] (rs_healthy (r ! i))"
  using assms by (cases x; simp add: report_defs upd_reader_simps counts_def)+

lemma health_Cons: "health (x # xs) h = health xs (health [x] h)"
  by (cases x) auto

section \<open>Properties\<close>

text \<open>A reader's reports change its own record only, keep the order of the readers, count the
  completed polls (modulo 2 to the 64) and leave it healthy exactly when the last report about a
  poll or an error was a success.\<close>

lemma registry_reports:
  assumes "i < length r"
  shows "let r' = fold (apply_report (Some i)) xs r in
    length r' = length r \<and> (\<forall>j. j \<noteq> i \<longrightarrow> r' ! j = r ! j) \<and>
    rs_polls (r' ! i) = rs_polls (r ! i) + of_nat (length (filter counts xs)) \<and>
    rs_healthy (r' ! i) = health xs (rs_healthy (r ! i))"
  using assms
proof (induction xs arbitrary: r)
  case Nil
  then show ?case by simp
next
  case (Cons x xs)
  from Cons.prems have "i < length (apply_report (Some i) x r)" by (simp add: apply_report_frame)
  from Cons.IH [OF this] show ?case
    using Cons.prems health_Cons [of x xs "rs_healthy (r ! i)"]
    by (auto simp: Let_def apply_report_frame apply_report_own)
qed

definition demo_reader :: ReaderStatus where
  "demo_reader = \<lparr>rs_mode = ''ecs'', rs_name = ''prod'', rs_account = [], rs_cluster = ''c'', rs_region = [],
     rs_pollInterval = 0, rs_lastPollStart = None, rs_lastPollOK = None, rs_lastError = [], rs_polls = 0,
     rs_healthy = False\<rparr>"

lemma registry_reports_witness:
  "rs_polls (fold (apply_report (Some 0)) [Started 1, Succeeded 2, Started 3, FailedPoll 4 ''denied''] [demo_reader] ! 0) = 2"
  using registry_reports [of 0 "[demo_reader]" "[Started 1, Succeeded 2, Started 3, FailedPoll 4 ''denied'']"]
  by (simp add: Let_def counts_def demo_reader_def)

end
