(* ===== verification/Poll_Loop.thy ===== *)
theory Poll_Loop
  imports Registry
begin

text \<open>
  The polling loop that the ECS and the Lambda watcher share (\<^verbatim>\<open>Run\<close>, \<^verbatim>\<open>reportCycle\<close>,
  \<^verbatim>\<open>nextInterval\<close> and the head of \<^verbatim>\<open>cycle\<close> in \<^verbatim>\<open>ecs/watcher.go\<close> and \<^verbatim>\<open>lambda/watcher.go\<close>, which have the
  same text). The clock, the sleeps and the rest of a cycle are arguments.
\<close>

section \<open>Data\<close>

text \<open>The part of a watcher that paces it: the intervals of its configuration, its account label,
  whether an account still has to be resolved, and the calls made of \<^verbatim>\<open>OnAccountResolved\<close>, latest
  first.\<close>

record poller =
  po_pollInterval :: nanos
  po_retryInterval :: nanos
  po_account :: string
  po_hasResolver :: bool
  po_healthy :: bool
  po_accountResolved :: bool
  po_onResolved :: "string list"

definition second :: nanos where
  "second = 1000000000"

definition new_poller :: "nanos \<Rightarrow> nanos \<Rightarrow> nanos \<Rightarrow> string \<Rightarrow> bool \<Rightarrow> poller" where
  "new_poller dflt poll retry account hasResolver =
     \<lparr>po_pollInterval = (if poll \<le> 0 then dflt else poll),
      po_retryInterval = (if retry \<le> 0 then 120 * second else retry),
      po_account = account, po_hasResolver = hasResolver, po_healthy = False, po_accountResolved = False,
      po_onResolved = []\<rparr>"

text \<open>The constructors of the two watchers; ECS requires a cluster.\<close>

definition ecs_NewWatcher :: "string \<Rightarrow> nanos \<Rightarrow> nanos \<Rightarrow> string \<Rightarrow> bool \<Rightarrow> string + poller" where
  "ecs_NewWatcher cluster poll retry account hasResolver =
     (if cluster = [] then Inl ''ecs.Watcher: Cluster is required''
      else Inr (new_poller (10 * second) poll retry account hasResolver))"

definition lambda_NewWatcher :: "nanos \<Rightarrow> nanos \<Rightarrow> string \<Rightarrow> bool \<Rightarrow> poller" where
  "lambda_NewWatcher poll retry account hasResolver = new_poller (30 * second) poll retry account hasResolver"

section \<open>Operations\<close>

definition nextInterval :: "poller \<Rightarrow> nanos" where
  "nextInterval p = (if po_healthy p then po_pollInterval p else max (po_pollInterval p) (po_retryInterval p))"

text \<open>The head of \<^verbatim>\<open>cycle\<close>, with what \<^verbatim>\<open>ResolveAccount\<close> would answer.\<close>

definition resolve_account :: "string + string \<Rightarrow> poller \<Rightarrow> poller \<times> string option" where
  "resolve_account answer p =
     (if \<not> po_accountResolved p \<and> po_hasResolver p
      then case answer of
             Inl err \<Rightarrow> (p, Some (''resolve account identity: '' @ err))
           | Inr account \<Rightarrow>
               (p\<lparr>po_accountResolved := True, po_onResolved := account # po_onResolved p,
                  po_account := account\<rparr>, None)
      else (p, None))"

text \<open>\<open>cycle\<close> maps the pacing state and the rest of the watcher to their successors and the error's
  text, or to \<open>None\<close> when it does not return; \<open>canceled\<close> tells the errors that are the context's
  cancellation.\<close>

definition reportCycle ::
  "(string \<Rightarrow> bool) \<Rightarrow> Reader \<Rightarrow> string option \<Rightarrow> nanos \<Rightarrow> nanos
     \<Rightarrow> (poller \<times> 'st \<Rightarrow> ((poller \<times> 'st) \<times> string option) option)
     \<Rightarrow> Registry \<times> poller \<times> 'st \<Rightarrow> ((Registry \<times> poller \<times> 'st) \<times> string option) option" where
  "reportCycle canceled h ctxErr t1 t2 cycle x =
     (case x of (r, p, st) \<Rightarrow>
        (case ctxErr of
           Some e \<Rightarrow> Some ((r, p, st), Some e)
         | None \<Rightarrow>
             let r1 = PollStarted h t1 r in
             (case cycle (p, st) of
                None \<Rightarrow> None
              | Some ((p', st'), err) \<Rightarrow>
                  (case err of
                     None \<Rightarrow> Some ((PollSucceeded h t2 r1, p'\<lparr>po_healthy := True\<rparr>, st'), None)
                   | Some e \<Rightarrow>
                       if canceled e then Some ((r1, p', st'), Some e)
                       else Some ((PollFailed h t2 (Some e) r1, p'\<lparr>po_healthy := False\<rparr>, st'), Some e)))))"

text \<open>\<^verbatim>\<open>Run\<close>: a cycle, then, after every sleep that is not cut short, another. A round is what the
  environment gives one cycle: the context's error, the two clock readings, the cycle itself, and
  whether the sleep after it ran to its end. The intervals slept are collected.\<close>

type_synonym 'st round =
  "string option \<times> nanos \<times> nanos \<times> (poller \<times> 'st \<Rightarrow> ((poller \<times> 'st) \<times> string option) option) \<times> bool"

fun poll_Run ::
  "(string \<Rightarrow> bool) \<Rightarrow> Reader \<Rightarrow> 'st round list \<Rightarrow> Registry \<times> poller \<times> 'st \<Rightarrow> nanos list
     \<Rightarrow> ((Registry \<times> poller \<times> 'st) \<times> nanos list) option" where
  "poll_Run canceled h [] x slept = Some (x, slept)"
| "poll_Run canceled h ((ctxErr, t1, t2, cycle, sleeps) # rounds) x slept =
     (case reportCycle canceled h ctxErr t1 t2 cycle x of
        None \<Rightarrow> None
      | Some (x', _) \<Rightarrow>
          let d = nextInterval (fst (snd x')) in
          if sleeps then poll_Run canceled h rounds x' (d # slept) else Some (x', d # slept))"

section \<open>Lemmas\<close>

text \<open>What a cycle may do to the pacing state: resolve the account, once, and nothing else.\<close>

definition paces :: "(poller \<times> 'st \<Rightarrow> ((poller \<times> 'st) \<times> string option) option) \<Rightarrow> bool" where
  "paces cycle \<longleftrightarrow>
     (\<forall>p st p' st' e. cycle (p, st) = Some ((p', st'), e) \<longrightarrow> (\<exists>answer. p' = fst (resolve_account answer p)))"

definition poller_ok :: "poller \<Rightarrow> bool" where
  "poller_ok p \<longleftrightarrow>
     0 < po_pollInterval p \<and> 0 < po_retryInterval p \<and>
     po_onResolved p = (if po_accountResolved p then [po_account p] else [])"

lemma resolve_account_frames:
  "po_pollInterval (fst (resolve_account a p)) = po_pollInterval p"
  "po_retryInterval (fst (resolve_account a p)) = po_retryInterval p"
  "po_healthy (fst (resolve_account a p)) = po_healthy p"
  "poller_ok p \<Longrightarrow> poller_ok (fst (resolve_account a p))"
  by (auto simp: resolve_account_def poller_ok_def split: sum.splits)

lemma nextInterval_bounds:
  "poller_ok p \<Longrightarrow> 0 < nextInterval p \<and> po_pollInterval p \<le> nextInterval p \<and>
     (po_healthy p \<longrightarrow> nextInterval p = po_pollInterval p) \<and>
     (\<not> po_healthy p \<longrightarrow> po_retryInterval p \<le> nextInterval p)"
  by (auto simp: nextInterval_def poller_ok_def)

lemma new_poller_ok: "0 < dflt \<Longrightarrow> poller_ok (new_poller dflt poll retry account hasResolver)"
  by (simp add: poller_ok_def new_poller_def second_def)

text \<open>The watcher's health and the one the registry shows are the same.\<close>

definition mirrored :: "Reader \<Rightarrow> Registry \<times> poller \<times> 'st \<Rightarrow> bool" where
  "mirrored h x \<longleftrightarrow>
     (case (h, x) of (Some i, (r, p, _)) \<Rightarrow> i < length r \<longrightarrow> rs_healthy (r ! i) = po_healthy p | _ \<Rightarrow> True)"

text \<open>The reference for the pace. Of each round that is run, what its cycle answered, or \<open>None\<close> when the
  context was done before it; the health that leaves; and the sleeps that go with it.\<close>

fun cycle_results ::
  "(string \<Rightarrow> bool) \<Rightarrow> Reader \<Rightarrow> 'st round list \<Rightarrow> Registry \<times> poller \<times> 'st \<Rightarrow> string option option list" where
  "cycle_results canceled h [] x = []"
| "cycle_results canceled h ((ctxErr, t1, t2, cycle, sleeps) # rounds) x =
     (case reportCycle canceled h ctxErr t1 t2 cycle x of
        None \<Rightarrow> []
      | Some (x', err) \<Rightarrow>
          (if ctxErr = None then Some err else None) # (if sleeps then cycle_results canceled h rounds x' else []))"

fun health_after :: "(string \<Rightarrow> bool) \<Rightarrow> bool \<Rightarrow> string option option \<Rightarrow> bool" where
  "health_after canceled healthy None = healthy"
| "health_after canceled healthy (Some None) = True"
| "health_after canceled healthy (Some (Some e)) = (healthy \<and> canceled e)"

fun expected_sleeps :: "(string \<Rightarrow> bool) \<Rightarrow> nanos \<Rightarrow> nanos \<Rightarrow> bool \<Rightarrow> string option option list \<Rightarrow> nanos list" where
  "expected_sleeps canceled poll retry healthy [] = []"
| "expected_sleeps canceled poll retry healthy (res # results) =
     (if health_after canceled healthy res then poll else max poll retry) #
     expected_sleeps canceled poll retry (health_after canceled healthy res) results"

lemma expected_sleeps_range: "set (expected_sleeps canceled poll retry healthy results) \<subseteq> {poll, max poll retry}"
  by (induction results arbitrary: healthy) auto

lemma reportCycle_step:
  assumes "paces cycle" "poller_ok p" "mirrored h (r, p, st)"
    "reportCycle canceled h ctxErr t1 t2 cycle (r, p, st) = Some ((r', p', st'), e)"
  shows "poller_ok p' \<and> mirrored h (r', p', st') \<and> po_pollInterval p' = po_pollInterval p \<and>
    po_retryInterval p' = po_retryInterval p"
proof (cases ctxErr)
  case (Some x)
  with assms show ?thesis by (auto simp: reportCycle_def)
next
  case None
  with assms(4) obtain p1 st1 err where c: "cycle (p, st) = Some ((p1, st1), err)"
    by (auto simp: reportCycle_def Let_def split: option.splits)
  have r: "(err = None \<and> r' = PollSucceeded h t2 (PollStarted h t1 r) \<and> p' = p1\<lparr>po_healthy := True\<rparr>) \<or>
      (r' = PollStarted h t1 r \<and> p' = p1) \<or>
      (\<exists>x. r' = PollFailed h t2 (Some x) (PollStarted h t1 r) \<and> p' = p1\<lparr>po_healthy := False\<rparr>)"
    using None assms(4) c by (cases err) (auto simp: reportCycle_def Let_def split: if_splits)
  from assms(1) c obtain a where p1: "p1 = fst (resolve_account a p)" unfolding paces_def by blast
  have "poller_ok p1" "po_healthy p1 = po_healthy p" "po_pollInterval p1 = po_pollInterval p"
    "po_retryInterval p1 = po_retryInterval p"
    using assms(2) by (simp_all add: p1 resolve_account_frames)
  with r assms(3) show ?thesis
    by (auto simp: mirrored_def poller_ok_def report_defs upd_reader_simps split: option.splits)
qed

lemma reportCycle_health:
  assumes "paces cycle" "reportCycle canceled h ctxErr t1 t2 cycle (r, p, st) = Some ((r', p', st'), e)"
  shows "po_healthy p' = health_after canceled (po_healthy p) (if ctxErr = None then Some e else None)"
proof (cases ctxErr)
  case (Some x)
  with assms show ?thesis by (auto simp: reportCycle_def)
next
  case None
  with assms(2) obtain p1 st1 err where c: "cycle (p, st) = Some ((p1, st1), err)"
    by (auto simp: reportCycle_def Let_def split: option.splits)
  with assms(1) obtain a where "p1 = fst (resolve_account a p)" unfolding paces_def by blast
  then have "po_healthy p1 = po_healthy p" by (simp add: resolve_account_frames)
  with None c assms(2) show ?thesis
    by (cases err) (auto simp: reportCycle_def Let_def split: if_splits)
qed

lemma poll_Run_step:
  assumes "\<forall>x\<in>set rounds. paces (fst (snd (snd (snd x))))" "poller_ok (fst (snd x))" "mirrored h x"
    "poll_Run canceled h rounds x slept = Some (x', slept')"
  shows "poller_ok (fst (snd x')) \<and> mirrored h x' \<and> po_pollInterval (fst (snd x')) = po_pollInterval (fst (snd x)) \<and>
    slept' = rev (expected_sleeps canceled (po_pollInterval (fst (snd x))) (po_retryInterval (fst (snd x)))
      (po_healthy (fst (snd x))) (cycle_results canceled h rounds x)) @ slept"
  using assms
proof (induction rounds arbitrary: x slept)
  case Nil
  then show ?case by simp
next
  case (Cons rd rounds)
  obtain ctxErr t1 t2 cycle sleeps where rd: "rd = (ctxErr, t1, t2, cycle, sleeps)" by (cases rd)
  obtain r p st where x: "x = (r, p, st)" by (cases x)
  from Cons.prems(4) obtain r1 p1 st1 e where
    c: "reportCycle canceled h ctxErr t1 t2 cycle x = Some ((r1, p1, st1), e)"
    by (auto simp: rd split: option.splits)
  have "paces cycle" using Cons.prems(1) by (simp add: rd)
  note step = reportCycle_step [OF this _ _ c [unfolded x]]
  have ok: "poller_ok p1" "mirrored h (r1, p1, st1)" "po_pollInterval p1 = po_pollInterval p"
    "po_retryInterval p1 = po_retryInterval p"
    "po_healthy p1 = health_after canceled (po_healthy p) (if ctxErr = None then Some e else None)"
    using step Cons.prems(2,3) reportCycle_health [OF \<open>paces cycle\<close> c [unfolded x]] by (simp_all add: x)
  have d: "nextInterval p1 = (if po_healthy p1 then po_pollInterval p else max (po_pollInterval p) (po_retryInterval p))"
    using ok by (simp add: nextInterval_def)
  show ?case
  proof (cases sleeps)
    case True
    then have "poll_Run canceled h rounds (r1, p1, st1) (nextInterval p1 # slept) = Some (x', slept')"
      using Cons.prems(4) c by (simp add: rd Let_def)
    from Cons.IH [OF _ _ _ this] Cons.prems(1) ok d True c show ?thesis by (simp add: x rd)
  next
    case False
    then have "x' = (r1, p1, st1)" "slept' = nextInterval p1 # slept"
      using Cons.prems(4) c by (simp_all add: rd Let_def)
    with ok d False c show ?thesis by (simp add: x rd)
  qed
qed

text \<open>What every cycle keeps of the rest of the watcher, a run keeps.\<close>

definition keeps :: "('st \<Rightarrow> bool) \<Rightarrow> (poller \<times> 'st \<Rightarrow> ((poller \<times> 'st) \<times> string option) option) \<Rightarrow> bool" where
  "keeps P cycle \<longleftrightarrow> (\<forall>p st p' st' e. cycle (p, st) = Some ((p', st'), e) \<longrightarrow> P st \<longrightarrow> P st')"

lemma reportCycle_keeps:
  assumes "keeps P cycle" "reportCycle canceled h ctxErr t1 t2 cycle (r, p, st) = Some ((r', p', st'), e)" "P st"
  shows "P st'"
proof (cases ctxErr)
  case (Some x)
  with assms(2,3) show ?thesis by (simp add: reportCycle_def)
next
  case None
  with assms(2) obtain p1 e1 where "cycle (p, st) = Some ((p1, st'), e1)"
    by (auto simp: reportCycle_def Let_def split: option.splits if_splits)
  with assms(1,3) show ?thesis unfolding keeps_def by blast
qed

lemma poll_Run_keeps:
  assumes "\<forall>x\<in>set rounds. keeps P (fst (snd (snd (snd x))))" "P (snd (snd x))"
    "poll_Run canceled h rounds x slept = Some (x', slept')"
  shows "P (snd (snd x'))"
  using assms
proof (induction rounds arbitrary: x slept)
  case (Cons rd rounds)
  obtain ctxErr t1 t2 cycle sleeps where rd: "rd = (ctxErr, t1, t2, cycle, sleeps)" by (cases rd)
  obtain r p st where x: "x = (r, p, st)" by (cases x)
  from Cons.prems(3) obtain r1 p1 st1 e where
    c: "reportCycle canceled h ctxErr t1 t2 cycle x = Some ((r1, p1, st1), e)"
    by (auto simp: rd split: option.splits)
  have "keeps P cycle" using Cons.prems(1) by (simp add: rd)
  then have P: "P st1" by (rule reportCycle_keeps [OF _ c [unfolded x]]) (use Cons.prems(2) x in simp)
  show ?case
  proof (cases sleeps)
    case True
    then have "poll_Run canceled h rounds (r1, p1, st1) (nextInterval p1 # slept) = Some (x', slept')"
      using Cons.prems(3) c by (simp add: rd Let_def)
    from Cons.IH [OF _ _ this] Cons.prems(1) P show ?thesis by simp
  next
    case False
    then show ?thesis using Cons.prems(3) c P by (auto simp: rd Let_def)
  qed
qed simp

section \<open>Properties\<close>

text \<open>C40: the pace of a watcher. Through any run of cycles the sleeps are exactly these: after a cycle that
  succeeded the poll interval, after one that failed the longer of the poll and the retry interval, and
  after one that was cancelled, or not begun because the context was done, what the last cycle with a
  verdict asks for, or the longer interval before there is one. None is zero or less. The health the
  registry shows for the reader is the watcher's own; and the account is announced once if it has been
  resolved, and not before.\<close>

theorem poll_pace:
  assumes "0 < dflt" "\<forall>x\<in>set rounds. paces (fst (snd (snd (snd x))))"
    and "i < length r" "\<not> rs_healthy (r ! i)"
    and "p = new_poller dflt poll retry account hasResolver"
    and "poll_Run canceled (Some i) rounds (r, p, st) [] = Some ((r', p', st'), slept)"
  shows "rev slept = expected_sleeps canceled (po_pollInterval p) (po_retryInterval p) False
      (cycle_results canceled (Some i) rounds (r, p, st)) \<and>
    (\<forall>d\<in>set slept. 0 < d) \<and>
    (i < length r' \<longrightarrow> rs_healthy (r' ! i) = po_healthy p') \<and>
    po_onResolved p' = (if po_accountResolved p' then [po_account p'] else [])"
proof -
  let ?results = "cycle_results canceled (Some i) rounds (r, p, st)"
  have ok: "poller_ok p" "\<not> po_healthy p" using assms(1,5) new_poller_ok by (auto simp: new_poller_def)
  have "mirrored (Some i) (r, p, st)" using assms(4,5) by (simp add: mirrored_def new_poller_def)
  note run = poll_Run_step [OF assms(2) _ this assms(6)]
  have sleeps: "rev slept = expected_sleeps canceled (po_pollInterval p) (po_retryInterval p) False ?results"
    using run ok by simp
  moreover have "0 < d" if "d \<in> set slept" for d
    using that expected_sleeps_range [of canceled "po_pollInterval p" "po_retryInterval p" False ?results] ok(1)
    unfolding sleeps [symmetric] by (auto simp: poller_ok_def)
  moreover have "mirrored (Some i) (r', p', st')" "poller_ok p'" using run ok by simp_all
  ultimately show ?thesis by (simp add: mirrored_def poller_ok_def)
qed

text \<open>A failure, a success, a failure: the retry interval, the poll interval, the retry interval.\<close>

definition pace_rounds :: "unit round list" where
  "pace_rounds = map (\<lambda>err. (None, 1, 2, \<lambda>(p, st). Some ((p, st), err), True)) [Some ''AccessDenied'', None, Some ''Throttled'']"

theorem poll_pace_witness:
  "map_option snd (poll_Run (\<lambda>_. False) (Some 0) pace_rounds ([demo_reader], new_poller 10 5 60 ''prod'' False, ()) []) =
     Some (rev [60, 5, 60])"
proof -
  let ?x = "([demo_reader], new_poller 10 5 60 ''prod'' False, ())"
  have "\<forall>x\<in>set pace_rounds. paces (fst (snd (snd (snd x))))"
    by (auto simp: pace_rounds_def paces_def resolve_account_def split: if_splits sum.splits)
  note pace = poll_pace [OF _ this, of 10 0 "[demo_reader]" "new_poller 10 5 60 ''prod'' False" 5 60 "''prod''" False
      "\<lambda>_. False" "()"]
  obtain x' slept where run: "poll_Run (\<lambda>_. False) (Some 0) pace_rounds ?x [] = Some (x', slept)"
    by (cases "poll_Run (\<lambda>_. False) (Some 0) pace_rounds ?x []") (auto simp: pace_rounds_def reportCycle_def Let_def)
  have results: "cycle_results (\<lambda>_. False) (Some 0) pace_rounds ?x = [Some (Some ''AccessDenied''), Some None, Some (Some ''Throttled'')]"
    by (simp add: pace_rounds_def reportCycle_def Let_def)
  obtain r' p' st' where "x' = (r', p', st')" by (cases x')
  with pace run have "rev slept = expected_sleeps (\<lambda>_. False) 5 60 False (cycle_results (\<lambda>_. False) (Some 0) pace_rounds ?x)"
    by (simp add: demo_reader_def new_poller_def)
  then have "rev (rev slept) = rev [60, 5, 60]" unfolding results by simp
  with run show ?thesis by simp
qed

end
