(* ===== verification/Ecs_Watcher.thy ===== *)
theory Ecs_Watcher
  imports Ecs_Resolve Poll_Loop
begin

text \<open>
  The ECS watcher (\<^verbatim>\<open>ecs/watcher.go\<close>): listing, describing and registering the labelled containers of
  the running tasks of a cluster. What AWS answers during a cycle is an argument. The set \<^verbatim>\<open>seen\<close>, a
  local variable of a cycle, is a field of the state, emptied when a cycle begins.
\<close>

section \<open>Paging and batching\<close>

text \<open>\<open>fetch\<close> is \<^verbatim>\<open>ListTasks\<close>: from a token to the ARNs of a page and the next token. \<open>None\<close> as the
  whole result: the paging never ends.\<close>

partial_function (option) list_pages ::
  "(string option \<Rightarrow> string + 'a list \<times> string option) \<Rightarrow> string option \<Rightarrow> 'a list \<Rightarrow> (string + 'a list) option" where
  "list_pages fetch tok acc =
     (case fetch tok of
        Inl err \<Rightarrow> Some (Inl err)
      | Inr (page, next) \<Rightarrow>
          if next = None \<or> next = Some [] then Some (Inr (acc @ page))
          else list_pages fetch next (acc @ page))"

definition listAllTaskArns ::
  "(string option \<Rightarrow> string + string list \<times> string option) \<Rightarrow> (string + string list) option" where
  "listAllTaskArns listTasks = list_pages listTasks None []"

function chunk :: "'a list \<Rightarrow> nat \<Rightarrow> 'a list list" where
  "chunk s n = (if n = 0 \<or> s = [] then [] else take n s # chunk (drop n s) n)"
  by pat_completeness auto
termination
  by (relation "measure (\<lambda>(s, n). length s)") auto

declare chunk.simps [simp del]

definition registrationKey :: "string \<Rightarrow> string \<Rightarrow> string" where
  "registrationKey taskArn containerName = taskArn @ ''#'' @ containerName"

section \<open>A cycle\<close>

record 's ecs_state =
  es_reg :: 's
  es_book :: "string book"
  es_taskDefs :: taskDefCache
  es_hostIPs :: hostIPCache
  es_seen :: "string list"

text \<open>The body of \<^verbatim>\<open>applyTask\<close>'s loop, for one container definition.\<close>

definition apply_container ::
  "(string \<Rightarrow> ServiceDef \<times> string \<Rightarrow> 's \<Rightarrow> 's \<times> 'e option) \<Rightarrow> (string \<Rightarrow> 's \<Rightarrow> 's) \<Rightarrow> ('e \<Rightarrow> string)
     \<Rightarrow> aws \<Rightarrow> Task \<Rightarrow> TaskDefinition \<Rightarrow> ContainerDefinition \<Rightarrow> 's ecs_state \<Rightarrow> 's ecs_state" where
  "apply_container reg dereg regtext api task td cd st =
     (case cd_name cd of
        None \<Rightarrow> st
      | Some name \<Rightarrow>
          (case Parse (cd_dockerLabels cd) of
             Inl _ \<Rightarrow> st
           | Inr def \<Rightarrow>
               let key = registrationKey (derefArn (t_taskArn task)) name;
                   st1 = st\<lparr>es_seen := key # es_seen st\<rparr>
               in (case resolveBackend api task td name (sd_port def) (es_hostIPs st1) of
                     (ips, Inl _) \<Rightarrow> st1\<lparr>es_hostIPs := ips\<rparr>
                   | (ips, Inr be) \<Rightarrow>
                       (case sync_key reg dereg regtext key (def\<lparr>sd_port := snd be\<rparr>, fst be)
                               (backend_addr (fst be) (snd be)) (es_reg st1, es_book st1) of
                          (s', w') \<Rightarrow> st1\<lparr>es_hostIPs := ips, es_reg := s', es_book := w'\<rparr>))))"

definition applyTask ::
  "(string \<Rightarrow> ServiceDef \<times> string \<Rightarrow> 's \<Rightarrow> 's \<times> 'e option) \<Rightarrow> (string \<Rightarrow> 's \<Rightarrow> 's) \<Rightarrow> ('e \<Rightarrow> string)
     \<Rightarrow> aws \<Rightarrow> Task \<Rightarrow> TaskDefinition \<Rightarrow> 's ecs_state \<Rightarrow> 's ecs_state" where
  "applyTask reg dereg regtext api task td st =
     fold (apply_container reg dereg regtext api task td) (td_containerDefinitions td) st"

text \<open>One task of a batch.\<close>

definition cycle_task ::
  "(string \<Rightarrow> ServiceDef \<times> string \<Rightarrow> 's \<Rightarrow> 's \<times> 'e option) \<Rightarrow> (string \<Rightarrow> 's \<Rightarrow> 's) \<Rightarrow> ('e \<Rightarrow> string)
     \<Rightarrow> aws \<Rightarrow> Task \<Rightarrow> 's ecs_state \<Rightarrow> 's ecs_state" where
  "cycle_task reg dereg regtext api task st =
     (if t_lastStatus task \<noteq> Some ''RUNNING'' then st
      else case t_taskDefinitionArn task of
        None \<Rightarrow> st
      | Some arn \<Rightarrow>
          (case taskDefs_get api arn (es_taskDefs st) of
             (tds, Inl _) \<Rightarrow> st\<lparr>es_taskDefs := tds\<rparr>
           | (tds, Inr td) \<Rightarrow> applyTask reg dereg regtext api task td (st\<lparr>es_taskDefs := tds\<rparr>)))"

fun cycle_batches ::
  "(string \<Rightarrow> ServiceDef \<times> string \<Rightarrow> 's \<Rightarrow> 's \<times> 'e option) \<Rightarrow> (string \<Rightarrow> 's \<Rightarrow> 's) \<Rightarrow> ('e \<Rightarrow> string)
     \<Rightarrow> aws \<Rightarrow> (string list \<Rightarrow> string + Task list) \<Rightarrow> string list list \<Rightarrow> 's ecs_state
     \<Rightarrow> 's ecs_state \<times> string option" where
  "cycle_batches reg dereg regtext api describeTasks [] st = (st, None)"
| "cycle_batches reg dereg regtext api describeTasks (batch # batches) st =
     (case describeTasks batch of
        Inl err \<Rightarrow> (st, Some (''DescribeTasks: '' @ err))
      | Inr tasks \<Rightarrow>
          cycle_batches reg dereg regtext api describeTasks batches
            (fold (cycle_task reg dereg regtext api) tasks st))"

text \<open>A cycle once the reader's identity is known; \<open>None\<close>: the listing never ends.\<close>

definition ecs_poll ::
  "(string \<Rightarrow> ServiceDef \<times> string \<Rightarrow> 's \<Rightarrow> 's \<times> 'e option) \<Rightarrow> (string \<Rightarrow> 's \<Rightarrow> 's) \<Rightarrow> ('e \<Rightarrow> string)
     \<Rightarrow> aws \<Rightarrow> (string option \<Rightarrow> string + string list \<times> string option)
     \<Rightarrow> (string list \<Rightarrow> string + Task list) \<Rightarrow> 's ecs_state \<Rightarrow> ('s ecs_state \<times> string option) option" where
  "ecs_poll reg dereg regtext api listTasks describeTasks st =
     (case listAllTaskArns listTasks of
        None \<Rightarrow> None
      | Some (Inl err) \<Rightarrow> Some (st\<lparr>es_seen := []\<rparr>, Some (''ListTasks: '' @ err))
      | Some (Inr arns) \<Rightarrow>
          (case cycle_batches reg dereg regtext api describeTasks (chunk arns 100) (st\<lparr>es_seen := []\<rparr>) of
             (st1, Some err) \<Rightarrow> Some (st1, Some err)
           | (st1, None) \<Rightarrow>
               (case removeMissing dereg (es_seen st1) (es_reg st1, es_book st1) of
                  (s', w') \<Rightarrow> Some (st1\<lparr>es_reg := s', es_book := w'\<rparr>, None))))"

text \<open>\<^verbatim>\<open>cycle\<close>, with what \<^verbatim>\<open>ResolveAccount\<close> would answer.\<close>

definition ecs_cycle ::
  "(string \<Rightarrow> ServiceDef \<times> string \<Rightarrow> 's \<Rightarrow> 's \<times> 'e option) \<Rightarrow> (string \<Rightarrow> 's \<Rightarrow> 's) \<Rightarrow> ('e \<Rightarrow> string)
     \<Rightarrow> aws \<Rightarrow> string + string \<Rightarrow> (string option \<Rightarrow> string + string list \<times> string option)
     \<Rightarrow> (string list \<Rightarrow> string + Task list) \<Rightarrow> poller \<times> 's ecs_state
     \<Rightarrow> ((poller \<times> 's ecs_state) \<times> string option) option" where
  "ecs_cycle reg dereg regtext api answer listTasks describeTasks x =
     (case x of (p, st) \<Rightarrow>
        (case resolve_account answer p of
           (p', Some err) \<Rightarrow> Some ((p', st), Some err)
         | (p', None) \<Rightarrow>
             map_option (\<lambda>(st', e). ((p', st'), e))
               (ecs_poll reg dereg regtext api listTasks describeTasks st)))"

text \<open>The watcher: what one round of its loop is given, and the run over the rounds.\<close>

record ecs_answers =
  ea_ctxErr :: "string option"
  ea_started :: nanos
  ea_ended :: nanos
  ea_api :: aws
  ea_account :: "string + string"
  ea_listTasks :: "string option \<Rightarrow> string + string list \<times> string option"
  ea_describeTasks :: "string list \<Rightarrow> string + Task list"
  ea_sleeps :: bool

definition ecs_round ::
  "(string \<Rightarrow> ServiceDef \<times> string \<Rightarrow> 's \<Rightarrow> 's \<times> 'e option) \<Rightarrow> (string \<Rightarrow> 's \<Rightarrow> 's) \<Rightarrow> ('e \<Rightarrow> string)
     \<Rightarrow> ecs_answers \<Rightarrow> 's ecs_state round" where
  "ecs_round reg dereg regtext x =
     (ea_ctxErr x, ea_started x, ea_ended x,
      ecs_cycle reg dereg regtext (ea_api x) (ea_account x) (ea_listTasks x) (ea_describeTasks x), ea_sleeps x)"

definition ecs_Run ::
  "(string \<Rightarrow> ServiceDef \<times> string \<Rightarrow> 's \<Rightarrow> 's \<times> 'e option) \<Rightarrow> (string \<Rightarrow> 's \<Rightarrow> 's) \<Rightarrow> ('e \<Rightarrow> string)
     \<Rightarrow> (string \<Rightarrow> bool) \<Rightarrow> Reader \<Rightarrow> ecs_answers list \<Rightarrow> Registry \<times> poller \<times> 's ecs_state
     \<Rightarrow> ((Registry \<times> poller \<times> 's ecs_state) \<times> nanos list) option" where
  "ecs_Run reg dereg regtext canceled h xs x =
     poll_Run canceled h (map (ecs_round reg dereg regtext) xs) x []"

section \<open>Lemmas\<close>

text \<open>A finite chain of pages from a token.\<close>

inductive pages :: "(string option \<Rightarrow> string + 'a list \<times> string option) \<Rightarrow> string option \<Rightarrow> 'a list \<Rightarrow> bool"
  for fetch where
  last: "fetch tok = Inr (page, next) \<Longrightarrow> next = None \<or> next = Some [] \<Longrightarrow> pages fetch tok page"
| more: "fetch tok = Inr (page, next) \<Longrightarrow> next \<noteq> None \<Longrightarrow> next \<noteq> Some [] \<Longrightarrow> pages fetch next rest \<Longrightarrow>
     pages fetch tok (page @ rest)"

lemma list_pages_complete: "pages fetch tok xs \<Longrightarrow> list_pages fetch tok acc = Some (Inr (acc @ xs))"
proof (induction arbitrary: acc rule: pages.induct)
  case (last tok page nxt)
  then show ?case by (subst list_pages.simps) simp
next
  case (more tok page nxt rest)
  then show ?case by (subst list_pages.simps) auto
qed

lemma list_pages_sound:
  assumes "list_pages fetch tok acc = Some res"
  shows "\<forall>xs. res = Inr xs \<longrightarrow> (\<exists>ys. pages fetch tok ys \<and> xs = acc @ ys)"
proof (rule list_pages.raw_induct [rotated, OF assms])
  fix lp :: "(string option \<Rightarrow> string + 'a list \<times> string option) \<Rightarrow> string option \<Rightarrow> 'a list \<Rightarrow> (string + 'a list) option"
    and fetch :: "string option \<Rightarrow> string + 'a list \<times> string option" and tok acc res
  assume ih: "\<And>fetch tok acc res. lp fetch tok acc = Some res \<Longrightarrow>
      \<forall>xs. res = Inr xs \<longrightarrow> (\<exists>ys. pages fetch tok ys \<and> xs = acc @ ys)"
    and run: "(case fetch tok of Inl err \<Rightarrow> Some (Inl err)
      | Inr (page, next) \<Rightarrow> if next = None \<or> next = Some [] then Some (Inr (acc @ page))
          else lp fetch next (acc @ page)) = Some res"
  show "\<forall>xs. res = Inr xs \<longrightarrow> (\<exists>ys. pages fetch tok ys \<and> xs = acc @ ys)"
  proof (cases "fetch tok")
    case (Inl err)
    with run show ?thesis by auto
  next
    case (Inr r)
    then obtain page nxt where f: "fetch tok = Inr (page, nxt)" by (cases r) auto
    show ?thesis
    proof (cases "nxt = None \<or> nxt = Some []")
      case True
      with run f show ?thesis by (auto intro: pages.last)
    next
      case False
      then have "lp fetch nxt (acc @ page) = Some res" using run f by auto
      note rest = ih [OF this]
      show ?thesis
      proof (intro allI impI)
        fix xs assume "res = Inr xs"
        then obtain ys where ys: "pages fetch nxt ys" "xs = (acc @ page) @ ys" using rest by blast
        have "pages fetch tok (page @ ys)"
          by (rule pages.more [where ?next = nxt]) (use f False ys in auto)
        with ys show "\<exists>ys. pages fetch tok ys \<and> xs = acc @ ys" by auto
      qed
    qed
  qed
qed

lemma chunk_concat: "0 < n \<Longrightarrow> concat (chunk s n) = s"
proof (induction s n rule: chunk.induct)
  case (1 s n)
  then show ?case by (subst chunk.simps) (auto)
qed

lemma chunk_sizes: "c \<in> set (chunk s n) \<Longrightarrow> c \<noteq> [] \<and> length c \<le> n"
proof (induction s n rule: chunk.induct)
  case (1 s n)
  then show ?case by (subst (asm) (2) chunk.simps) (auto split: if_splits)
qed

text \<open>The keys a cycle sees: the labelled containers of the running tasks.\<close>

definition container_key :: "Task \<Rightarrow> ContainerDefinition \<Rightarrow> string option" where
  "container_key task cd =
     (case (cd_name cd, Parse (cd_dockerLabels cd)) of
        (Some name, Inr _) \<Rightarrow> Some (registrationKey (derefArn (t_taskArn task)) name)
      | _ \<Rightarrow> None)"

text \<open>What AWS describes is the reader's own, whose keys are \<open>K\<close>.\<close>

definition own_tasks :: "string set \<Rightarrow> (string list \<Rightarrow> string + Task list) \<Rightarrow> bool" where
  "own_tasks K describeTasks \<longleftrightarrow>
     (\<forall>batch tasks task cd k. describeTasks batch = Inr tasks \<longrightarrow> task \<in> set tasks \<longrightarrow>
        container_key task cd = Some k \<longrightarrow> k \<in> K)"

context container_registrar
begin

text \<open>What a cycle maintains: agreement of the book, over keys that only grow by what is seen, and
  no change to a key that is not seen.\<close>

definition cycle_rel :: "'s ecs_state \<Rightarrow> 's ecs_state \<Rightarrow> bool" where
  "cycle_rel st st' \<longleftrightarrow>
     agrees ok view R K (es_reg st') (es_book st') \<and> set (es_seen st) \<subseteq> set (es_seen st') \<and>
     set (es_seen st') \<subseteq> K \<and>
     (\<forall>k. k \<notin> set (es_seen st') \<longrightarrow>
        map_of (active (es_book st')) k = map_of (active (es_book st)) k \<and>
        map_of (failed (es_book st')) k = map_of (failed (es_book st)) k \<and>
        view (es_reg st') k = view (es_reg st) k)"

lemma cycle_rel_refl:
  "agrees ok view R K (es_reg st) (es_book st) \<Longrightarrow> set (es_seen st) \<subseteq> K \<Longrightarrow> cycle_rel st st"
  by (simp add: cycle_rel_def)

lemma cycle_rel_trans: "cycle_rel st st' \<Longrightarrow> cycle_rel st' st'' \<Longrightarrow> cycle_rel st st''"
  unfolding cycle_rel_def by (metis subset_iff)

lemma cycle_rel_pre: "cycle_rel st st' \<Longrightarrow>
    agrees ok view R K (es_reg st') (es_book st') \<and> set (es_seen st') \<subseteq> K"
  by (simp add: cycle_rel_def)

lemma cycle_rel_fold:
  assumes "\<And>x st. x \<in> set xs \<Longrightarrow> agrees ok view R K (es_reg st) (es_book st) \<Longrightarrow> set (es_seen st) \<subseteq> K \<Longrightarrow>
      cycle_rel st (f x st)"
    and "agrees ok view R K (es_reg st) (es_book st)" "set (es_seen st) \<subseteq> K"
  shows "cycle_rel st (fold f xs st)"
  using assms
proof (induction xs arbitrary: st)
  case Nil
  then show ?case by (simp add: cycle_rel_refl)
next
  case (Cons x xs)
  then have "cycle_rel st (f x st)" by simp
  with Cons.IH [of "f x st"] Cons.prems cycle_rel_pre [OF this] show ?case
    by (auto intro: cycle_rel_trans)
qed

lemma apply_container_rel:
  assumes ag: "agrees ok view R K (es_reg st) (es_book st)" "set (es_seen st) \<subseteq> K"
    and key: "\<And>k. container_key task cd = Some k \<Longrightarrow> k \<in> K"
  shows "cycle_rel st (apply_container reg dereg regtext api task td cd st)"
proof (cases "container_key task cd")
  case None
  then show ?thesis using cycle_rel_refl [OF ag]
    by (auto simp: container_key_def apply_container_def split: option.splits sum.splits)
next
  case (Some k)
  then obtain name def where c: "cd_name cd = Some name" "Parse (cd_dockerLabels cd) = Inr def"
    "k = registrationKey (derefArn (t_taskArn task)) name"
    by (auto simp: container_key_def split: option.splits sum.splits)
  obtain ips res where r: "resolveBackend api task td name (sd_port def) (es_hostIPs st) = (ips, res)" by fastforce
  show ?thesis
  proof (cases res)
    case (Inl err)
    with c r ag key [OF Some] show ?thesis by (auto simp: apply_container_def cycle_rel_def)
  next
    case (Inr be)
    obtain s' w' where sync: "sync_key reg dereg regtext k (def\<lparr>sd_port := snd be\<rparr>, fst be)
        (backend_addr (fst be) (snd be)) (es_reg st, es_book st) = (s', w')" by fastforce
    have "R k (backend_addr (fst be) (snd be)) (target k (def\<lparr>sd_port := snd be\<rparr>, fst be))"
      using fits [where ip = "fst be" and def = "def\<lparr>sd_port := snd be\<rparr>" and k = k] by simp
    from sync_key_step [OF ag(1) key [OF Some] this sync] c r Inr sync ag(2) key [OF Some]
    show ?thesis by (auto simp: apply_container_def cycle_rel_def touches_def)
  qed
qed

lemma cycle_task_rel:
  assumes "agrees ok view R K (es_reg st) (es_book st)" "set (es_seen st) \<subseteq> K"
    and "\<And>cd k. container_key task cd = Some k \<Longrightarrow> k \<in> K"
  shows "cycle_rel st (cycle_task reg dereg regtext api task st)"
proof -
  have same: "cycle_rel st st' \<longleftrightarrow> cycle_rel (st\<lparr>es_taskDefs := tds\<rparr>) st'" for st' tds
    by (simp add: cycle_rel_def)
  have "cycle_rel (st\<lparr>es_taskDefs := tds\<rparr>) (applyTask reg dereg regtext api task td (st\<lparr>es_taskDefs := tds\<rparr>))" for tds td
    unfolding applyTask_def
    by (rule cycle_rel_fold) (use assms apply_container_rel in auto)
  moreover have "cycle_rel st (st\<lparr>es_taskDefs := tds\<rparr>)" for tds
    using assms by (simp add: cycle_rel_def)
  ultimately show ?thesis
    using cycle_rel_refl [OF assms(1,2)]
    by (auto simp: cycle_task_def same [symmetric] split: option.splits prod.splits sum.splits)
qed

lemma cycle_batches_rel:
  assumes "agrees ok view R K (es_reg st) (es_book st)" "set (es_seen st) \<subseteq> K"
    and keys: "\<And>batch tasks task cd k. describeTasks batch = Inr tasks \<Longrightarrow> task \<in> set tasks \<Longrightarrow>
      container_key task cd = Some k \<Longrightarrow> k \<in> K"
  shows "cycle_rel st (fst (cycle_batches reg dereg regtext api describeTasks batches st))"
  using assms(1,2)
proof (induction batches arbitrary: st)
  case Nil
  then show ?case by (simp add: cycle_rel_refl)
next
  case (Cons batch batches)
  show ?case
  proof (cases "describeTasks batch")
    case (Inl err)
    with Cons.prems show ?thesis by (simp add: cycle_rel_refl)
  next
    case (Inr tasks)
    let ?st = "fold (cycle_task reg dereg regtext api) tasks st"
    have "cycle_rel st ?st"
      by (rule cycle_rel_fold) (use Cons.prems cycle_task_rel keys [OF Inr] in auto)
    with Cons.IH [of ?st] cycle_rel_pre [OF this] Inr show ?thesis by (auto intro: cycle_rel_trans)
  qed
qed

lemma poll_step:
  assumes ag: "agrees ok view R K (es_reg st) (es_book st)"
    and keys: "\<And>batch tasks task cd k. describeTasks batch = Inr tasks \<Longrightarrow> task \<in> set tasks \<Longrightarrow>
      container_key task cd = Some k \<Longrightarrow> k \<in> K"
    and run: "ecs_poll reg dereg regtext api listTasks describeTasks st = Some (st', e)"
  shows "agrees ok view R K (es_reg st') (es_book st') \<and>
    (e = None \<longrightarrow> (\<forall>k\<in>K. view (es_reg st') k \<noteq> None \<longrightarrow> k \<in> set (es_seen st'))) \<and>
    (\<forall>k. k \<notin> set (es_seen st') \<longrightarrow> e \<noteq> None \<or> k \<notin> K \<longrightarrow> view (es_reg st') k = view (es_reg st) k)"
proof -
  let ?st0 = "st\<lparr>es_seen := []\<rparr>"
  consider (err) x where "st' = ?st0" "e = Some x"
    | (listed) arns st1 e1 where
        "cycle_batches reg dereg regtext api describeTasks (chunk arns 100) ?st0 = (st1, e1)"
        "e = e1" "e1 \<noteq> None \<longrightarrow> st' = st1"
        "e1 = None \<longrightarrow> (\<exists>s' w'. removeMissing dereg (es_seen st1) (es_reg st1, es_book st1) = (s', w') \<and>
           st' = st1\<lparr>es_reg := s', es_book := w'\<rparr>)"
    using run unfolding ecs_poll_def by (auto split: option.splits sum.splits prod.splits)
  then show ?thesis
  proof cases
    case err
    with ag show ?thesis by simp
  next
    case listed
    have "cycle_rel ?st0 (fst (cycle_batches reg dereg regtext api describeTasks (chunk arns 100) ?st0))"
      by (rule cycle_batches_rel) (use ag keys in auto)
    then have rel: "cycle_rel ?st0 st1" by (simp add: listed(1))
    show ?thesis
    proof (cases e1)
      case (Some x)
      with listed rel show ?thesis by (auto simp: cycle_rel_def)
    next
      case None
      with listed obtain s' w' where rm: "removeMissing dereg (es_seen st1) (es_reg st1, es_book st1) = (s', w')"
        and st': "st' = st1\<lparr>es_reg := s', es_book := w'\<rparr>" by blast
      have ag1: "agrees ok view R K (es_reg st1) (es_book st1)" using rel by (simp add: cycle_rel_def)
      note rem = removeMissing_agrees [OF ag1 rm]
      have act: "dom (map_of (active (es_book st1))) \<subseteq> K" using ag1 by (simp add: agrees_def)
      have a: "k \<in> set (es_seen st')" if "k \<in> K" "view s' k \<noteq> None" for k
        using agrees_iff [OF rem(1) that(1)] that(2) rem(2) [of k] st' by (auto split: if_splits)
      have b: "view s' k = view (es_reg st) k" if "k \<notin> set (es_seen st')" "k \<notin> K" for k
      proof -
        have "view s' k = view (es_reg st1) k" using rem(4) [of k] that act by auto
        then show ?thesis using rel that st' by (auto simp: cycle_rel_def)
      qed
      have "es_reg st' = s'" "es_book st' = w'" "e = None" using st' listed(2) None by simp_all
      then show ?thesis using a b rem(1) by (intro conjI impI ballI allI) blast+
    qed
  qed
qed

lemma cycle_keeps:
  assumes "own_tasks K describeTasks"
  shows "keeps (\<lambda>st. agrees ok view R K (es_reg st) (es_book st))
           (ecs_cycle reg dereg regtext api answer listTasks describeTasks)"
  unfolding keeps_def
proof (intro allI impI)
  fix p st p' st' e
  assume run: "ecs_cycle reg dereg regtext api answer listTasks describeTasks (p, st) = Some ((p', st'), e)"
    and ag: "agrees ok view R K (es_reg st) (es_book st)"
  then consider "st' = st" | "ecs_poll reg dereg regtext api listTasks describeTasks st = Some (st', e)"
    by (auto simp: ecs_cycle_def split: prod.splits option.splits)
  then show "agrees ok view R K (es_reg st') (es_book st')"
  proof cases
    case 2
    then show ?thesis using poll_step [OF ag _ 2] assms unfolding own_tasks_def by blast
  qed (use ag in simp)
qed

lemma ecs_Run_agrees:
  assumes "agrees ok view R K (es_reg st) (es_book st)" "\<forall>a\<in>set xs. own_tasks K (ea_describeTasks a)"
    "ecs_Run reg dereg regtext canceled h xs (r, p, st) = Some ((r', p', st'), slept)"
  shows "agrees ok view R K (es_reg st') (es_book st')"
proof -
  have "\<forall>x\<in>set (map (ecs_round reg dereg regtext) xs).
      keeps (\<lambda>st. agrees ok view R K (es_reg st) (es_book st)) (fst (snd (snd (snd x))))"
    using assms(2) cycle_keeps by (auto simp: ecs_round_def)
  from poll_Run_keeps [OF this _ assms(3) [unfolded ecs_Run_def]] assms(1) show ?thesis by simp
qed

end

text \<open>What a cycle sees.\<close>

definition available :: "aws \<Rightarrow> taskDefCache \<Rightarrow> string \<Rightarrow> TaskDefinition \<Rightarrow> bool" where
  "available api c arn td \<longleftrightarrow>
     map_of c arn = Some td \<or> map_of c arn = None \<and> aws_describeTaskDefinition api arn = Inr (Some td)"

lemma available_get:
  "available api c arn td \<Longrightarrow> \<exists>c'. taskDefs_get api arn c = (c', Inr td)"
  by (auto simp: available_def taskDefs_get_def)

lemma available_keep:
  "available api c arn td \<Longrightarrow> taskDefs_get api arn' c = (c', res) \<Longrightarrow> available api c' arn td"
  by (cases "arn = arn'") (auto simp: available_def taskDefs_get_def split: option.splits sum.splits)

lemma apply_container_seen:
  "set (es_seen (apply_container reg dereg regtext api task td cd st)) =
     set (es_seen st) \<union> set_option (container_key task cd)"
  "es_taskDefs (apply_container reg dereg regtext api task td cd st) = es_taskDefs st"
  by (auto simp: apply_container_def container_key_def Let_def split: option.splits sum.splits prod.splits)

lemma applyTask_seen:
  "set (es_seen (applyTask reg dereg regtext api task td st)) =
     set (es_seen st) \<union> (\<Union>cd\<in>set (td_containerDefinitions td). set_option (container_key task cd))"
  "es_taskDefs (applyTask reg dereg regtext api task td st) = es_taskDefs st"
proof -
  have "set (es_seen (fold (apply_container reg dereg regtext api task td) cds st)) =
      set (es_seen st) \<union> (\<Union>cd\<in>set cds. set_option (container_key task cd)) \<and>
    es_taskDefs (fold (apply_container reg dereg regtext api task td) cds st) = es_taskDefs st" for cds
    by (induction cds arbitrary: st) (auto simp: apply_container_seen)
  then show "set (es_seen (applyTask reg dereg regtext api task td st)) =
     set (es_seen st) \<union> (\<Union>cd\<in>set (td_containerDefinitions td). set_option (container_key task cd))"
    "es_taskDefs (applyTask reg dereg regtext api task td st) = es_taskDefs st"
    by (simp_all add: applyTask_def)
qed

lemma cycle_task_seen:
  assumes "available api (es_taskDefs st) arn td"
  shows "set (es_seen st) \<subseteq> set (es_seen (cycle_task reg dereg regtext api task st))"
    "available api (es_taskDefs (cycle_task reg dereg regtext api task st)) arn td"
    "t_lastStatus task = Some ''RUNNING'' \<Longrightarrow> t_taskDefinitionArn task = Some arn \<Longrightarrow>
     cd \<in> set (td_containerDefinitions td) \<Longrightarrow> container_key task cd = Some k \<Longrightarrow>
     k \<in> set (es_seen (cycle_task reg dereg regtext api task st))"
proof -
  show "set (es_seen st) \<subseteq> set (es_seen (cycle_task reg dereg regtext api task st))"
    by (auto simp: cycle_task_def applyTask_seen split: option.splits prod.splits sum.splits)
  show "available api (es_taskDefs (cycle_task reg dereg regtext api task st)) arn td"
    using assms by (auto simp: cycle_task_def applyTask_seen split: option.splits prod.splits sum.splits
        dest: available_keep)
  assume run: "t_lastStatus task = Some ''RUNNING''" "t_taskDefinitionArn task = Some arn"
    "cd \<in> set (td_containerDefinitions td)" "container_key task cd = Some k"
  obtain c' where "taskDefs_get api arn (es_taskDefs st) = (c', Inr td)" using available_get [OF assms] ..
  with run show "k \<in> set (es_seen (cycle_task reg dereg regtext api task st))"
    by (force simp: cycle_task_def applyTask_seen)
qed

lemma cycle_tasks_seen:
  assumes "available api (es_taskDefs st) arn td"
  shows "set (es_seen st) \<subseteq> set (es_seen (fold (cycle_task reg dereg regtext api) tasks st)) \<and>
    available api (es_taskDefs (fold (cycle_task reg dereg regtext api) tasks st)) arn td \<and>
    (task \<in> set tasks \<longrightarrow> t_lastStatus task = Some ''RUNNING'' \<longrightarrow> t_taskDefinitionArn task = Some arn \<longrightarrow>
     cd \<in> set (td_containerDefinitions td) \<longrightarrow> container_key task cd = Some k \<longrightarrow>
     k \<in> set (es_seen (fold (cycle_task reg dereg regtext api) tasks st)))"
  using assms
proof (induction tasks arbitrary: st)
  case (Cons t tasks)
  note step = cycle_task_seen [OF Cons.prems, where reg = reg and dereg = dereg and regtext = regtext and task = t]
  from Cons.IH [OF step(2)] step(1,3) show ?case by auto
qed simp

lemma cycle_batches_seen:
  assumes "available api (es_taskDefs st) arn td"
    and "cycle_batches reg dereg regtext api describeTasks batches st = (st', None)"
  shows "set (es_seen st) \<subseteq> set (es_seen st') \<and>
    (batch \<in> set batches \<longrightarrow> describeTasks batch = Inr tasks \<longrightarrow> task \<in> set tasks \<longrightarrow>
     t_lastStatus task = Some ''RUNNING'' \<longrightarrow> t_taskDefinitionArn task = Some arn \<longrightarrow>
     cd \<in> set (td_containerDefinitions td) \<longrightarrow> container_key task cd = Some k \<longrightarrow> k \<in> set (es_seen st'))"
  using assms
proof (induction batches arbitrary: st)
  case (Cons b batches)
  then obtain ts where ts: "describeTasks b = Inr ts" by (auto split: sum.splits)
  let ?st = "fold (cycle_task reg dereg regtext api) ts st"
  note step = cycle_tasks_seen [OF Cons.prems(1), where reg = reg and dereg = dereg and regtext = regtext
      and tasks = ts and task = task and cd = cd and k = k]
  have "cycle_batches reg dereg regtext api describeTasks batches ?st = (st', None)" using Cons.prems(2) ts by simp
  from Cons.IH [OF _ this] step ts show ?case by auto
qed simp

section \<open>Properties\<close>

text \<open>One task, one page, one batch.\<close>

definition demo_list :: "string option \<Rightarrow> string + string list \<times> string option" where
  "demo_list tok = Inr ([''arn:t''], None)"

definition demo_ecs :: "adapter ecs_state" where
  "demo_ecs = \<lparr>es_reg = fresh_adapter, es_book = new_book, es_taskDefs = [], es_hostIPs = [], es_seen = []\<rparr>"

definition demo_origin :: Origin where
  "demo_origin = \<lparr>o_account = ''prod'', o_cluster = ''c'', o_region = []\<rparr>"

definition demo_poll :: "(adapter ecs_state \<times> string option) option" where
  "demo_poll = ecs_poll (adapter_Register (\<lambda>_ _ _. None) (\<lambda>_. 0) demo_origin) adapter_Deregister (\<lambda>_. [])
     demo_aws demo_list (\<lambda>_. Inr [demo_task]) demo_ecs"

lemma demo_pages: "pages demo_list None [''arn:t'']"
  by (rule pages.last [where ?next = None]) (simp_all add: demo_list_def)

lemma demo_chunk: "chunk [''arn:t''] 100 = [[''arn:t'']]"
  by (simp add: chunk.simps)

lemma demo_poll_returns: "\<exists>st'. demo_poll = Some (st', None)"
proof -
  have "listAllTaskArns demo_list = Some (Inr [''arn:t''])"
    using list_pages_complete [OF demo_pages, of "[]"] by (simp add: listAllTaskArns_def)
  then show ?thesis
    by (simp add: demo_poll_def ecs_poll_def demo_chunk split: prod.splits)
qed

lemma demo_key: "container_key demo_task \<lparr>cd_name = Some ''web'', cd_dockerLabels = demo_labels\<rparr> = Some ''arn:t#web''"
  by (simp add: container_key_def demo_parse registrationKey_def derefArn_def demo_task_def)

text \<open>C20: an ECS cycle over the manager. Whatever AWS answers, the book agrees with the manager
  afterwards. A cycle that completes leaves registered only keys it has seen; one that fails
  half-way removes nothing it has not seen; and the keys of other readers are never touched.\<close>

theorem ecs_cycle_reconciles:
  assumes "agrees adapter_ok view_of addr_fits K (es_reg st) (es_book st)"
    and "\<And>batch tasks task cd k. describeTasks batch = Inr tasks \<Longrightarrow> task \<in> set tasks \<Longrightarrow>
           container_key task cd = Some k \<Longrightarrow> k \<in> K"
    and "ecs_poll (adapter_Register listen clock origin) adapter_Deregister regtext api listTasks describeTasks st =
           Some (st', e)"
  shows "agrees adapter_ok view_of addr_fits K (es_reg st') (es_book st') \<and>
    (e = None \<longrightarrow> (\<forall>k\<in>K. view_of (es_reg st') k \<noteq> None \<longrightarrow> k \<in> set (es_seen st'))) \<and>
    (\<forall>k. k \<notin> set (es_seen st') \<longrightarrow> e \<noteq> None \<or> k \<notin> K \<longrightarrow> view_of (es_reg st') k = view_of (es_reg st) k)"
  using assms by (rule dctr.poll_step)

theorem ecs_cycle_reconciles_witness:
  "\<exists>st'. demo_poll = Some (st', None) \<and> {k. view_of (es_reg st') k \<noteq> None} \<subseteq> set (es_seen st')"
proof -
  obtain st' where st': "demo_poll = Some (st', None)" using demo_poll_returns ..
  have "agrees adapter_ok view_of addr_fits UNIV (es_reg demo_ecs) (es_book demo_ecs)"
    by (simp add: demo_ecs_def fresh_agrees)
  from ecs_cycle_reconciles [OF this _ st' [unfolded demo_poll_def]] st' show ?thesis by auto
qed

text \<open>C23: a cycle that completes has seen every labelled container of every running task that AWS
  listed and described, if its task definition is cached or can be fetched: such a container is not
  deregistered.\<close>

theorem ecs_cycle_sees:
  assumes "ecs_poll reg dereg regtext api listTasks describeTasks st = Some (st', None)"
    and "pages listTasks None arns" "batch \<in> set (chunk arns 100)"
    and "describeTasks batch = Inr tasks" "task \<in> set tasks" "t_lastStatus task = Some ''RUNNING''"
    and "t_taskDefinitionArn task = Some arn" "available api (es_taskDefs st) arn td"
    and "cd \<in> set (td_containerDefinitions td)" "container_key task cd = Some k"
  shows "k \<in> set (es_seen st')"
proof -
  have "listAllTaskArns listTasks = Some (Inr arns)"
    using list_pages_complete [OF assms(2), of "[]"] by (simp add: listAllTaskArns_def)
  with assms(1) obtain st1 where
    b: "cycle_batches reg dereg regtext api describeTasks (chunk arns 100) (st\<lparr>es_seen := []\<rparr>) = (st1, None)"
    and "es_seen st' = es_seen st1"
    by (auto simp: ecs_poll_def split: prod.splits option.splits)
  with cycle_batches_seen [OF _ b] assms(3-) show ?thesis by auto
qed

theorem ecs_cycle_sees_witness: "\<exists>st'. demo_poll = Some (st', None) \<and> ''arn:t#web'' \<in> set (es_seen st')"
proof -
  obtain st' where st': "demo_poll = Some (st', None)" using demo_poll_returns ..
  have "''arn:t#web'' \<in> set (es_seen st')"
    by (rule ecs_cycle_sees [OF st' [unfolded demo_poll_def] demo_pages _ _ _ _ _ _ _ demo_key,
          where batch = "[''arn:t'']" and tasks = "[demo_task]" and arn = "''arn:td''" and td = demo_td])
      (simp_all add: demo_chunk demo_task_def demo_td_def demo_aws_def demo_ecs_def available_def)
  with st' show ?thesis by blast
qed

text \<open>C38: paging and batching lose nothing and repeat nothing: the listing is the concatenation of
  the pages exactly when the chain of tokens ends, and the batches of at most 100 are, in order, the
  listing.\<close>

theorem listing_complete:
  "(listAllTaskArns listTasks = Some (Inr arns) \<longleftrightarrow> pages listTasks None arns) \<and>
   concat (chunk arns 100) = arns \<and> (\<forall>b\<in>set (chunk arns 100). b \<noteq> [] \<and> length b \<le> 100)"
proof -
  have "listAllTaskArns listTasks = Some (Inr arns) \<longleftrightarrow> pages listTasks None arns"
    using list_pages_complete [of listTasks None arns "[]"] list_pages_sound [of listTasks None "[]" "Inr arns"]
    by (auto simp: listAllTaskArns_def)
  then show ?thesis using chunk_concat [of 100 arns] chunk_sizes [of _ arns 100] by auto
qed

theorem listing_complete_witness:
  "listAllTaskArns demo_list = Some (Inr [''arn:t'']) \<and> concat (chunk [''arn:t''] 100) = [''arn:t'']"
  using listing_complete [of demo_list "[''arn:t'']"] demo_pages by simp

text \<open>The cycle as the polling loop runs it.\<close>

lemma ecs_cycle_paces:
  "paces (ecs_cycle reg dereg regtext api answer listTasks describeTasks)"
  unfolding paces_def ecs_cycle_def
  by (auto split: prod.splits option.splits) (metis fst_conv)+

end
