(* ===== verification/Lambda_Watcher.thy ===== *)
theory Lambda_Watcher
  imports Ecs_Watcher
begin

text \<open>
  The Lambda watcher (\<^verbatim>\<open>lambda/watcher.go\<close>): tagged functions, as the Resource Groups Tagging API lists
  them, registered as function backends. The API's pages are an argument; so are the texts of the
  errors. The paging is the loop of \<^verbatim>\<open>ecs/watcher.go\<close> over another call.
\<close>

section \<open>Data\<close>

definition Qualifier :: string where
  "Qualifier = Prefix @ ''qualifier''"

text \<open>What was last registered for an active key.\<close>

record registration =
  rg_service :: string
  rg_caps :: string
  rg_qualifier :: string

datatype lambda_error = TagError label_error | BadQualifier string

text \<open>A resource of a page: its ARN and tags, every string a pointer.\<close>

type_synonym mapping_entry = "string option \<times> (string option \<times> string option) list"

section \<open>Operations\<close>

definition ToString :: "string option \<Rightarrow> string" where
  "ToString p = (case p of None \<Rightarrow> [] | Some s \<Rightarrow> s)"

definition registrationOf :: "Function \<Rightarrow> registration" where
  "registrationOf fn =
     \<lparr>rg_service = fn_service fn, rg_caps = join '','' (sort (fn_caps fn)), rg_qualifier = fn_qualifier fn\<rparr>"

definition qualifier_char :: "char \<Rightarrow> bool" where
  "qualifier_char c \<longleftrightarrow>
     CHR ''A'' \<le> c \<and> c \<le> CHR ''Z'' \<or> CHR ''a'' \<le> c \<and> c \<le> CHR ''z'' \<or> CHR ''0'' \<le> c \<and> c \<le> CHR ''9'' \<or>
     c = CHR ''_'' \<or> c = CHR ''-''"

definition qualifierPattern :: "string \<Rightarrow> bool" where
  "qualifierPattern q \<longleftrightarrow>
     q = ''$LATEST'' \<or> 1 \<le> length q \<and> length q \<le> 128 \<and> list_all qualifier_char q"

definition tag_values :: "(string option \<times> string option) list \<Rightarrow> (string, string) gomap" where
  "tag_values tags = fold (\<lambda>(k, v) m. m_put (ToString k) (ToString v) m) tags m_empty"

definition parseFunction :: "string \<Rightarrow> (string option \<times> string option) list \<Rightarrow> lambda_error + Function" where
  "parseFunction arn tags =
     (let values = tag_values tags; svc = m_str values Service in
      case ValidateService svc of
        Some e \<Rightarrow> Inl (TagError e)
      | None \<Rightarrow>
          let q = m_str values Qualifier in
          if q \<noteq> [] \<and> \<not> qualifierPattern q then Inl (BadQualifier q)
          else Inr \<lparr>fn_service = svc, fn_caps = ParseCaps (m_str values Caps), fn_arn = arn, fn_qualifier = q\<rparr>)"

definition lambda_noteFailure :: "string \<Rightarrow> string \<Rightarrow> string \<Rightarrow> 'v book \<Rightarrow> 'v book" where
  "lambda_noteFailure key msg err w = note_failure key (msg @ '': '' @ err) w"

definition register_failure :: "('e \<Rightarrow> string) \<Rightarrow> 'e \<Rightarrow> string" where
  "register_failure regtext err = ''registration failed; will retry next cycle'' @ '': '' @ regtext err"

definition lambda_apply ::
  "(string \<Rightarrow> Function \<Rightarrow> 's \<Rightarrow> 's \<times> 'e option) \<Rightarrow> (string \<Rightarrow> 's \<Rightarrow> 's) \<Rightarrow> ('e \<Rightarrow> string)
     \<Rightarrow> Function \<Rightarrow> 's \<times> registration book \<Rightarrow> 's \<times> registration book" where
  "lambda_apply reg dereg regtext fn st =
     (case st of (s, w) \<Rightarrow>
        let key = fn_arn fn; want = registrationOf fn; text = register_failure regtext
        in (case map_of (active w) key of
              Some prev \<Rightarrow>
                if prev = want then (s, w\<lparr>failed := m_del key (failed w)\<rparr>)
                else try_register reg text key fn want (dereg key s, w\<lparr>active := m_del key (active w)\<rparr>)
            | None \<Rightarrow> try_register reg text key fn want (s, w)))"

text \<open>One resource of the listing.\<close>

definition lambda_one ::
  "(string \<Rightarrow> Function \<Rightarrow> 's \<Rightarrow> 's \<times> 'e option) \<Rightarrow> (string \<Rightarrow> 's \<Rightarrow> 's) \<Rightarrow> ('e \<Rightarrow> string) \<Rightarrow> (lambda_error \<Rightarrow> string)
     \<Rightarrow> mapping_entry \<Rightarrow> 's \<times> registration book \<Rightarrow> 's \<times> registration book" where
  "lambda_one reg dereg regtext errtext m st =
     (let arn = ToString (fst m) in
      if arn = [] then st
      else case parseFunction arn (snd m) of
             Inl err \<Rightarrow> (fst st, lambda_noteFailure arn ''invalid function tags; skipping'' (errtext err) (snd st))
           | Inr fn \<Rightarrow> lambda_apply reg dereg regtext fn st)"

definition seen_arns :: "mapping_entry list \<Rightarrow> string list" where
  "seen_arns ms = filter (\<lambda>a. a \<noteq> []) (map (\<lambda>m. ToString (fst m)) ms)"

definition listTagged ::
  "(string option \<Rightarrow> string + mapping_entry list \<times> string option) \<Rightarrow> (string + mapping_entry list) option" where
  "listTagged getResources = list_pages getResources None []"

definition lambda_poll ::
  "(string \<Rightarrow> Function \<Rightarrow> 's \<Rightarrow> 's \<times> 'e option) \<Rightarrow> (string \<Rightarrow> 's \<Rightarrow> 's) \<Rightarrow> ('e \<Rightarrow> string) \<Rightarrow> (lambda_error \<Rightarrow> string)
     \<Rightarrow> (string option \<Rightarrow> string + mapping_entry list \<times> string option)
     \<Rightarrow> 's \<times> registration book \<Rightarrow> (('s \<times> registration book) \<times> string option) option" where
  "lambda_poll reg dereg regtext errtext getResources st =
     (case listTagged getResources of
        None \<Rightarrow> None
      | Some (Inl err) \<Rightarrow> Some (st, Some (''GetResources: '' @ err))
      | Some (Inr ms) \<Rightarrow>
          Some (removeMissing dereg (seen_arns ms) (fold (lambda_one reg dereg regtext errtext) ms st), None))"

definition lambda_cycle ::
  "(string \<Rightarrow> Function \<Rightarrow> 's \<Rightarrow> 's \<times> 'e option) \<Rightarrow> (string \<Rightarrow> 's \<Rightarrow> 's) \<Rightarrow> ('e \<Rightarrow> string) \<Rightarrow> (lambda_error \<Rightarrow> string)
     \<Rightarrow> string + string \<Rightarrow> (string option \<Rightarrow> string + mapping_entry list \<times> string option)
     \<Rightarrow> poller \<times> 's \<times> registration book \<Rightarrow> ((poller \<times> 's \<times> registration book) \<times> string option) option" where
  "lambda_cycle reg dereg regtext errtext answer getResources x =
     (case x of (p, st) \<Rightarrow>
        (case resolve_account answer p of
           (p', Some err) \<Rightarrow> Some ((p', st), Some err)
         | (p', None) \<Rightarrow>
             map_option (\<lambda>(st', e). ((p', st'), e)) (lambda_poll reg dereg regtext errtext getResources st)))"

text \<open>The package has its own copy of the polling loop.\<close>

definition lambda_nextInterval :: "poller \<Rightarrow> nanos" where
  "lambda_nextInterval w =
     (if po_healthy w then po_pollInterval w else max (po_pollInterval w) (po_retryInterval w))"

text \<open>\<open>cycle\<close> is the result of the cycle, which the caller runs only if the context has no error.\<close>

definition lambda_reportCycle ::
  "(string \<Rightarrow> bool) \<Rightarrow> Reader \<Rightarrow> string option \<Rightarrow> nanos \<Rightarrow> nanos
     \<Rightarrow> (poller \<times> 's \<times> registration book \<Rightarrow> ((poller \<times> 's \<times> registration book) \<times> string option) option)
     \<Rightarrow> Registry \<times> poller \<times> 's \<times> registration book
     \<Rightarrow> ((Registry \<times> poller \<times> 's \<times> registration book) \<times> string option) option" where
  "lambda_reportCycle canceled h ctxErr started ended cycle x =
     (if ctxErr \<noteq> None then Some (x, ctxErr)
      else let readers = PollStarted h started (fst x) in
        map_option (\<lambda>((w, st), err).
            if err = None then ((PollSucceeded h ended readers, w\<lparr>po_healthy := True\<rparr>, st), err)
            else if canceled (the err) then ((readers, w, st), err)
            else ((PollFailed h ended err readers, w\<lparr>po_healthy := False\<rparr>, st), err))
          (cycle (snd x)))"

text \<open>What one round of the loop is given.\<close>

record lambda_answers =
  la_ctxErr :: "string option"
  la_started :: nanos
  la_ended :: nanos
  la_account :: "string + string"
  la_getResources :: "string option \<Rightarrow> string + mapping_entry list \<times> string option"
  la_sleeps :: bool

definition lambda_answered ::
  "(string \<Rightarrow> Function \<Rightarrow> 's \<Rightarrow> 's \<times> 'e option) \<Rightarrow> (string \<Rightarrow> 's \<Rightarrow> 's) \<Rightarrow> ('e \<Rightarrow> string) \<Rightarrow> (lambda_error \<Rightarrow> string)
     \<Rightarrow> lambda_answers \<Rightarrow> poller \<times> 's \<times> registration book
     \<Rightarrow> ((poller \<times> 's \<times> registration book) \<times> string option) option" where
  "lambda_answered reg dereg regtext errtext y =
     lambda_cycle reg dereg regtext errtext (la_account y) (la_getResources y)"

text \<open>The first cycle, and one after every sleep that is not cut short; the sleeps are collected.\<close>

fun lambda_Run ::
  "(string \<Rightarrow> Function \<Rightarrow> 's \<Rightarrow> 's \<times> 'e option) \<Rightarrow> (string \<Rightarrow> 's \<Rightarrow> 's) \<Rightarrow> ('e \<Rightarrow> string) \<Rightarrow> (lambda_error \<Rightarrow> string)
     \<Rightarrow> (string \<Rightarrow> bool) \<Rightarrow> Reader \<Rightarrow> lambda_answers list
     \<Rightarrow> Registry \<times> poller \<times> 's \<times> registration book \<Rightarrow> nanos list
     \<Rightarrow> ((Registry \<times> poller \<times> 's \<times> registration book) \<times> nanos list) option" where
  "lambda_Run reg dereg regtext errtext canceled h [] x slept = Some (x, slept)"
| "lambda_Run reg dereg regtext errtext canceled h (y # ys) x slept =
     (case lambda_reportCycle canceled h (la_ctxErr y) (la_started y) (la_ended y)
             (lambda_answered reg dereg regtext errtext y) x of
        None \<Rightarrow> None
      | Some (x', _) \<Rightarrow>
          let slept' = lambda_nextInterval (fst (snd x')) # slept in
          if la_sleeps y then lambda_Run reg dereg regtext errtext canceled h ys x' slept'
          else Some (x', slept'))"

section \<open>Lemmas\<close>

text \<open>A function is registered as its registration says.\<close>

definition fn_fits :: "string \<Rightarrow> registration \<Rightarrow> string \<times> string \<Rightarrow> bool" where
  "fn_fits k r t \<longleftrightarrow> t = (rg_service r, Target (NewFunctionInvoker k (rg_qualifier r)))"

lemma parseFunction_arn: "parseFunction arn tags = Inr fn \<Longrightarrow> fn_arn fn = arn"
  by (auto simp: parseFunction_def Let_def split: option.splits if_splits)

text \<open>What the API lists is the reader's own, whose keys are \<open>K\<close>.\<close>

definition own_functions :: "string set \<Rightarrow> (string option \<Rightarrow> string + mapping_entry list \<times> string option) \<Rightarrow> bool" where
  "own_functions K getResources \<longleftrightarrow> (\<forall>ms. listTagged getResources = Some (Inr ms) \<longrightarrow> set (seen_arns ms) \<subseteq> K)"

locale function_registrar = registrar reg dereg view target ok K
  for reg :: "string \<Rightarrow> Function \<Rightarrow> 's \<Rightarrow> 's \<times> 'e option"
    and dereg :: "string \<Rightarrow> 's \<Rightarrow> 's" and view :: "'s \<Rightarrow> string \<Rightarrow> 't option"
    and target :: "string \<Rightarrow> Function \<Rightarrow> 't" and ok :: "'s \<Rightarrow> bool" and K :: "string set" +
  fixes R :: "string \<Rightarrow> registration \<Rightarrow> 't \<Rightarrow> bool"
  assumes fits: "fn_arn fn = k \<Longrightarrow> R k (registrationOf fn) (target k fn)"
begin

text \<open>Every key is left alone, dealt with as tagged, or its failure is on record.\<close>

lemma try_active:
  assumes "try_register reg text k d v (s, w) = (s', w')"
  shows "map_of (active w') k = Some v \<or> map_of (failed w') k \<noteq> None"
  using assms by (auto simp: try_register_def split: prod.splits option.splits)

lemma apply_step:
  assumes ag: "agrees ok view R K s w" and k: "fn_arn fn \<in> K"
    and run: "lambda_apply reg dereg regtext fn (s, w) = (s', w')"
  shows "agrees ok view R K s' w' \<and> touches view (fn_arn fn) (s, w) (s', w') \<and>
    (map_of (active w') (fn_arn fn) = Some (registrationOf fn) \<or> map_of (failed w') (fn_arn fn) \<noteq> None)"
proof (cases "map_of (active w) (fn_arn fn)")
  case None
  then have t: "try_register reg (register_failure regtext) (fn_arn fn) fn (registrationOf fn) (s, w) = (s', w')"
    using run by (simp add: lambda_apply_def)
  show ?thesis using try_register_step [OF ag k None fits [OF refl] t] try_active [OF t] by blast
next
  case (Some prev)
  show ?thesis
  proof (cases "prev = registrationOf fn")
    case True
    then show ?thesis using run Some ag by (auto simp: lambda_apply_def touches_def)
  next
    case False
    then have t: "try_register reg (register_failure regtext) (fn_arn fn) fn (registrationOf fn)
        (dereg (fn_arn fn) s, w\<lparr>active := m_del (fn_arn fn) (active w)\<rparr>) = (s', w')"
      using run Some by (simp add: lambda_apply_def Let_def)
    show ?thesis using move_step [OF ag k fits [OF refl] t] try_active [OF t] by blast
  qed
qed

text \<open>What a resource of the listing asks for, and what it gets.\<close>

definition served :: "registration book \<Rightarrow> mapping_entry \<Rightarrow> bool" where
  "served w m \<longleftrightarrow>
     (case parseFunction (ToString (fst m)) (snd m) of
        Inl _ \<Rightarrow> map_of (failed w) (ToString (fst m)) \<noteq> None
      | Inr fn \<Rightarrow> map_of (active w) (ToString (fst m)) = Some (registrationOf fn) \<or>
                 map_of (failed w) (ToString (fst m)) \<noteq> None)"

lemma one_step:
  assumes ag: "agrees ok view R K s w" and k: "ToString (fst m) \<noteq> [] \<Longrightarrow> ToString (fst m) \<in> K"
    and run: "lambda_one reg dereg regtext errtext m (s, w) = (s', w')"
  shows "agrees ok view R K s' w' \<and> touches view (ToString (fst m)) (s, w) (s', w') \<and>
    (ToString (fst m) \<noteq> [] \<longrightarrow> served w' m)"
proof (cases "ToString (fst m) = []")
  case True
  then show ?thesis using run ag by (auto simp: lambda_one_def)
next
  case False
  show ?thesis
  proof (cases "parseFunction (ToString (fst m)) (snd m)")
    case (Inl err)
    then show ?thesis using run False ag
      by (auto simp: lambda_one_def lambda_noteFailure_def served_def touches_def)
  next
    case (Inr fn)
    then have a: "fn_arn fn = ToString (fst m)" by (rule parseFunction_arn)
    have run': "lambda_apply reg dereg regtext fn (s, w) = (s', w')"
      using run False Inr by (simp add: lambda_one_def)
    show ?thesis using apply_step [OF ag _ run'] a k False Inr by (simp add: served_def)
  qed
qed

lemma served_other:
  "touches view i (s, w) (s', w') \<Longrightarrow> ToString (fst m) \<noteq> i \<Longrightarrow> served w m \<Longrightarrow> served w' m"
  by (auto simp: touches_def served_def split: sum.splits)

lemma fold_step:
  assumes "agrees ok view R K s w" "set (seen_arns ms) \<subseteq> K" "distinct (seen_arns ms)"
    "fold (lambda_one reg dereg regtext errtext) ms (s, w) = (s', w')"
  shows "agrees ok view R K s' w' \<and>
    (\<forall>k. k \<notin> set (seen_arns ms) \<longrightarrow> view s' k = view s k \<and> map_of (active w') k = map_of (active w) k \<and>
       map_of (failed w') k = map_of (failed w) k) \<and>
    (\<forall>m\<in>set ms. ToString (fst m) \<noteq> [] \<longrightarrow> served w' m)"
  using assms
proof (induction ms arbitrary: s w)
  case (Cons m ms)
  obtain s1 w1 where one: "lambda_one reg dereg regtext errtext m (s, w) = (s1, w1)" by fastforce
  have k: "ToString (fst m) \<noteq> [] \<Longrightarrow> ToString (fst m) \<in> K" using Cons.prems(2) by (auto simp: seen_arns_def)
  have nop: "ToString (fst m) = [] \<Longrightarrow> s1 = s \<and> w1 = w" using one by (auto simp: lambda_one_def)
  note step = one_step [OF Cons.prems(1) k one]
  have tail: "set (seen_arns ms) \<subseteq> K" "distinct (seen_arns ms)"
    "ToString (fst m) \<noteq> [] \<Longrightarrow> ToString (fst m) \<notin> set (seen_arns ms)"
    using Cons.prems(2,3) by (auto simp: seen_arns_def split: if_splits)
  have "fold (lambda_one reg dereg regtext errtext) ms (s1, w1) = (s', w')" using Cons.prems(4) one by simp
  note ih = Cons.IH [OF _ tail(1,2) this]
  show ?case
  proof (intro conjI allI impI ballI)
    show "agrees ok view R K s' w'" using ih step by blast
    fix k assume "k \<notin> set (seen_arns (m # ms))"
    then have k: "k \<notin> set (seen_arns ms)" "ToString (fst m) = [] \<or> k \<noteq> ToString (fst m)"
      by (auto simp: seen_arns_def split: if_splits)
    have "view s1 k = view s k \<and> map_of (active w1) k = map_of (active w) k \<and> map_of (failed w1) k = map_of (failed w) k"
      using step nop k(2) by (auto simp: touches_def)
    with ih step k(1) show "view s' k = view s k" "map_of (active w') k = map_of (active w) k"
      "map_of (failed w') k = map_of (failed w) k" by auto
  next
    fix m' assume m': "m' \<in> set (m # ms)" "ToString (fst m') \<noteq> []"
    show "served w' m'"
    proof (cases "m' \<in> set ms")
      case True
      then show ?thesis using ih step m'(2) by blast
    next
      case False
      then have "m' = m" using m'(1) by simp
      moreover have "map_of (active w') (ToString (fst m)) = map_of (active w1) (ToString (fst m))"
        "map_of (failed w') (ToString (fst m)) = map_of (failed w1) (ToString (fst m))"
        using ih step tail(3) m'(2) \<open>m' = m\<close> by auto
      ultimately show ?thesis using step m'(2) by (auto simp: served_def split: sum.splits)
    qed
  qed
qed (simp add: seen_arns_def)

lemma poll_step:
  assumes ag: "agrees ok view R K s w" and ms: "listTagged getResources = Some (Inr ms)"
    and K: "set (seen_arns ms) \<subseteq> K" "distinct (seen_arns ms)"
    and run: "lambda_poll reg dereg regtext errtext getResources (s, w) = Some ((s', w'), e)"
  shows "e = None \<and> agrees ok view R K s' w' \<and>
    (\<forall>k\<in>K. view s' k \<noteq> None \<longrightarrow> k \<in> set (seen_arns ms)) \<and> (\<forall>k. k \<notin> K \<longrightarrow> view s' k = view s k) \<and>
    (\<forall>m\<in>set ms. ToString (fst m) \<noteq> [] \<longrightarrow> served w' m)"
proof -
  obtain s1 w1 where f: "fold (lambda_one reg dereg regtext errtext) ms (s, w) = (s1, w1)" by fastforce
  note fs = fold_step [OF ag K f]
  have rm: "removeMissing dereg (seen_arns ms) (s1, w1) = (s', w')" and e: "e = None"
    using run ms f by (auto simp: lambda_poll_def)
  have ag1: "agrees ok view R K s1 w1" using fs by blast
  note rem = removeMissing_agrees [OF ag1 rm]
  have act: "dom (map_of (active w1)) \<subseteq> K" using ag1 by (simp add: agrees_def)
  show ?thesis
  proof (intro conjI ballI allI impI)
    show "e = None" by (rule e)
    show "agrees ok view R K s' w'" by (rule rem)
    show "k \<in> set (seen_arns ms)" if "k \<in> K" "view s' k \<noteq> None" for k
      using agrees_iff [OF rem(1) that(1)] that(2) rem(2) [of k] by (auto split: if_splits)
    show "view s' k = view s k" if "k \<notin> K" for k
    proof -
      have "k \<notin> set (seen_arns ms)" "k \<notin> dom (map_of (active w1))" using that act K(1) by blast+
      then show ?thesis using fs rem(4) [of k] by simp
    qed
    show "served w' m" if "m \<in> set ms" "ToString (fst m) \<noteq> []" for m
    proof -
      have "ToString (fst m) \<in> set (seen_arns ms)" using that by (auto simp: seen_arns_def)
      moreover have "served w1 m" using fs that by blast
      ultimately show ?thesis using rem(2,3) by (auto simp: served_def split: sum.splits)
    qed
  qed
qed

text \<open>Agreement does not need the listing to name every function once.\<close>

lemma fold_agrees:
  assumes "agrees ok view R K s w" "set (seen_arns ms) \<subseteq> K"
    "fold (lambda_one reg dereg regtext errtext) ms (s, w) = (s', w')"
  shows "agrees ok view R K s' w'"
  using assms
proof (induction ms arbitrary: s w)
  case (Cons m ms)
  obtain s1 w1 where one: "lambda_one reg dereg regtext errtext m (s, w) = (s1, w1)" by fastforce
  have k: "ToString (fst m) \<noteq> [] \<Longrightarrow> ToString (fst m) \<in> K" "set (seen_arns ms) \<subseteq> K"
    using Cons.prems(2) by (auto simp: seen_arns_def split: if_splits)
  from one_step [OF Cons.prems(1) k(1) one] have "agrees ok view R K s1 w1" by blast
  then show ?case by (rule Cons.IH) (use k(2) Cons.prems(3) one in simp_all)
qed simp

lemma cycle_keeps:
  assumes "own_functions K getResources"
  shows "keeps (\<lambda>(s, w). agrees ok view R K s w) (lambda_cycle reg dereg regtext errtext answer getResources)"
  unfolding keeps_def
proof (intro allI impI)
  fix p p' e and st st' :: "'s \<times> registration book"
  assume run: "lambda_cycle reg dereg regtext errtext answer getResources (p, st) = Some ((p', st'), e)"
    and ag: "case st of (s, w) \<Rightarrow> agrees ok view R K s w"
  consider "st' = st" | ms where "listTagged getResources = Some (Inr ms)"
      "st' = removeMissing dereg (seen_arns ms) (fold (lambda_one reg dereg regtext errtext) ms st)"
    using run by (auto simp: lambda_cycle_def lambda_poll_def split: prod.splits option.splits sum.splits)
  then show "case st' of (s, w) \<Rightarrow> agrees ok view R K s w"
  proof cases
    case (2 ms)
    obtain s1 w1 where f: "fold (lambda_one reg dereg regtext errtext) ms (fst st, snd st) = (s1, w1)" by fastforce
    obtain s' w' where st': "st' = (s', w')" by fastforce
    have "agrees ok view R K s1 w1"
      by (rule fold_agrees [OF _ _ f]) (use ag assms 2(1) in \<open>auto simp: own_functions_def split: prod.splits\<close>)
    from removeMissing_agrees(1) [OF this, of "seen_arns ms" s' w'] 2(2) f st' show ?thesis by (metis case_prod_conv prod.collapse)
  qed (use ag in simp)
qed

end

text \<open>The two copies of the loop do the same.\<close>

lemma lambda_nextInterval_eq: "lambda_nextInterval = nextInterval"
  by (simp add: fun_eq_iff lambda_nextInterval_def nextInterval_def)

lemma lambda_reportCycle_eq: "lambda_reportCycle canceled h ctxErr t1 t2 cycle x = reportCycle canceled h ctxErr t1 t2 cycle x"
  by (cases ctxErr)
    (auto simp: lambda_reportCycle_def reportCycle_def Let_def map_option_case split: option.splits prod.splits)

lemma lambda_Run_eq:
  "lambda_Run reg dereg regtext errtext canceled h ys x slept =
     poll_Run canceled h
       (map (\<lambda>y. (la_ctxErr y, la_started y, la_ended y, lambda_answered reg dereg regtext errtext y, la_sleeps y)) ys)
       x slept"
  by (induction ys arbitrary: x slept)
    (auto simp: lambda_nextInterval_eq lambda_reportCycle_eq Let_def split: option.split)

context function_registrar
begin

lemma lambda_Run_agrees:
  assumes "agrees ok view R K s w" "\<forall>y\<in>set ys. own_functions K (la_getResources y)"
    "lambda_Run reg dereg regtext errtext canceled h ys (r, p, s, w) [] = Some ((r', p', s', w'), slept)"
  shows "agrees ok view R K s' w'"
proof -
  have "\<forall>x\<in>set (map (\<lambda>y. (la_ctxErr y, la_started y, la_ended y, lambda_answered reg dereg regtext errtext y,
      la_sleeps y)) ys). keeps (\<lambda>(s, w). agrees ok view R K s w) (fst (snd (snd (snd x))))"
    using assms(2) cycle_keeps by (auto simp: lambda_answered_def)
  from poll_Run_keeps [OF this _ assms(3) [unfolded lambda_Run_eq]] assms(1) show ?thesis by simp
qed

end

interpretation lfns: function_registrar "adapter_RegisterFunction listen clock origin" adapter_Deregister
  view_of function_target adapter_ok K fn_fits for listen clock origin K
  by unfold_locales (auto simp: fn_fits_def function_target_def registrationOf_def)

lemma lambda_cycle_paces: "paces (lambda_cycle reg dereg regtext errtext answer getResources)"
  unfolding paces_def lambda_cycle_def
  by (auto split: prod.splits option.splits) (metis fst_conv)+

definition demo_tags :: "(string option \<times> string option) list" where
  "demo_tags = [(Some Enable, Some ''true''), (Some Service, Some ''svc:fn''), (Some Qualifier, Some ''live'')]"

definition demo_fn :: Function where
  "demo_fn = \<lparr>fn_service = ''svc:fn'', fn_caps = [], fn_arn = ''arn:f'', fn_qualifier = ''live''\<rparr>"

lemma demo_parseFunction: "parseFunction ''arn:f'' demo_tags = Inr demo_fn"
  by (simp add: parseFunction_def demo_tags_def demo_fn_def tag_values_def ToString_def label_names Qualifier_def
      Prefix_def m_str_def ValidateService_def has_prefix_def qualifierPattern_def qualifier_char_def less_eq_char_def
      ParseCaps_def)

definition demo_resources :: "string option \<Rightarrow> string + mapping_entry list \<times> string option" where
  "demo_resources tok = Inr ([(Some ''arn:f'', demo_tags)], Some [])"

lemma demo_listTagged: "listTagged demo_resources = Some (Inr [(Some ''arn:f'', demo_tags)])"
  by (simp add: listTagged_def list_pages.simps demo_resources_def)

text \<open>Capability lists that are the same set but repeat an entry count as a change of the function's
  registration.\<close>

lemma repeated_cap_moves:
  "sameCaps [''a'', ''a''] [''a''] \<and>
   registrationOf (demo_fn\<lparr>fn_caps := [''a'', ''a'']\<rparr>) \<noteq> registrationOf (demo_fn\<lparr>fn_caps := [''a'']\<rparr>)"
  by (simp add: sameCaps_iff registrationOf_def demo_fn_def)

section \<open>Properties\<close>

text \<open>C21: a Lambda cycle over the manager whose listing names every function once. Afterwards the
  book agrees with the manager; every registered key of the reader is listed; keys of other readers
  are untouched; and each listed function with valid tags is registered exactly as tagged (its
  service, and the target of its ARN and qualifier), or its failure is on record.\<close>

theorem lambda_cycle_reconciles:
  assumes "agrees adapter_ok view_of fn_fits K a w" "listTagged getResources = Some (Inr ms)"
    and "set (seen_arns ms) \<subseteq> K" "distinct (seen_arns ms)"
    and "lambda_poll (adapter_RegisterFunction listen clock origin) adapter_Deregister regtext errtext
           getResources (a, w) = Some ((a', w'), e)"
  shows "e = None \<and> agrees adapter_ok view_of fn_fits K a' w' \<and>
    (\<forall>k\<in>K. view_of a' k \<noteq> None \<longrightarrow> k \<in> set (seen_arns ms)) \<and>
    (\<forall>k. k \<notin> K \<longrightarrow> view_of a' k = view_of a k) \<and>
    (\<forall>m\<in>set ms. \<forall>fn. ToString (fst m) \<noteq> [] \<longrightarrow> parseFunction (ToString (fst m)) (snd m) = Inr fn \<longrightarrow>
       map_of (failed w') (fn_arn fn) = None \<longrightarrow> view_of a' (fn_arn fn) = Some (function_target (fn_arn fn) fn))"
proof -
  note step = lfns.poll_step [OF assms]
  have "view_of a' (fn_arn fn) = Some (function_target (fn_arn fn) fn)"
    if m: "m \<in> set ms" "ToString (fst m) \<noteq> []" "parseFunction (ToString (fst m)) (snd m) = Inr fn"
      and f: "map_of (failed w') (fn_arn fn) = None" for m fn
  proof -
    have arn: "fn_arn fn = ToString (fst m)" using m(3) by (rule parseFunction_arn)
    have "lfns.served w' m" using step m by blast
    then have act: "map_of (active w') (fn_arn fn) = Some (registrationOf fn)"
      using m(3) f arn by (simp add: lfns.served_def)
    have "fn_arn fn \<in> K" using m assms(3) arn by (auto simp: seen_arns_def)
    then have "rel_option (fn_fits (fn_arn fn)) (map_of (active w') (fn_arn fn)) (view_of a' (fn_arn fn))"
      using step by (simp add: agrees_def)
    then show ?thesis
      by (cases "view_of a' (fn_arn fn)") (auto simp: act fn_fits_def function_target_def registrationOf_def)
  qed
  with step show ?thesis by blast
qed

theorem lambda_cycle_reconciles_witness:
  "\<exists>a' w'. lambda_poll (adapter_RegisterFunction (\<lambda>_ _ _. None) (\<lambda>_. 0) demo_origin) adapter_Deregister
       (\<lambda>_. []) (\<lambda>_. []) demo_resources (fresh_adapter, new_book) = Some ((a', w'), None) \<and>
     {k. view_of a' k \<noteq> None} \<subseteq> {''arn:f''}"
proof -
  obtain a' w' e where run: "lambda_poll (adapter_RegisterFunction (\<lambda>_ _ _. None) (\<lambda>_. 0) demo_origin)
       adapter_Deregister (\<lambda>_. []) (\<lambda>_. []) demo_resources (fresh_adapter, new_book) = Some ((a', w'), e)"
    by (simp add: lambda_poll_def demo_listTagged) (metis surj_pair)
  have s: "seen_arns [(Some ''arn:f'', demo_tags)] = [''arn:f'']" by (simp add: seen_arns_def ToString_def)
  from lambda_cycle_reconciles [OF fresh_agrees demo_listTagged _ _ run, of UNIV] run show ?thesis
    by (auto simp: s)
qed

text \<open>What the tag parser accepts: a function of a Tailscale service, with the ARN it was listed
  under and a qualifier that is empty or of the form Lambda accepts, and well-formed capabilities.\<close>

lemma parseFunction_valid:
  assumes "parseFunction arn tags = Inr fn"
  shows "fn_arn fn = arn \<and> has_prefix (fn_service fn) ''svc:'' \<and>
    (fn_qualifier fn = [] \<or> qualifierPattern (fn_qualifier fn)) \<and>
    (\<forall>c\<in>set (fn_caps fn). c \<noteq> [] \<and> trimmed c \<and> CHR '','' \<notin> set c)"
  using assms
  by (auto simp: parseFunction_def Let_def ValidateService_def split: option.splits if_splits
      dest: ParseCaps_entries)

lemma parseFunction_valid_witness:
  "fn_arn demo_fn = ''arn:f'' \<and> has_prefix (fn_service demo_fn) ''svc:'' \<and> qualifierPattern (fn_qualifier demo_fn)"
  using parseFunction_valid [OF demo_parseFunction] by (auto simp: demo_fn_def)

end
