(* ===== verification/Discovery.thy ===== *)
theory Discovery
  imports Lambda_Watcher
begin

text \<open>
  Readers that share the manager. Each runs on a goroutine of its own and calls the registrar
  adapter; a reader is shown to keep its book in agreement with the manager whatever calls the
  others make in between, as long as each keeps to its own keys: what it relies on is what every
  call guarantees to the keys of others. The calls themselves are atomic here; that the manager
  makes them so is shown over its critical sections (\<open>Manager_Refinement\<close>).
\<close>

section \<open>The other readers\<close>

text \<open>The calls other readers make between two calls of a reader.\<close>

datatype reader_call =
    CallRegister Origin string "ServiceDef \<times> string"
  | CallRegisterFunction Origin string Function
  | CallDeregister string

primrec call_key :: "reader_call \<Rightarrow> string" where
  "call_key (CallRegister origin k d) = k"
| "call_key (CallRegisterFunction origin k fn) = k"
| "call_key (CallDeregister k) = k"

primrec run_call ::
  "(nat \<Rightarrow> string \<Rightarrow> ServiceMode \<Rightarrow> string option) \<Rightarrow> (nat \<Rightarrow> nanos) \<Rightarrow> reader_call \<Rightarrow> adapter \<Rightarrow> adapter" where
  "run_call listen clock (CallRegister origin k d) a = fst (adapter_Register listen clock origin k d a)"
| "run_call listen clock (CallRegisterFunction origin k fn) a =
     fst (adapter_RegisterFunction listen clock origin k fn a)"
| "run_call listen clock (CallDeregister k) a = adapter_Deregister k a"

text \<open>The shared registrar as one reader sees it: the adapter, and how many calls the reader has made.
  \<open>calls n\<close> are what the others call before its call number \<open>n\<close>.\<close>

type_synonym schedule = "nat \<Rightarrow> reader_call list"

definition meanwhile ::
  "(nat \<Rightarrow> string \<Rightarrow> ServiceMode \<Rightarrow> string option) \<Rightarrow> (nat \<Rightarrow> nanos) \<Rightarrow> schedule \<Rightarrow> adapter \<times> nat \<Rightarrow> adapter" where
  "meanwhile listen clock calls x = fold (run_call listen clock) (calls (snd x)) (fst x)"

definition shared_call ::
  "(nat \<Rightarrow> string \<Rightarrow> ServiceMode \<Rightarrow> string option) \<Rightarrow> (nat \<Rightarrow> nanos) \<Rightarrow> schedule
     \<Rightarrow> (adapter \<Rightarrow> adapter \<times> mgr_error option) \<Rightarrow> adapter \<times> nat \<Rightarrow> (adapter \<times> nat) \<times> mgr_error option" where
  "shared_call listen clock calls f x =
     (case f (meanwhile listen clock calls x) of (a, e) \<Rightarrow> ((a, Suc (snd x)), e))"

definition shared_Register ::
  "(nat \<Rightarrow> string \<Rightarrow> ServiceMode \<Rightarrow> string option) \<Rightarrow> (nat \<Rightarrow> nanos) \<Rightarrow> schedule \<Rightarrow> Origin \<Rightarrow> string
     \<Rightarrow> ServiceDef \<times> string \<Rightarrow> adapter \<times> nat \<Rightarrow> (adapter \<times> nat) \<times> mgr_error option" where
  "shared_Register listen clock calls origin k d =
     shared_call listen clock calls (adapter_Register listen clock origin k d)"

definition shared_RegisterFunction ::
  "(nat \<Rightarrow> string \<Rightarrow> ServiceMode \<Rightarrow> string option) \<Rightarrow> (nat \<Rightarrow> nanos) \<Rightarrow> schedule \<Rightarrow> Origin \<Rightarrow> string
     \<Rightarrow> Function \<Rightarrow> adapter \<times> nat \<Rightarrow> (adapter \<times> nat) \<times> mgr_error option" where
  "shared_RegisterFunction listen clock calls origin k fn =
     shared_call listen clock calls (adapter_RegisterFunction listen clock origin k fn)"

definition shared_Deregister ::
  "(nat \<Rightarrow> string \<Rightarrow> ServiceMode \<Rightarrow> string option) \<Rightarrow> (nat \<Rightarrow> nanos) \<Rightarrow> schedule \<Rightarrow> string
     \<Rightarrow> adapter \<times> nat \<Rightarrow> adapter \<times> nat" where
  "shared_Deregister listen clock calls k x =
     (adapter_Deregister k (meanwhile listen clock calls x), Suc (snd x))"

definition shared_ok :: "adapter \<times> nat \<Rightarrow> bool" where
  "shared_ok x = adapter_ok (fst x)"

text \<open>What the reader sees of it: its own keys.\<close>

definition own_view :: "string set \<Rightarrow> adapter \<times> nat \<Rightarrow> string \<Rightarrow> (string \<times> string) option" where
  "own_view K x k = (if k \<in> K then view_of (fst x) k else None)"

section \<open>Rely and guarantee\<close>

definition keeps_off :: "string set \<Rightarrow> reader_call list \<Rightarrow> bool" where
  "keeps_off K cs \<longleftrightarrow> (\<forall>c\<in>set cs. call_key c \<notin> K)"

text \<open>What a call guarantees: the manager stays in order, and only its key changes.\<close>

lemma run_call_guarantee:
  assumes "adapter_ok a"
  shows "adapter_ok (run_call listen clock c a)" "k \<noteq> call_key c \<Longrightarrow> view_of (run_call listen clock c a) k = view_of a k"
proof -
  have "adapter_ok (run_call listen clock c a) \<and> (k \<noteq> call_key c \<longrightarrow> view_of (run_call listen clock c a) k = view_of a k)"
  proof (cases c)
    case (CallRegister origin i d)
    then show ?thesis
      using adapter_Register_laws(1,3) [OF assms prod.collapse [symmetric], of listen clock origin i d] by auto
  next
    case (CallRegisterFunction origin i fn)
    then show ?thesis
      using adapter_RegisterFunction_laws(1,3) [OF assms prod.collapse [symmetric], of listen clock origin i fn] by auto
  qed (use adapter_Deregister_laws [OF assms] in auto)
  then show "adapter_ok (run_call listen clock c a)"
    "k \<noteq> call_key c \<Longrightarrow> view_of (run_call listen clock c a) k = view_of a k" by auto
qed

lemma run_calls_guarantee:
  assumes "adapter_ok a" "keeps_off K cs"
  shows "adapter_ok (fold (run_call listen clock) cs a) \<and>
    (\<forall>k\<in>K. view_of (fold (run_call listen clock) cs a) k = view_of a k)"
  using assms
proof (induction cs arbitrary: a)
  case (Cons c cs)
  let ?a = "run_call listen clock c a"
  have "adapter_ok ?a" and c: "call_key c \<notin> K" and "keeps_off K cs"
    using Cons.prems run_call_guarantee(1) by (auto simp: keeps_off_def)
  moreover have "view_of ?a k = view_of a k" if "k \<in> K" for k
    using run_call_guarantee(2) [OF Cons.prems(1)] c that by metis
  ultimately show ?case using Cons.IH [of ?a] by simp
qed simp

text \<open>The calls of a schedule that keep off the keys \<open>K\<close>.\<close>

definition foreign :: "string set \<Rightarrow> schedule \<Rightarrow> schedule" where
  "foreign K calls n = filter (\<lambda>c. call_key c \<notin> K) (calls n)"

lemma foreign_keeps_off: "keeps_off K (foreign K calls n)"
  by (simp add: keeps_off_def foreign_def)

lemma foreign_id: "\<forall>n. keeps_off K (calls n) \<Longrightarrow> foreign K calls = calls"
  by (auto simp: fun_eq_iff foreign_def keeps_off_def filter_id_conv)

lemma foreign_rely:
  assumes "shared_ok x"
  shows "adapter_ok (meanwhile listen clock (foreign K calls) x)"
    "k \<in> K \<Longrightarrow> view_of (meanwhile listen clock (foreign K calls) x) k = view_of (fst x) k"
  using run_calls_guarantee [OF assms [unfolded shared_ok_def] foreign_keeps_off, of listen clock K calls "snd x"]
  by (auto simp: meanwhile_def)

lemma shared_Deregister_laws:
  assumes "shared_ok x" "k \<in> K"
  shows "shared_ok (shared_Deregister listen clock (foreign K calls) k x)"
    "own_view K (shared_Deregister listen clock (foreign K calls) k x) = (own_view K x)(k := None)"
  using adapter_Deregister_laws [OF foreign_rely(1) [OF assms(1)]] foreign_rely(2) [OF assms(1)]
  by (auto simp: shared_Deregister_def shared_ok_def own_view_def fun_eq_iff)

text \<open>A call that obeys the laws on the adapter obeys them on the shared one.\<close>

lemma shared_call_laws:
  assumes ok: "shared_ok x" and k: "k \<in> K" and run: "shared_call listen clock (foreign K calls) f x = (x', e)"
    and laws: "\<And>a a' e. adapter_ok a \<Longrightarrow> f a = (a', e) \<Longrightarrow> adapter_ok a' \<and> (e \<noteq> None \<longrightarrow> view_of a k = None) \<and>
      view_of a' = (if e = None \<and> view_of a k = None then (view_of a)(k \<mapsto> t) else view_of a)"
  shows "shared_ok x'" "e \<noteq> None \<Longrightarrow> own_view K x k = None"
    "own_view K x' = (if e = None \<and> own_view K x k = None then (own_view K x)(k \<mapsto> t) else own_view K x)"
proof -
  let ?a = "meanwhile listen clock (foreign K calls) x"
  from run obtain a' where f: "f ?a = (a', e)" and x': "x' = (a', Suc (snd x))"
    by (auto simp: shared_call_def split: prod.splits)
  note law = laws [OF foreign_rely(1) [OF ok] f] and rely = foreign_rely(2) [OF ok]
  show "shared_ok x'" "e \<noteq> None \<Longrightarrow> own_view K x k = None"
    using law rely k by (auto simp: x' shared_ok_def own_view_def)
  show "own_view K x' = (if e = None \<and> own_view K x k = None then (own_view K x)(k \<mapsto> t) else own_view K x)"
    using law rely k by (auto simp: x' own_view_def fun_eq_iff)
qed

lemma shared_Register_laws:
  assumes "shared_ok x" "k \<in> K" "shared_Register listen clock (foreign K calls) origin k d x = (x', e)"
  shows "shared_ok x'" "e \<noteq> None \<Longrightarrow> own_view K x k = None"
    "own_view K x' = (if e = None \<and> own_view K x k = None then (own_view K x)(k \<mapsto> container_target k d) else own_view K x)"
  using shared_call_laws [OF assms(1,2) assms(3) [unfolded shared_Register_def], of "container_target k d"]
    adapter_Register_laws [of _ listen clock origin k d] by blast+

lemma shared_RegisterFunction_laws:
  assumes "shared_ok x" "k \<in> K" "shared_RegisterFunction listen clock (foreign K calls) origin k d x = (x', e)"
  shows "shared_ok x'" "e \<noteq> None \<Longrightarrow> own_view K x k = None"
    "own_view K x' = (if e = None \<and> own_view K x k = None then (own_view K x)(k \<mapsto> function_target k d) else own_view K x)"
  using shared_call_laws [OF assms(1,2) assms(3) [unfolded shared_RegisterFunction_def], of "function_target k d"]
    adapter_RegisterFunction_laws [of _ listen clock origin k d] by blast+

interpretation shared_ctr: container_registrar "shared_Register listen clock (foreign K calls) origin"
  "shared_Deregister listen clock (foreign K calls)" "own_view K" container_target shared_ok K addr_fits
  for listen clock calls origin K
proof
  show "own_view K s k = None"
    if "shared_ok s" "k \<in> K" "shared_Register listen clock (foreign K calls) origin k d s = (s', Some x)" for s s' k d x
    using shared_Register_laws(2) [OF that] by simp
  show "addr_fits k (backend_addr ip (sd_port def)) (container_target k (def, ip))" for k ip and def :: ServiceDef
    by (auto simp: addr_fits_def container_target_def)
qed (blast intro: shared_Register_laws shared_Deregister_laws)+

interpretation shared_fns: function_registrar "shared_RegisterFunction listen clock (foreign K calls) origin"
  "shared_Deregister listen clock (foreign K calls)" "own_view K" function_target shared_ok K fn_fits
  for listen clock calls origin K
proof
  show "own_view K s k = None"
    if "shared_ok s" "k \<in> K" "shared_RegisterFunction listen clock (foreign K calls) origin k d s = (s', Some x)" for s s' k d x
    using shared_RegisterFunction_laws(2) [OF that] by simp
  show "fn_fits k (registrationOf fn) (function_target k fn)" if "fn_arn fn = k" for k fn
    using that by (simp add: fn_fits_def function_target_def registrationOf_def)
qed (blast intro: shared_RegisterFunction_laws shared_Deregister_laws)+

text \<open>On its own keys, what a reader sees is what is registered.\<close>

lemma agrees_shared: "agrees shared_ok (own_view K) R K x w \<longleftrightarrow> agrees adapter_ok view_of R K (fst x) w"
  by (simp add: agrees_def shared_ok_def own_view_def)

lemma fresh_shared: "agrees shared_ok (own_view K) R K (fresh_adapter, n) new_book"
  by (simp add: agrees_shared fresh_agrees)

text \<open>Readers of different kinds do keep off each other's keys. The key of a container of a task has a
  hash sign whatever AWS answers; the identifier of a Docker container and the ARN of a function have
  none, and only the ARN has a colon. Two ECS readers keep off each other's keys when the tasks they
  see differ, since a task's ARN has no hash sign.\<close>

definition task_keys :: "string set" where
  "task_keys = {k. CHR ''#'' \<in> set k}"

definition function_keys :: "string set" where
  "function_keys = {k. CHR '':'' \<in> set k \<and> CHR ''#'' \<notin> set k}"

definition container_ids :: "string set" where
  "container_ids = {k. CHR '':'' \<notin> set k \<and> CHR ''#'' \<notin> set k}"

lemma own_tasks_keys: "own_tasks task_keys describeTasks"
  by (auto simp: own_tasks_def task_keys_def container_key_def registrationKey_def split: option.splits sum.splits)

lemma kinds_apart: "disjnt task_keys function_keys" "disjnt task_keys container_ids" "disjnt function_keys container_ids"
  by (auto simp: disjnt_def task_keys_def function_keys_def container_ids_def)

lemma registrationKey_eq:
  assumes "CHR ''#'' \<notin> set arn" "CHR ''#'' \<notin> set arn'"
  shows "registrationKey arn name = registrationKey arn' name' \<longleftrightarrow> arn = arn' \<and> name = name'"
  using assms by (induction arn arbitrary: arn') (case_tac arn'; auto simp: registrationKey_def)+

lemma apart_keeps_off: "disjnt K K' \<Longrightarrow> call_key ` set cs \<subseteq> K' \<Longrightarrow> keeps_off K cs"
  by (auto simp: keeps_off_def disjnt_def)

section \<open>Properties\<close>

text \<open>Calls of another reader, before every call of the one looked at.\<close>

definition demo_others :: schedule where
  "demo_others n = [CallDeregister ''other'', CallRegisterFunction demo_origin ''other'' demo_fn]"

lemma demo_others_off: "\<forall>n. keeps_off {k} (demo_others n)" if "k \<noteq> ''other''"
  using that by (simp add: keeps_off_def demo_others_def)

text \<open>C17: the Docker watcher beside any number of other readers. Before each of its calls the others make
  any calls they like on keys that are not of its containers. From start-up and through any sequence
  of events, sweeps and errors its book agrees with the manager: a container is active exactly when
  its key is registered, for a service and address of a definition it was registered with; the
  manager is left with nothing in flight, and no call has blocked.\<close>

theorem docker_run_shared:
  assumes "\<forall>n. keeps_off K (calls n)"
    and "\<forall>cs. listing = Inr cs \<longrightarrow> fst ` set cs \<subseteq> K" "\<forall>x\<in>set ins. input_ids x \<subseteq> K"
    and "docker_Run (shared_Register listen clock calls origin) (shared_Deregister listen clock calls) regtext errtext
           ping listing insp ins ((fresh_adapter, 0), new_book) = ((x, w), e)"
  shows "agrees adapter_ok view_of addr_fits K (fst x) w"
proof -
  have "fst ` set cs \<subseteq> K" if "listing = Inr cs" for cs using assms(2) that by blast
  from shared_ctr.run_agrees [OF fresh_shared this assms(3), where calls = calls, unfolded foreign_id [OF assms(1)],
      OF _ assms(4)]
  show ?thesis by (simp add: agrees_shared)
qed

theorem docker_run_shared_witness:
  "case docker_Run (shared_Register (\<lambda>_ _ _. None) (\<lambda>_. 0) demo_others demo_origin)
          (shared_Deregister (\<lambda>_ _ _. None) (\<lambda>_. 0) demo_others) (\<lambda>_. []) (\<lambda>_. []) None (Inr [(''c1'', demo_labels)])
          (\<lambda>_. Inr \<lparr>ir_config = Some demo_labels, ir_networks = Some [(''bridge'', Some ''10.0.0.1'')]\<rparr>)
          [SweepTick (Inr []) (\<lambda>_. Inl ''gone'')] ((fresh_adapter, 0), new_book) of
     ((x, w), e) \<Rightarrow> agrees adapter_ok view_of addr_fits {''c1''} (fst x) w"
proof -
  have off: "\<forall>n. keeps_off {''c1''} (demo_others n)" by (rule demo_others_off) simp
  show ?thesis by (auto split: prod.splits dest!: docker_run_shared [OF off, rotated 2])
qed

text \<open>C18: an ECS watcher beside any number of other readers, as long as none of them calls the registrar
  with a key of its tasks. Over any number of rounds of its loop, whatever AWS answers in them, its book
  agrees with the manager. The condition fails for two readers of one cluster, which \<^verbatim>\<open>main.go\<close> only warns
  about.\<close>

theorem ecs_run_shared:
  assumes "\<forall>n. keeps_off K (calls n)" "\<forall>y\<in>set ys. own_tasks K (ea_describeTasks y)"
    and "es_reg st = (fresh_adapter, 0)" "es_book st = new_book"
    and "ecs_Run (shared_Register listen clock calls origin) (shared_Deregister listen clock calls) regtext
           canceled h ys (r, p, st) = Some ((r', p', st'), slept)"
  shows "agrees adapter_ok view_of addr_fits K (fst (es_reg st')) (es_book st')"
proof -
  have "agrees shared_ok (own_view K) addr_fits K (es_reg st) (es_book st)" by (simp add: assms(3,4) fresh_shared)
  from shared_ctr.ecs_Run_agrees [OF this assms(2), where calls = calls, unfolded foreign_id [OF assms(1)], OF assms(5)]
  show ?thesis by (simp add: agrees_shared)
qed

definition demo_round :: ecs_answers where
  "demo_round = \<lparr>ea_ctxErr = None, ea_started = 1, ea_ended = 2, ea_api = demo_aws, ea_account = Inl [],
     ea_listTasks = demo_list, ea_describeTasks = \<lambda>_. Inr [demo_task], ea_sleeps = True\<rparr>"

lemma demo_ecs_Run:
  "\<exists>r' p' st' slept. ecs_Run reg dereg regtext canceled h [demo_round] (r, new_poller 10 5 60 ''prod'' False, st) =
     Some ((r', p', st'), slept)"
proof -
  have l: "listAllTaskArns demo_list = Some (Inr [''arn:t''])"
    using list_pages_complete [OF demo_pages, of "[]"] by (simp add: listAllTaskArns_def)
  have "\<exists>st'. ecs_poll reg dereg regtext demo_aws demo_list (\<lambda>_. Inr [demo_task]) st = Some (st', None)"
    by (simp add: ecs_poll_def l demo_chunk split: prod.splits)
  then show ?thesis
    by (auto simp: ecs_Run_def ecs_round_def demo_round_def ecs_cycle_def resolve_account_def new_poller_def
        reportCycle_def Let_def)
qed

theorem ecs_run_shared_witness:
  "\<exists>r' p' st' slept.
     ecs_Run (shared_Register (\<lambda>_ _ _. None) (\<lambda>_. 0) demo_others demo_origin)
       (shared_Deregister (\<lambda>_ _ _. None) (\<lambda>_. 0) demo_others) (\<lambda>_. []) (\<lambda>_. False) (Some 0) [demo_round]
       ([demo_reader], new_poller 10 5 60 ''prod'' False,
        \<lparr>es_reg = (fresh_adapter, 0), es_book = new_book, es_taskDefs = [], es_hostIPs = [], es_seen = []\<rparr>) =
       Some ((r', p', st'), slept) \<and>
     agrees adapter_ok view_of addr_fits (- {''other''}) (fst (es_reg st')) (es_book st')"
proof -
  have off: "\<forall>n. keeps_off (- {''other''}) (demo_others n)" by (simp add: keeps_off_def demo_others_def)
  have own: "\<forall>y\<in>set [demo_round]. own_tasks (- {''other''}) (ea_describeTasks y)"
    by (auto simp: demo_round_def own_tasks_def container_key_def registrationKey_def demo_task_def derefArn_def
        split: option.splits sum.splits)
  obtain r' p' st' slept where run: "ecs_Run (shared_Register (\<lambda>_ _ _. None) (\<lambda>_. 0) demo_others demo_origin)
       (shared_Deregister (\<lambda>_ _ _. None) (\<lambda>_. 0) demo_others) (\<lambda>_. []) (\<lambda>_. False) (Some 0) [demo_round]
       ([demo_reader], new_poller 10 5 60 ''prod'' False,
        \<lparr>es_reg = (fresh_adapter, 0), es_book = new_book, es_taskDefs = [], es_hostIPs = [], es_seen = []\<rparr>) =
       Some ((r', p', st'), slept)" using demo_ecs_Run by blast
  with ecs_run_shared [OF off own _ _ run] show ?thesis by auto
qed

text \<open>C19: a Lambda watcher beside any number of other readers, as long as none of them calls the registrar
  with the ARN of one of its functions: over any number of rounds, whatever AWS answers, its book agrees
  with the manager. The condition fails for two readers of one account, which \<^verbatim>\<open>main.go\<close> only warns about.\<close>

theorem lambda_run_shared:
  assumes "\<forall>n. keeps_off K (calls n)" "\<forall>y\<in>set ys. own_functions K (la_getResources y)"
    and "lambda_Run (shared_RegisterFunction listen clock calls origin) (shared_Deregister listen clock calls)
           regtext errtext canceled h ys (r, p, (fresh_adapter, 0), new_book) [] = Some ((r', p', x, w), slept)"
  shows "agrees adapter_ok view_of fn_fits K (fst x) w"
  using shared_fns.lambda_Run_agrees [OF fresh_shared assms(2), where calls = calls, unfolded foreign_id [OF assms(1)],
      OF assms(3)]
  by (simp add: agrees_shared)

definition demo_lambda_round :: lambda_answers where
  "demo_lambda_round = \<lparr>la_ctxErr = None, la_started = 1, la_ended = 2, la_account = Inl [],
     la_getResources = demo_resources, la_sleeps = True\<rparr>"

theorem lambda_run_shared_witness:
  "\<exists>r' p' x w slept.
     lambda_Run (shared_RegisterFunction (\<lambda>_ _ _. None) (\<lambda>_. 0) demo_others demo_origin)
       (shared_Deregister (\<lambda>_ _ _. None) (\<lambda>_. 0) demo_others) (\<lambda>_. []) (\<lambda>_. []) (\<lambda>_. False) (Some 0)
       [demo_lambda_round] ([demo_reader], lambda_NewWatcher 5 60 ''prod'' False, (fresh_adapter, 0), new_book) [] =
       Some ((r', p', x, w), slept) \<and>
     agrees adapter_ok view_of fn_fits {''arn:f''} (fst x) w"
proof -
  let ?run = "lambda_Run (shared_RegisterFunction (\<lambda>_ _ _. None) (\<lambda>_. 0) demo_others demo_origin)
       (shared_Deregister (\<lambda>_ _ _. None) (\<lambda>_. 0) demo_others) (\<lambda>_. []) (\<lambda>_. []) (\<lambda>_. False) (Some 0)
       [demo_lambda_round] ([demo_reader], lambda_NewWatcher 5 60 ''prod'' False, (fresh_adapter, 0), new_book) []"
  have own: "\<forall>y\<in>set [demo_lambda_round]. own_functions {''arn:f''} (la_getResources y)"
    by (auto simp: demo_lambda_round_def own_functions_def demo_listTagged seen_arns_def ToString_def)
  have "?run \<noteq> None"
    by (simp add: demo_lambda_round_def lambda_answered_def lambda_cycle_def resolve_account_def lambda_NewWatcher_def
        new_poller_def lambda_poll_def demo_listTagged lambda_reportCycle_def Let_def split: option.split prod.split)
  then obtain r' p' x w slept where run: "?run = Some ((r', p', x, w), slept)" by (metis not_None_eq surj_pair)
  with lambda_run_shared [OF demo_others_off own run] show ?thesis by auto
qed

end
