(* ===== verification/Accounts.thy ===== *)
theory Accounts
  imports Prelude
begin

text \<open>
  The account lists of the ECS and Lambda readers and their resolution against the defaults
  (\<^verbatim>\<open>ecs/account.go\<close>, \<^verbatim>\<open>lambda/account.go\<close>). The ECS records extend the Lambda ones with the cluster.
  \<^verbatim>\<open>cmp.Or\<close> on strings is \<open>firstNonEmpty\<close>.
\<close>

section \<open>Data\<close>

record Account =
  ac_name :: string
  ac_region :: string
  ac_profile :: string
  ac_configFile :: string
  ac_accessKeyID :: string
  ac_secretAccessKey :: string

record EcsAccount = Account +
  ac_cluster :: string

record Defaults =
  df_region :: string
  df_profile :: string
  df_configFile :: string
  df_pollInterval :: nanos

record EcsDefaults = Defaults +
  df_cluster :: string

record WatcherSpec =
  ws_name :: string
  ws_region :: string
  ws_profile :: string
  ws_configFile :: string
  ws_accessKeyID :: string
  ws_secretAccessKey :: string
  ws_pollInterval :: nanos

record EcsWatcherSpec = WatcherSpec +
  ws_cluster :: string

text \<open>The errors of planning, with the label or name they mention.\<close>

datatype plan_error =
    ClusterRequired
  | CredentialsIncomplete string
  | AccountClusterRequired string
  | DuplicateName string

section \<open>Operations\<close>

fun firstNonEmpty :: "string list \<Rightarrow> string" where
  "firstNonEmpty [] = []"
| "firstNonEmpty (v # vs) = (if v \<noteq> [] then v else firstNonEmpty vs)"

text \<open>\<open>unmarshal\<close> is \<^verbatim>\<open>json.Unmarshal\<close> into the list of accounts: the error's text or the accounts.\<close>

definition ParseAccounts :: "(string \<Rightarrow> string + EcsAccount list) \<Rightarrow> string \<Rightarrow> string + EcsAccount list" where
  "ParseAccounts unmarshal raw =
     (if trim_space raw = [] then Inr []
      else case unmarshal raw of
             Inl err \<Rightarrow> Inl (''TSSERVE_ECS_ACCOUNTS: invalid JSON: '' @ err)
           | Inr accounts \<Rightarrow> Inr accounts)"

definition lambda_ParseAccounts :: "(string \<Rightarrow> string + Account list) \<Rightarrow> string \<Rightarrow> string + Account list" where
  "lambda_ParseAccounts unmarshal raw =
     (if trim_space raw = [] then Inr []
      else case unmarshal raw of
             Inl err \<Rightarrow> Inl (''TSSERVE_LAMBDA_ACCOUNTS: invalid JSON: '' @ err)
           | Inr accounts \<Rightarrow> Inr accounts)"

definition account_label :: "nat \<Rightarrow> 'z Account_scheme \<Rightarrow> string" where
  "account_label i a = (if ac_name a = [] then ''accounts['' @ show_nat i @ '']'' else ac_name a)"

definition ecs_spec :: "EcsDefaults \<Rightarrow> EcsAccount \<Rightarrow> EcsWatcherSpec" where
  "ecs_spec d a =
     \<lparr>ws_name = ac_name a, ws_region = firstNonEmpty [ac_region a, df_region d],
      ws_profile = firstNonEmpty [ac_profile a, df_profile d],
      ws_configFile = firstNonEmpty [ac_configFile a, df_configFile d],
      ws_accessKeyID = ac_accessKeyID a, ws_secretAccessKey = ac_secretAccessKey a,
      ws_pollInterval = df_pollInterval d, ws_cluster = firstNonEmpty [ac_cluster a, df_cluster d]\<rparr>"

fun ecs_plan_from ::
  "EcsDefaults \<Rightarrow> nat \<Rightarrow> string list \<Rightarrow> EcsAccount list \<Rightarrow> plan_error + EcsWatcherSpec list" where
  "ecs_plan_from d i seen [] = Inr []"
| "ecs_plan_from d i seen (a # as) =
     (if (ac_accessKeyID a = []) \<noteq> (ac_secretAccessKey a = []) then Inl (CredentialsIncomplete (account_label i a))
      else if ws_cluster (ecs_spec d a) = [] then Inl (AccountClusterRequired (account_label i a))
      else if ac_name a \<noteq> [] \<and> ac_name a \<in> set seen then Inl (DuplicateName (ac_name a))
      else case ecs_plan_from d (Suc i) (if ac_name a \<noteq> [] then ac_name a # seen else seen) as of
             Inl e \<Rightarrow> Inl e
           | Inr specs \<Rightarrow> Inr (ecs_spec d a # specs))"

definition ecs_Plan :: "EcsAccount list \<Rightarrow> EcsDefaults \<Rightarrow> plan_error + EcsWatcherSpec list" where
  "ecs_Plan accounts d =
     (if accounts = []
      then (if df_cluster d = [] then Inl ClusterRequired
            else Inr [\<lparr>ws_name = [], ws_region = df_region d, ws_profile = df_profile d,
                       ws_configFile = df_configFile d, ws_accessKeyID = [], ws_secretAccessKey = [],
                       ws_pollInterval = df_pollInterval d, ws_cluster = df_cluster d\<rparr>])
      else ecs_plan_from d 0 [] accounts)"

definition lambda_spec :: "Defaults \<Rightarrow> Account \<Rightarrow> WatcherSpec" where
  "lambda_spec d a =
     \<lparr>ws_name = ac_name a, ws_region = firstNonEmpty [ac_region a, df_region d],
      ws_profile = firstNonEmpty [ac_profile a, df_profile d],
      ws_configFile = firstNonEmpty [ac_configFile a, df_configFile d],
      ws_accessKeyID = ac_accessKeyID a, ws_secretAccessKey = ac_secretAccessKey a,
      ws_pollInterval = df_pollInterval d\<rparr>"

fun lambda_plan_from ::
  "Defaults \<Rightarrow> nat \<Rightarrow> string list \<Rightarrow> Account list \<Rightarrow> plan_error + WatcherSpec list" where
  "lambda_plan_from d i seen [] = Inr []"
| "lambda_plan_from d i seen (a # as) =
     (if (ac_accessKeyID a = []) \<noteq> (ac_secretAccessKey a = []) then Inl (CredentialsIncomplete (account_label i a))
      else if ac_name a \<noteq> [] \<and> ac_name a \<in> set seen then Inl (DuplicateName (ac_name a))
      else case lambda_plan_from d (Suc i) (if ac_name a \<noteq> [] then ac_name a # seen else seen) as of
             Inl e \<Rightarrow> Inl e
           | Inr specs \<Rightarrow> Inr (lambda_spec d a # specs))"

definition lambda_Plan :: "Account list \<Rightarrow> Defaults \<Rightarrow> plan_error + WatcherSpec list" where
  "lambda_Plan accounts d =
     (if accounts = []
      then Inr [\<lparr>ws_name = [], ws_region = df_region d, ws_profile = df_profile d,
                 ws_configFile = df_configFile d, ws_accessKeyID = [], ws_secretAccessKey = [],
                 ws_pollInterval = df_pollInterval d\<rparr>]
      else lambda_plan_from d 0 [] accounts)"

section \<open>Lemmas\<close>

definition creds_paired :: "'z Account_scheme \<Rightarrow> bool" where
  "creds_paired a \<longleftrightarrow> (ac_accessKeyID a = []) = (ac_secretAccessKey a = [])"

definition explicit_names :: "'z Account_scheme list \<Rightarrow> string list" where
  "explicit_names as = filter (\<lambda>n. n \<noteq> []) (map ac_name as)"

lemma explicit_names_Cons [simp]:
  "explicit_names [] = []"
  "explicit_names (a # as) = (if ac_name a = [] then explicit_names as else ac_name a # explicit_names as)"
  by (simp_all add: explicit_names_def)

lemma plan_Cons_iff:
  "(case x of Inl e \<Rightarrow> Inl e | Inr specs \<Rightarrow> Inr (s # specs)) = Inr specs' \<longleftrightarrow> (\<exists>t. x = Inr t \<and> specs' = s # t)"
  by (cases x) auto

lemma ecs_plan_from_iff:
  "ecs_plan_from d i seen as = Inr specs \<longleftrightarrow>
     specs = map (ecs_spec d) as \<and> list_all creds_paired as \<and> list_all (\<lambda>a. ws_cluster (ecs_spec d a) \<noteq> []) as \<and>
     distinct (explicit_names as) \<and> set (explicit_names as) \<inter> set seen = {}"
proof (induction as arbitrary: i seen specs)
  case (Cons a as)
  show ?case by (cases "ac_name a = []") (auto simp: creds_paired_def Cons.IH plan_Cons_iff)
qed auto

lemma lambda_plan_from_iff:
  "lambda_plan_from d i seen as = Inr specs \<longleftrightarrow>
     specs = map (lambda_spec d) as \<and> list_all creds_paired as \<and>
     distinct (explicit_names as) \<and> set (explicit_names as) \<inter> set seen = {}"
proof (induction as arbitrary: i seen specs)
  case (Cons a as)
  show ?case by (cases "ac_name a = []") (auto simp: creds_paired_def Cons.IH plan_Cons_iff)
qed auto

section \<open>Properties\<close>

text \<open>A plan for configured ECS accounts succeeds exactly when static credentials come in pairs,
  every account has a cluster of its own or by default, and the explicit names are distinct; it then
  has one specification per account, in order, with the blank fields filled from the defaults.\<close>

lemma ecs_Plan_iff:
  assumes "accounts \<noteq> []"
  shows "ecs_Plan accounts d = Inr specs \<longleftrightarrow>
    specs = map (ecs_spec d) accounts \<and> (\<forall>a\<in>set accounts. creds_paired a) \<and>
    (\<forall>a\<in>set accounts. ac_cluster a \<noteq> [] \<or> df_cluster d \<noteq> []) \<and> distinct (explicit_names accounts)"
  using assms by (auto simp: ecs_Plan_def ecs_plan_from_iff list_all_iff ecs_spec_def split: if_splits)

definition demo_account :: "string \<Rightarrow> EcsAccount" where
  "demo_account n = \<lparr>ac_name = n, ac_region = [], ac_profile = [], ac_configFile = [], ac_accessKeyID = [],
     ac_secretAccessKey = [], ac_cluster = []\<rparr>"

definition demo_defaults :: EcsDefaults where
  "demo_defaults = \<lparr>df_region = ''eu-west-1'', df_profile = [], df_configFile = [], df_pollInterval = 10,
     df_cluster = ''main''\<rparr>"

lemma ecs_Plan_iff_witness:
  "ecs_Plan [demo_account ''a'', demo_account ''b''] demo_defaults =
     Inr [ecs_spec demo_defaults (demo_account ''a''), ecs_spec demo_defaults (demo_account ''b'')]"
  using ecs_Plan_iff [of "[demo_account ''a'', demo_account ''b'']" demo_defaults]
  by (simp add: demo_account_def demo_defaults_def creds_paired_def)

text \<open>Likewise for Lambda accounts, which need no cluster; with none configured the plan is the
  one reader of the defaults.\<close>

lemma lambda_Plan_iff:
  "lambda_Plan accounts d = Inr specs \<longleftrightarrow>
    (if accounts = [] then \<exists>s. specs = [s] \<and> ws_name s = [] \<and> ws_region s = df_region d \<and>
        ws_profile s = df_profile d \<and> ws_configFile s = df_configFile d \<and> ws_pollInterval s = df_pollInterval d \<and>
        ws_accessKeyID s = [] \<and> ws_secretAccessKey s = []
     else specs = map (lambda_spec d) accounts \<and> list_all creds_paired accounts \<and> distinct (explicit_names accounts))"
  by (auto simp: lambda_Plan_def lambda_plan_from_iff)

end
