(* ===== verification/Certsync.thy ===== *)
theory Certsync
  imports Prelude
begin

text \<open>
  The mirror of the certificate cache (\<^verbatim>\<open>certsync/certsync.go\<close>): restoring the directory from the bucket,
  uploading it, and the loop that debounces file system events and sweeps once more when it is
  stopped. S3, the file system calls and the events are arguments.
\<close>

section \<open>Data\<close>

record Syncer =
  sy_dir :: string
  sy_bucket :: string
  sy_prefix :: string
  sy_watching :: bool

text \<open>The directory: its entries by name, a file with its content or a directory (\<open>None\<close>). The
  bucket: its objects by key.\<close>

type_synonym dir = "(string, string option) gomap"
type_synonym bucket = "(string, string) gomap"

text \<open>What the file system and S3 answer, by name or key: listing the bucket from a continuation
  token (keys, whether the listing is truncated, the next token), the content of an object or an
  error of \<^verbatim>\<open>GetObject\<close> or of reading its body, writing the temporary file (an error and what it left
  of the file), renaming it, reading the directory, reading a file, and \<^verbatim>\<open>PutObject\<close>.\<close>

record cert_env =
  ce_list :: "string option \<Rightarrow> string + string list \<times> bool \<times> string option"
  ce_get :: "string \<Rightarrow> string + string + string"
  ce_write :: "string \<Rightarrow> (string \<times> string option) option"
  ce_rename :: "string \<Rightarrow> string option"
  ce_readDir :: "string option"
  ce_read :: "string \<Rightarrow> string option"
  ce_put :: "string \<Rightarrow> string option"

section \<open>Operations\<close>

definition New :: "string \<Rightarrow> string \<Rightarrow> string \<Rightarrow> string option \<Rightarrow> string + Syncer" where
  "New cfgDir cfgBucket cfgPrefix mkdir =
     (if cfgDir = [] then Inl ''certsync: Dir is required''
      else if cfgBucket = [] then Inl ''certsync: Bucket is required''
      else case mkdir of
             Some err \<Rightarrow> Inl (''certsync: create dir: '' @ err)
           | None \<Rightarrow>
               let prefix = trim_prefix cfgPrefix ''/'';
                   prefix' = (if prefix \<noteq> [] \<and> \<not> has_suffix prefix ''/'' then prefix @ ''/'' else prefix)
               in Inr \<lparr>sy_dir = cfgDir, sy_bucket = cfgBucket, sy_prefix = prefix', sy_watching = False\<rparr>)"

definition isCertFile :: "string \<Rightarrow> bool" where
  "isCertFile name \<longleftrightarrow> name = ''acme-account.key.pem'' \<or> has_suffix name ''.crt'' \<or> has_suffix name ''.key''"

definition object_key :: "Syncer \<Rightarrow> string \<Rightarrow> string" where
  "object_key s name = sy_prefix s @ name"

definition file_path :: "Syncer \<Rightarrow> string \<Rightarrow> string" where
  "file_path s name = path_join [sy_dir s, name]"

definition download :: "Syncer \<Rightarrow> cert_env \<Rightarrow> string \<Rightarrow> string \<Rightarrow> dir \<Rightarrow> dir \<times> string option" where
  "download s env key name d =
     (case ce_get env key of
        Inl err \<Rightarrow> (d, Some (''certsync: get '' @ key @ '': '' @ err))
      | Inr (Inl err) \<Rightarrow> (d, Some (''certsync: read '' @ key @ '': '' @ err))
      | Inr (Inr data) \<Rightarrow>
          let tmp = name @ ''.tmp'' in
          (case ce_write env tmp of
             Some (err, partial) \<Rightarrow>
               ((case partial of None \<Rightarrow> d | Some left \<Rightarrow> m_put tmp (Some left) d),
                Some (''certsync: write '' @ file_path s name @ '': '' @ err))
           | None \<Rightarrow>
               (case ce_rename env tmp of
                  Some err \<Rightarrow> (m_put tmp (Some data) d, Some (''certsync: rename '' @ file_path s name @ '': '' @ err))
                | None \<Rightarrow> (m_put name (Some data) (m_del tmp (m_put tmp (Some data) d)), None))))"

text \<open>One listed object: the directory, the number of files restored and the errors so far.\<close>

definition hydrate_object :: "Syncer \<Rightarrow> cert_env \<Rightarrow> string \<Rightarrow> dir \<times> nat \<times> string list \<Rightarrow> dir \<times> nat \<times> string list" where
  "hydrate_object s env k st =
     (case st of (d, restored, errs) \<Rightarrow>
        let name = trim_prefix k (sy_prefix s) in
        if name = [] \<or> contains name ''/'' \<or> \<not> isCertFile name then (d, restored, errs)
        else case download s env k name d of
               (d', Some err) \<Rightarrow> (d', restored, errs @ [err])
             | (d', None) \<Rightarrow> (d', restored + 1, errs))"

text \<open>The loop over the pages; \<open>None\<close>: the listing never ends.\<close>

partial_function (option) hydrate_pages ::
  "Syncer \<Rightarrow> cert_env \<Rightarrow> string option \<Rightarrow> dir \<times> nat \<times> string list
     \<Rightarrow> ((dir \<times> nat \<times> string list) \<times> string option) option" where
  "hydrate_pages s env token st =
     (case ce_list env token of
        Inl err \<Rightarrow> Some (st, Some (''certsync: list '' @ sy_bucket s @ ''/'' @ sy_prefix s @ '': '' @ err))
      | Inr (keys, truncated, token') \<Rightarrow>
          let st' = fold (hydrate_object s env) keys st in
          if truncated then hydrate_pages s env token' st' else Some (st', None))"

text \<open>The directory, the number of files restored and the errors returned: that of the listing, or
  the joined ones of the objects.\<close>

definition Hydrate :: "Syncer \<Rightarrow> cert_env \<Rightarrow> dir \<Rightarrow> (dir \<times> nat \<times> string list) option" where
  "Hydrate s env d =
     (case hydrate_pages s env None (d, 0, []) of
        None \<Rightarrow> None
      | Some ((d', restored, errs), Some err) \<Rightarrow> Some (d', restored, [err])
      | Some ((d', restored, errs), None) \<Rightarrow> Some (d', restored, errs))"

definition upload :: "Syncer \<Rightarrow> cert_env \<Rightarrow> dir \<Rightarrow> string \<Rightarrow> bucket \<Rightarrow> bucket \<times> string option" where
  "upload s env d name b =
     (case map_of d name of
        None \<Rightarrow> (b, None)
      | Some None \<Rightarrow> (b, Some (''certsync: read '' @ name @ '': is a directory''))
      | Some (Some data) \<Rightarrow>
          (case ce_read env name of
             Some err \<Rightarrow> (b, Some (''certsync: read '' @ name @ '': '' @ err))
           | None \<Rightarrow>
               (case ce_put env (object_key s name) of
                  Some err \<Rightarrow> (b, Some (''certsync: put '' @ object_key s name @ '': '' @ err))
                | None \<Rightarrow> (m_put (object_key s name) data b, None))))"

definition sync_entry :: "Syncer \<Rightarrow> cert_env \<Rightarrow> dir \<Rightarrow> string \<Rightarrow> bucket \<times> string list \<Rightarrow> bucket \<times> string list" where
  "sync_entry s env d name st =
     (case st of (b, errs) \<Rightarrow>
        if map_of d name = Some None \<or> \<not> isCertFile name then (b, errs)
        else case upload s env d name b of
               (b', Some err) \<Rightarrow> (b', errs @ [err])
             | (b', None) \<Rightarrow> (b', errs))"

text \<open>\<^verbatim>\<open>os.ReadDir\<close> lists the entries in the order of their names.\<close>

definition syncAll :: "Syncer \<Rightarrow> cert_env \<Rightarrow> dir \<Rightarrow> bucket \<Rightarrow> bucket \<times> string list" where
  "syncAll s env d b =
     (case ce_readDir env of
        Some err \<Rightarrow> (b, [''certsync: read dir: '' @ err])
      | None \<Rightarrow> fold (sync_entry s env d) (sort (map fst d)) (b, []))"

definition Watch :: "Syncer \<Rightarrow> string option \<Rightarrow> string option \<Rightarrow> Syncer \<times> string option" where
  "Watch s newWatcher add =
     (if sy_watching s then (s, Some ''certsync: Watch already called'')
      else case newWatcher of
             Some err \<Rightarrow> (s, Some (''certsync: watcher: '' @ err))
           | None \<Rightarrow>
               (case add of
                  Some err \<Rightarrow> (s, Some (''certsync: watch '' @ sy_dir s @ '': '' @ err))
                | None \<Rightarrow> (s\<lparr>sy_watching := True\<rparr>, None)))"

text \<open>What the select of \<^verbatim>\<open>Run\<close> receives, with what the file system and S3 answer if it sweeps; and
  what another process does to the directory in between. An \<open>FsEvent\<close> says whether its operation is
  one of create, write and rename, and gives the path. \<open>TimerFired\<close> says whether the context
  is cancelled by then; a timer fires only if it is armed.\<close>

datatype sync_event =
    DirChanged dir
  | FsEvent bool string
  | WatchErr string
  | TimerFired bool cert_env
  | CtxDone cert_env
  | Closed

record run_state =
  ru_dir :: dir
  ru_bucket :: bucket
  ru_pending :: bool
  ru_armed :: bool
  ru_done :: bool

definition run_event :: "Syncer \<Rightarrow> sync_event \<Rightarrow> run_state \<Rightarrow> run_state" where
  "run_event s e r =
     (if ru_done r then (case e of DirChanged d \<Rightarrow> r\<lparr>ru_dir := d\<rparr> | _ \<Rightarrow> r)
      else case e of
        DirChanged d \<Rightarrow> r\<lparr>ru_dir := d\<rparr>
      | CtxDone env \<Rightarrow> r\<lparr>ru_bucket := fst (syncAll s env (ru_dir r) (ru_bucket r)), ru_done := True\<rparr>
      | Closed \<Rightarrow> r\<lparr>ru_done := True\<rparr>
      | FsEvent writes name \<Rightarrow>
          if writes \<and> isCertFile (path_base name) then r\<lparr>ru_armed := True, ru_pending := True\<rparr> else r
      | WatchErr err \<Rightarrow> r
      | TimerFired cancelled env \<Rightarrow>
          if \<not> ru_armed r then r
          else if \<not> ru_pending r \<or> cancelled then r\<lparr>ru_armed := False\<rparr>
          else r\<lparr>ru_armed := False, ru_pending := False,
                 ru_bucket := fst (syncAll s env (ru_dir r) (ru_bucket r))\<rparr>)"

definition certsync_Run :: "Syncer \<Rightarrow> sync_event list \<Rightarrow> dir \<times> bucket \<Rightarrow> string + run_state" where
  "certsync_Run s events db =
     (if \<not> sy_watching s then Inl ''certsync: Run called before Watch''
      else Inr (fold (run_event s) events
                  \<lparr>ru_dir = fst db, ru_bucket = snd db, ru_pending = False, ru_armed = False, ru_done = False\<rparr>))"

section \<open>Lemmas: events\<close>

text \<open>The name of a file is the base of its path: an event on a file of the directory is recognised by
  the name under which the file is swept.\<close>

lemma file_path_base:
  assumes "n \<noteq> []" "n \<noteq> ''.''" "n \<noteq> ''..''" "CHR ''/'' \<notin> set n"
  shows "path_base (file_path s n) = n"
proof -
  have joined: "path_base (join ''/'' (es @ [n])) = n" "path_base (CHR ''/'' # join ''/'' (es @ [n])) = n"
    "join ''/'' (es @ [n]) \<noteq> []" for es
    using path_base_plain [OF assms(1,4)] path_base_plain(2) [OF assms(1,4), of "CHR ''/'' # join ''/'' es"]
      path_base_plain(2) [OF assms(1,4), of "[]"] assms(1)
    by (cases "es = []"; simp add: join_snoc)+
  have clean: "path_base (path_clean (d @ CHR ''/'' # n)) = n" for d
    by (simp add: path_clean_def Let_def split_on_snoc [OF assms(4)] clean_elements_snoc [OF assms(1-3)] joined)
  have "path_base (path_clean n) = n"
    using joined [of "[]"] assms by (simp add: path_clean_def Let_def split_on_no_sep has_prefix_def)
  with clean show ?thesis using assms(1) by (simp add: file_path_def path_join_def)
qed

lemma cert_path_base: "isCertFile n \<Longrightarrow> CHR ''/'' \<notin> set n \<Longrightarrow> path_base (file_path s n) = n"
  by (rule file_path_base) (auto simp: isCertFile_def has_suffix_def has_prefix_def)

lemma cert_event_pending:
  assumes "isCertFile n" "CHR ''/'' \<notin> set n" "\<not> ru_done r"
  shows "ru_pending (run_event s (FsEvent True (file_path s n)) r)"
  using assms by (simp add: run_event_def cert_path_base)

section \<open>Lemmas: uploading\<close>

text \<open>The content that a sweep puts for a name, if it does.\<close>

definition uploads :: "Syncer \<Rightarrow> cert_env \<Rightarrow> dir \<Rightarrow> string \<Rightarrow> string option" where
  "uploads s env d name =
     (if isCertFile name \<and> ce_read env name = None \<and> ce_put env (object_key s name) = None
      then (case map_of d name of Some (Some data) \<Rightarrow> Some data | _ \<Rightarrow> None) else None)"

lemma sync_entry_bucket:
  "map_of (fst (sync_entry s env d name (b, errs))) =
     (case uploads s env d name of None \<Rightarrow> map_of b | Some data \<Rightarrow> (map_of b)(object_key s name \<mapsto> data))"
  by (auto simp: sync_entry_def upload_def uploads_def split: option.splits)

lemma object_key_inject [simp]: "object_key s n = object_key s n' \<longleftrightarrow> n = n'"
  by (simp add: object_key_def)

lemma fold_sync_entry:
  "map_of (fst (fold (sync_entry s env d) names (b, errs))) (object_key s n) =
     (if n \<in> set names \<and> uploads s env d n \<noteq> None then uploads s env d n else map_of b (object_key s n))"
proof (induction names arbitrary: b errs)
  case Nil
  then show ?case by simp
next
  case (Cons m names)
  obtain b' errs' where st: "sync_entry s env d m (b, errs) = (b', errs')" by fastforce
  with sync_entry_bucket [of s env d m b errs] have b':
    "map_of b' = (case uploads s env d m of None \<Rightarrow> map_of b | Some data \<Rightarrow> (map_of b)(object_key s m \<mapsto> data))"
    by simp
  show ?case using Cons.IH [of b' errs'] by (auto simp: st b' split: option.splits)
qed

lemma fold_sync_other:
  "(\<And>n. isCertFile n \<Longrightarrow> k \<noteq> object_key s n) \<Longrightarrow>
     map_of (fst (fold (sync_entry s env d) names (b, errs))) k = map_of b k"
proof (induction names arbitrary: b errs)
  case Nil
  then show ?case by simp
next
  case (Cons m names)
  obtain b' errs' where st: "sync_entry s env d m (b, errs) = (b', errs')" by fastforce
  with sync_entry_bucket [of s env d m b errs] Cons.prems [of m] have "map_of b' k = map_of b k"
    by (auto simp: uploads_def split: option.splits if_splits)
  with Cons.IH [of b' errs'] Cons.prems st show ?case by simp
qed

lemma syncAll_key:
  "map_of (fst (syncAll s env d b)) (object_key s n) =
     (if ce_readDir env = None \<and> uploads s env d n \<noteq> None then uploads s env d n
      else map_of b (object_key s n))"
proof -
  have "n \<in> fst ` set d" if "uploads s env d n \<noteq> None"
    using that by (auto simp: uploads_def dom_map_of_conv_image_fst [symmetric] split: if_splits option.splits)
  then show ?thesis by (auto simp: syncAll_def fold_sync_entry split: option.split)
qed

text \<open>A sweep writes only keys of certificate files and deletes nothing.\<close>

definition extends :: "Syncer \<Rightarrow> bucket \<Rightarrow> bucket \<Rightarrow> bool" where
  "extends s b b' \<longleftrightarrow>
     dom (map_of b) \<subseteq> dom (map_of b') \<and>
     {k. map_of b' k \<noteq> map_of b k} \<subseteq> object_key s ` {n. isCertFile n}"

lemma extends_refl [simp]: "extends s b b"
  by (simp add: extends_def)

lemma extends_trans: "extends s b b' \<Longrightarrow> extends s b' b'' \<Longrightarrow> extends s b b''"
proof -
  assume *: "extends s b b'" "extends s b' b''"
  have "{k. map_of b'' k \<noteq> map_of b k} \<subseteq> {k. map_of b'' k \<noteq> map_of b' k} \<union> {k. map_of b' k \<noteq> map_of b k}" by auto
  with * show "extends s b b''" unfolding extends_def by blast
qed

lemma extends_syncAll: "extends s b (fst (syncAll s env d b))"
proof -
  have other: "map_of (fst (syncAll s env d b)) k = map_of b k" if "k \<notin> object_key s ` {n. isCertFile n}" for k
  proof -
    from that have "k \<noteq> object_key s n" if "isCertFile n" for n using that by blast
    then show ?thesis by (simp add: syncAll_def fold_sync_other split: option.split)
  qed
  moreover have "map_of (fst (syncAll s env d b)) k \<noteq> None" if "map_of b k = Some v" for k v
    using that other [of k] by (cases "k \<in> object_key s ` {n. isCertFile n}") (auto simp: syncAll_key)
  ultimately show ?thesis unfolding extends_def by (auto simp: dom_def)
qed

lemma extends_run_event: "extends s (ru_bucket r) (ru_bucket (run_event s e r))"
  by (cases e) (simp_all add: run_event_def extends_syncAll)

lemma extends_run: "extends s (ru_bucket r) (ru_bucket (fold (run_event s) es r))"
proof (induction es arbitrary: r)
  case Nil
  then show ?case by simp
next
  case (Cons e es)
  then show ?case using extends_trans [OF extends_run_event [of s r e]] by simp
qed

section \<open>Lemmas: restoring\<close>

inductive object_pages ::
  "(string option \<Rightarrow> string + string list \<times> bool \<times> string option) \<Rightarrow> string option \<Rightarrow> string list \<Rightarrow> bool"
  for fetch where
  last_page: "fetch tok = Inr (keys, False, t) \<Longrightarrow> object_pages fetch tok keys"
| more_pages: "fetch tok = Inr (keys, True, t) \<Longrightarrow> object_pages fetch t rest \<Longrightarrow> object_pages fetch tok (keys @ rest)"

lemma hydrate_all_pages:
  "object_pages (ce_list env) tok keys \<Longrightarrow>
     hydrate_pages s env tok st = Some (fold (hydrate_object s env) keys st, None)"
proof (induction arbitrary: st rule: object_pages.induct)
  case (last_page tok keys t)
  then show ?case by (subst hydrate_pages.simps) (simp add: Let_def)
next
  case (more_pages tok keys t rest)
  then show ?case by (subst hydrate_pages.simps) (simp add: Let_def)
qed

lemma cert_not_tmp: "isCertFile n \<Longrightarrow> n \<noteq> m @ ''.tmp''"
proof
  assume "isCertFile n" "n = m @ ''.tmp''"
  then have "take 1 (rev n) \<noteq> ''p''" by (auto simp: isCertFile_def has_suffix_def has_prefix_def)
  with \<open>n = m @ ''.tmp''\<close> show False by simp
qed

text \<open>What downloading an object does to the entry of a certificate file.\<close>

lemma download_other:
  "isCertFile n \<Longrightarrow> n \<noteq> name \<Longrightarrow> map_of (fst (download s env k name d)) n = map_of d n"
  using cert_not_tmp [of n name] by (auto simp: download_def Let_def split: sum.split option.split prod.split)

lemma download_same:
  "ce_get env k = Inr (Inr data) \<Longrightarrow> ce_write env (name @ ''.tmp'') = None \<Longrightarrow> ce_rename env (name @ ''.tmp'') = None \<Longrightarrow>
     map_of (fst (download s env k name d)) name = Some (Some data)"
  by (simp add: download_def Let_def)

lemma hydrate_object_dir:
  "fst (hydrate_object s env k (d, c, errs)) =
     (let name = trim_prefix k (sy_prefix s) in
      if name = [] \<or> contains name ''/'' \<or> \<not> isCertFile name then d else fst (download s env k name d))"
  by (simp add: hydrate_object_def Let_def split: prod.split option.split)

text \<open>A certificate file is restored if an object of its name is listed, can be fetched with that
  content and be written, whatever happens to the others.\<close>

lemma hydrate_keeps:
  assumes "isCertFile n" and "map_of d n = Some (Some data)"
    and "ce_get env (object_key s n) = Inr (Inr data)"
    and "ce_write env (n @ ''.tmp'') = None" and "ce_rename env (n @ ''.tmp'') = None"
    and "\<forall>k\<in>set keys. has_prefix k (sy_prefix s)"
  shows "map_of (fst (fold (hydrate_object s env) keys (d, c, errs))) n = Some (Some data)"
  using assms(2,6)
proof (induction keys arbitrary: d c errs)
  case Nil
  then show ?case by simp
next
  case (Cons k keys)
  let ?name = "trim_prefix k (sy_prefix s)"
  obtain d' c' errs' where st: "hydrate_object s env k (d, c, errs) = (d', c', errs')" by (metis prod_cases3)
  from Cons.prems(2) have k: "k = object_key s ?name"
    by (auto simp: object_key_def trim_prefix_def has_prefix_iff)
  have "map_of (fst (download s env k ?name d)) n = Some (Some data)"
  proof (cases "?name = n")
    case True
    with k assms(3-5) show ?thesis by (metis download_same)
  next
    case False
    with download_other [OF assms(1), of ?name s env k d] Cons.prems(1) show ?thesis by simp
  qed
  with hydrate_object_dir [of s env k d c errs] st Cons.prems(1) have "map_of d' n = Some (Some data)"
    by (simp add: Let_def split: if_splits)
  with Cons.IH [of d' c' errs'] Cons.prems(2) st show ?case by simp
qed

lemma hydrate_restores:
  assumes "isCertFile n" and "n \<noteq> []" and "\<not> contains n ''/''" and "object_key s n \<in> set keys"
    and "ce_get env (object_key s n) = Inr (Inr data)"
    and "ce_write env (n @ ''.tmp'') = None" and "ce_rename env (n @ ''.tmp'') = None"
    and "\<forall>k\<in>set keys. has_prefix k (sy_prefix s)"
  shows "map_of (fst (fold (hydrate_object s env) keys st)) n = Some (Some data)"
proof -
  obtain ks ks' where keys: "keys = ks @ object_key s n # ks'" using assms(4) by (meson split_list)
  obtain d c errs where st: "fold (hydrate_object s env) ks st = (d, c, errs)" by (metis prod_cases3)
  obtain d' c' errs' where st': "hydrate_object s env (object_key s n) (d, c, errs) = (d', c', errs')"
    by (metis prod_cases3)
  have "trim_prefix (object_key s n) (sy_prefix s) = n"
    by (simp add: trim_prefix_def object_key_def has_prefix_def)
  with hydrate_object_dir [of s env "object_key s n" d c errs] st' assms(1-3) download_same [OF assms(5-7), of s d]
  have "map_of d' n = Some (Some data)" by simp
  then have "map_of (fst (fold (hydrate_object s env) ks' (d', c', errs'))) n = Some (Some data)"
    by (rule hydrate_keeps [OF assms(1) _ assms(5-7)]) (use assms(8) keys in auto)
  then show ?thesis by (simp add: keys st st')
qed

section \<open>Properties\<close>

text \<open>C25: certificates survive a restart. If a sweep could read and put a certificate file, and S3
  then lists the bucket to the end and returns its content, and the file can be written, restoring
  into any directory ends and leaves the file as it was: an error with another file or object does
  not matter.\<close>

theorem certs_survive_restart:
  assumes "isCertFile name" and "\<not> contains name ''/''" and "map_of d name = Some (Some data)"
    and "ce_readDir env = None" and "ce_read env name = None" and "ce_put env (object_key s name) = None"
    and "b' = fst (syncAll s env d b)"
    and "object_pages (ce_list env') None keys" and "set keys = {k. map_of b' k \<noteq> None \<and> has_prefix k (sy_prefix s)}"
    and "\<And>v. map_of b' (object_key s name) = Some v \<Longrightarrow> ce_get env' (object_key s name) = Inr (Inr v)"
    and "ce_write env' (name @ ''.tmp'') = None" and "ce_rename env' (name @ ''.tmp'') = None"
  shows "\<exists>d' restored errs. Hydrate s env' d0 = Some (d', restored, errs) \<and> map_of d' name = Some (Some data)"
proof -
  from assms(1) have "name \<noteq> []" by (auto simp: isCertFile_def has_suffix_def has_prefix_def)
  have b': "map_of b' (object_key s name) = Some data"
    using assms(1,3-7) by (simp add: syncAll_key uploads_def)
  then have "object_key s name \<in> set keys" by (simp add: assms(9) object_key_def has_prefix_def)
  moreover have "\<forall>k\<in>set keys. has_prefix k (sy_prefix s)" by (simp add: assms(9))
  ultimately have "map_of (fst (fold (hydrate_object s env') keys (d0, 0, []))) name = Some (Some data)"
    using hydrate_restores [OF assms(1) \<open>name \<noteq> []\<close> assms(2) _ assms(10) [OF b'] assms(11,12)] by blast
  moreover have "hydrate_pages s env' None (d0, 0, []) = Some (fold (hydrate_object s env') keys (d0, 0, []), None)"
    by (rule hydrate_all_pages) (rule assms(8))
  ultimately show ?thesis
    by (cases "fold (hydrate_object s env') keys (d0, 0, [])") (auto simp: Hydrate_def)
qed

definition demo_syncer :: Syncer where
  "demo_syncer = \<lparr>sy_dir = ''/state/certs'', sy_bucket = ''bk'', sy_prefix = ''c/'', sy_watching = True\<rparr>"

text \<open>S3 over a bucket of one object that is listed on the second page; putting \<^verbatim>\<open>c/b.key\<close> fails.\<close>

definition demo_cert_env :: cert_env where
  "demo_cert_env =
     \<lparr>ce_list = (\<lambda>tok. if tok = None then Inr ([], True, Some ''t'') else Inr ([''c/a.crt''], False, None)),
      ce_get = (\<lambda>k. if k = ''c/a.crt'' then Inr (Inr ''A'') else Inl ''no such key''),
      ce_write = (\<lambda>_. None), ce_rename = (\<lambda>_. None), ce_readDir = None, ce_read = (\<lambda>_. None),
      ce_put = (\<lambda>k. if k = ''c/b.key'' then Some ''denied'' else None)\<rparr>"

definition demo_dir :: dir where
  "demo_dir = [(''a.crt'', Some ''A''), (''b.key'', Some ''B''), (''sub'', None)]"

theorem certs_survive_restart_witness:
  "\<exists>d' restored errs. Hydrate demo_syncer demo_cert_env [] = Some (d', restored, errs) \<and>
     map_of d' ''a.crt'' = Some (Some ''A'')"
proof -
  have bucket: "fst (syncAll demo_syncer demo_cert_env demo_dir []) = [(''c/a.crt'', ''A'')]" by code_simp
  have "object_pages (ce_list demo_cert_env) None ([] @ [''c/a.crt''])"
    by (rule more_pages, simp add: demo_cert_env_def, rule last_page, simp add: demo_cert_env_def)
  then have pages: "object_pages (ce_list demo_cert_env) None [''c/a.crt'']" by simp
  have "isCertFile ''a.crt''" "\<not> contains ''a.crt'' ''/''" "map_of demo_dir ''a.crt'' = Some (Some ''A'')"
    "object_key demo_syncer ''a.crt'' = ''c/a.crt''" "has_prefix ''c/a.crt'' (sy_prefix demo_syncer)"
    by code_simp+
  note facts = this
  have env: "ce_readDir demo_cert_env = None" "ce_read demo_cert_env n = None" "ce_put demo_cert_env ''c/a.crt'' = None"
    "ce_get demo_cert_env ''c/a.crt'' = Inr (Inr ''A'')" "ce_write demo_cert_env n = None" "ce_rename demo_cert_env n = None" for n
    by (simp_all add: demo_cert_env_def)
  have listed: "set [''c/a.crt''] =
      {k. map_of (fst (syncAll demo_syncer demo_cert_env demo_dir [])) k \<noteq> None \<and> has_prefix k (sy_prefix demo_syncer)}"
    using facts(5) by (auto simp: bucket)
  show ?thesis
    by (rule certs_survive_restart [OF facts(1-3) env(1) env(2) _ refl pages listed _ env(5,6)])
      (simp_all only: facts env, simp add: bucket)
qed

text \<open>C26: whatever happens while the mirror runs, it writes objects of certificate files only and
  deletes nothing; and when it is stopped by its context every certificate file that can be read and
  put is in the bucket with the content it then has, also one written after the last sweep.\<close>

theorem mirror_final_sweep:
  assumes "certsync_Run s (es @ [CtxDone env]) (d, b) = Inr r"
    and "certsync_Run s es (d, b) = Inr r'" and "\<not> ru_done r'"
    and "ce_readDir env = None"
  shows "extends s b (ru_bucket r) \<and> ru_done r \<and>
         (\<forall>name data. isCertFile name \<and> map_of (ru_dir r) name = Some (Some data) \<and>
              ce_read env name = None \<and> ce_put env (object_key s name) = None \<longrightarrow>
            map_of (ru_bucket r) (object_key s name) = Some data)"
proof -
  from assms(1,2) have r: "r = run_event s (CtxDone env) r'" by (auto simp: certsync_Run_def split: if_splits)
  from assms(2) have "extends s b (ru_bucket r')"
    using extends_run [of s "\<lparr>ru_dir = d, ru_bucket = b, ru_pending = False, ru_armed = False, ru_done = False\<rparr>" es]
    by (auto simp: certsync_Run_def split: if_splits)
  with extends_run_event [of s r' "CtxDone env"] r have "extends s b (ru_bucket r)"
    using extends_trans by blast
  moreover have "ru_bucket r = fst (syncAll s env (ru_dir r') (ru_bucket r'))" "ru_dir r = ru_dir r'" "ru_done r"
    using r assms(3) by (simp_all add: run_event_def)
  ultimately show ?thesis using assms(4) by (simp add: syncAll_key uploads_def)
qed

theorem mirror_final_sweep_witness:
  "map_of (ru_bucket (fold (run_event demo_syncer) [FsEvent True ''a.crt'', DirChanged demo_dir, CtxDone demo_cert_env]
      \<lparr>ru_dir = [], ru_bucket = [], ru_pending = False, ru_armed = False, ru_done = False\<rparr>)) ''c/a.crt'' = Some ''A''"
proof -
  let ?init = "\<lparr>ru_dir = [], ru_bucket = [], ru_pending = False, ru_armed = False, ru_done = False\<rparr>"
  let ?es = "[FsEvent True ''a.crt'', DirChanged demo_dir]"
  let ?r = "fold (run_event demo_syncer) (?es @ [CtxDone demo_cert_env]) ?init"
  have run: "certsync_Run demo_syncer es ([], []) = Inr (fold (run_event demo_syncer) es ?init)" for es
    by (simp add: certsync_Run_def demo_syncer_def)
  have facts: "ru_dir ?r = demo_dir" "isCertFile ''a.crt''" "map_of demo_dir ''a.crt'' = Some (Some ''A'')"
    "object_key demo_syncer ''a.crt'' = ''c/a.crt''" "ce_readDir demo_cert_env = None"
    "ce_read demo_cert_env ''a.crt'' = None" "ce_put demo_cert_env ''c/a.crt'' = None"
    "\<not> ru_done (fold (run_event demo_syncer) ?es ?init)"
    by code_simp+
  from mirror_final_sweep [OF run run facts(8,5)] facts(1-4,6,7)
  have "map_of (ru_bucket ?r) ''c/a.crt'' = Some ''A''" by metis
  then show ?thesis by simp
qed

end
