(* ===== verification/Startup.thy ===== *)
theory Startup
  imports Lambda_Watcher Accounts Certsync
begin

text \<open>
  The parts of the program's start (\<^verbatim>\<open>main.go\<close>): reading the environment, AWS configuration and reader
  identities, building the ECS and Lambda readers, starting the discovery modes and fanning their
  results in, and setting up the certificate mirror. The environment and AWS are arguments. What building a reader relies on of its kind is the locale \<open>reader_builder\<close>,
  interpreted for both kinds.
\<close>

section \<open>Reading the environment\<close>

text \<open>\<open>env\<close> is \<^verbatim>\<open>os.Getenv\<close>: the empty string for a variable that is not set.\<close>

definition envDefault :: "(string \<Rightarrow> string) \<Rightarrow> string \<Rightarrow> string \<Rightarrow> string" where
  "envDefault env key dflt = (if env key \<noteq> [] then env key else dflt)"

definition splitTags :: "string \<Rightarrow> string list" where
  "splitTags s =
     (if s = [] then [] else filter (\<lambda>p. p \<noteq> []) (map trim_space (split_on (CHR '','') s)))"

datatype auth_error = BothTokenAndAudience | TagsRequiredFederation | TagsRequiredOAuth | NoAuthentication

definition validateAuth :: "(string \<Rightarrow> string) \<Rightarrow> auth_error option" where
  "validateAuth env =
     (let authKey = env ''TS_AUTHKEY''; clientID = env ''TS_CLIENT_ID''; clientSecret = env ''TS_CLIENT_SECRET'';
          idToken = env ''TS_ID_TOKEN''; audience = env ''TS_AUDIENCE''; tags = env ''TSSERVE_TAGS''
      in if clientID \<noteq> [] \<and> (idToken \<noteq> [] \<or> audience \<noteq> []) then
           (if idToken \<noteq> [] \<and> audience \<noteq> [] then Some BothTokenAndAudience
            else if tags = [] then Some TagsRequiredFederation
            else None)
         else if clientID \<noteq> [] \<and> clientSecret \<noteq> [] then
           (if tags = [] then Some TagsRequiredOAuth else None)
         else if authKey \<noteq> [] then None
         else Some NoAuthentication)"

datatype mode_error = EmptyEntry string | UnknownMode string string | RepeatedMode string string

fun modes_from :: "string \<Rightarrow> string list \<Rightarrow> string list \<Rightarrow> mode_error + string list" where
  "modes_from raw modes [] = Inr modes"
| "modes_from raw modes (e # es) =
     (let entry = trim_space e; mode = to_lower entry in
      if mode = [] then Inl (EmptyEntry raw)
      else if mode \<noteq> ''docker'' \<and> mode \<noteq> ''ecs'' \<and> mode \<noteq> ''lambda'' then Inl (UnknownMode entry raw)
      else if mode \<in> set modes then Inl (RepeatedMode entry raw)
      else modes_from raw (modes @ [mode]) es)"

definition parseDiscoveryModes :: "string \<Rightarrow> mode_error + string list" where
  "parseDiscoveryModes raw = modes_from raw [] (split_on (CHR '','') raw)"

datatype interval_error = BadDuration string string string | NotPositive string string

text \<open>\<open>parseDuration\<close> is \<^verbatim>\<open>time.ParseDuration\<close>.\<close>

definition parseInterval ::
  "(string \<Rightarrow> string + nanos) \<Rightarrow> (string \<Rightarrow> string) \<Rightarrow> string \<Rightarrow> interval_error + nanos" where
  "parseInterval parseDuration env name =
     (let s = env name in
      if s = [] then Inr 0
      else case parseDuration s of
             Inl err \<Rightarrow> Inl (BadDuration name s err)
           | Inr d \<Rightarrow> if d \<le> 0 then Inl (NotPositive name s) else Inr d)"

datatype level = LevelDebug | LevelInfo | LevelWarn | LevelError

definition newLogger :: "string \<Rightarrow> level" where
  "newLogger lvl =
     (let l = to_lower lvl in
      if l = ''debug'' then LevelDebug
      else if l = ''warn'' \<or> l = ''warning'' then LevelWarn
      else if l = ''error'' then LevelError
      else LevelInfo)"

text \<open>\<^verbatim>\<open>tsnetLogf\<close>: the level and the text under which a formatted line of the tailnet node is logged.\<close>

definition tsnetLogf :: "string \<Rightarrow> level \<times> string" where
  "tsnetLogf line = (LevelDebug, rev (dropWhile (\<lambda>c. c = CHR 0x0A) (rev line)))"

section \<open>AWS configuration and identity\<close>

datatype load_option =
    RetryAdaptive | MaxAttempts nat | WithRegion string | WithProfile string | WithConfigFiles "string list"
  | StaticCredentials string string

definition load_options :: "'z WatcherSpec_scheme \<Rightarrow> load_option list" where
  "load_options spec =
     [RetryAdaptive, MaxAttempts 5] @
     (if ws_region spec \<noteq> [] then [WithRegion (ws_region spec)] else []) @
     (if ws_profile spec \<noteq> [] then [WithProfile (ws_profile spec)] else []) @
     (if ws_configFile spec \<noteq> [] then [WithConfigFiles [ws_configFile spec]] else []) @
     (if ws_accessKeyID spec \<noteq> [] \<and> ws_secretAccessKey spec \<noteq> []
      then [StaticCredentials (ws_accessKeyID spec) (ws_secretAccessKey spec)] else [])"

text \<open>\<open>load\<close> is \<^verbatim>\<open>LoadDefaultConfig\<close>, \<open>sts\<close> is \<^verbatim>\<open>GetCallerIdentity\<close> with a configuration.\<close>

definition awsConfigForSpec :: "(load_option list \<Rightarrow> string + 'c) \<Rightarrow> 'z WatcherSpec_scheme \<Rightarrow> string + 'c" where
  "awsConfigForSpec load spec =
     (case load (load_options spec) of Inl err \<Rightarrow> Inl (''aws config: '' @ err) | Inr cfg \<Rightarrow> Inr cfg)"

definition stsAccountResolver :: "('c \<Rightarrow> string + string option) \<Rightarrow> 'c \<Rightarrow> string + string" where
  "stsAccountResolver sts cfg =
     (case sts cfg of
        Inl err \<Rightarrow> Inl err
      | Inr account \<Rightarrow> if ToString account = [] then Inl ''STS returned an empty account id'' else Inr (ToString account))"

text \<open>The identities claimed so far; the flag is false for one already claimed.\<close>

definition claim :: "string \<Rightarrow> string list \<Rightarrow> string list \<times> bool" where
  "claim ident taken = (if ident \<in> set taken then (taken, False) else (ident # taken, True))"

definition pollIntervalOrDefault :: "nanos \<Rightarrow> nanos" where
  "pollIntervalOrDefault d = (if d \<le> 0 then 10 * second else d)"

section \<open>Building the readers\<close>

text \<open>A watcher that is ready to run: its pacing state, its handle in the readers' registry and the
  origin its registrations carry.\<close>

record built =
  bt_poller :: poller
  bt_reader :: Reader
  bt_origin :: Origin

text \<open>In what \<^verbatim>\<open>buildECSWatchers\<close> and \<^verbatim>\<open>buildLambdaWatchers\<close> differ: the mode, the interval the readers'
  table shows, and the constructor, which for ECS gets the cluster.\<close>

record reader_kind =
  rk_mode :: string
  rk_shown :: "nanos \<Rightarrow> nanos"
  rk_new :: "string \<Rightarrow> nanos \<Rightarrow> nanos \<Rightarrow> string \<Rightarrow> bool \<Rightarrow> string + poller"

definition ecs_kind :: reader_kind where
  "ecs_kind = \<lparr>rk_mode = ''ecs'', rk_shown = pollIntervalOrDefault, rk_new = ecs_NewWatcher\<rparr>"

definition lambda_kind :: reader_kind where
  "lambda_kind =
     \<lparr>rk_mode = ''lambda'', rk_shown = (\<lambda>d. if d = 0 then 30 * second else d),
      rk_new = (\<lambda>_ poll retry account hasResolver. Inr (lambda_NewWatcher poll retry account hasResolver))\<rparr>"

definition display_name :: "bool \<Rightarrow> nat \<Rightarrow> 'z WatcherSpec_scheme \<Rightarrow> string" where
  "display_name deriveNames i spec =
     (if ws_name spec \<noteq> [] then ws_name spec
      else if deriveNames then ''accounts['' @ show_nat i @ '']'' else ''default'')"

definition initial_status :: "reader_kind \<Rightarrow> string \<Rightarrow> string \<Rightarrow> 'z WatcherSpec_scheme \<Rightarrow> ReaderStatus" where
  "initial_status kind display cluster spec =
     \<lparr>rs_mode = rk_mode kind, rs_name = display, rs_account = [], rs_cluster = cluster, rs_region = ws_region spec,
      rs_pollInterval = rk_shown kind (ws_pollInterval spec), rs_lastPollStart = None, rs_lastPollOK = None,
      rs_lastError = [], rs_polls = 0, rs_healthy = False\<rparr>"

text \<open>\<^verbatim>\<open>onResolved\<close>: what becomes known of a reader with its account, at the start or in a later cycle: the
  registry, the claims and the origin of its registrations.\<close>

definition onResolved :: "Reader \<Rightarrow> string \<Rightarrow> Registry \<times> string list \<times> Origin \<Rightarrow> Registry \<times> string list \<times> Origin" where
  "onResolved h account x =
     (case x of (reg, taken, origin) \<Rightarrow>
        (SetAccount h account reg, fst (claim account taken), origin\<lparr>o_account := account\<rparr>))"

text \<open>The identity of a reader whose configuration was loaded: the registry, the claims and the origin,
  which has the account name the watcher is made with, and whether the watcher keeps resolving.\<close>

definition reader_identity ::
  "string + string \<Rightarrow> bool \<Rightarrow> string \<Rightarrow> Reader \<Rightarrow> Registry \<times> string list \<times> Origin
     \<Rightarrow> (Registry \<times> string list \<times> Origin) \<times> bool" where
  "reader_identity answer deriveNames name h x =
     (case x of (reg, taken, origin) \<Rightarrow>
        if name = [] \<and> deriveNames then
          (case answer of
             Inl err \<Rightarrow> ((NoteError h (Some (''resolve account identity: '' @ err)) reg, taken, origin), True)
           | Inr account \<Rightarrow> (onResolved h account (reg, taken, origin), False))
        else if name \<noteq> [] then ((reg, fst (claim name taken), origin), False)
        else ((reg, taken, origin), False))"

definition build_reader ::
  "reader_kind \<Rightarrow> (load_option list \<Rightarrow> string + 'c) \<Rightarrow> ('c \<Rightarrow> string + string option) \<Rightarrow> bool \<Rightarrow> nanos
     \<Rightarrow> nat \<times> string \<times> 'z WatcherSpec_scheme \<Rightarrow> (Registry \<times> string list) \<times> built list
     \<Rightarrow> (Registry \<times> string list) \<times> built list" where
  "build_reader kind load sts deriveNames retry x st =
     (case (x, st) of ((i, cluster, spec), ((reg, taken), watchers)) \<Rightarrow>
        let display = display_name deriveNames i spec;
            origin = \<lparr>o_account = display, o_cluster = cluster, o_region = ws_region spec\<rparr>
        in
        (case registry_Add (initial_status kind display cluster spec) reg of
           (reg1, h) \<Rightarrow>
             (case awsConfigForSpec load spec of
                Inl err \<Rightarrow> ((NoteError h (Some err) reg1, taken), watchers)
              | Inr cfg \<Rightarrow>
                  (case reader_identity (stsAccountResolver sts cfg) deriveNames (ws_name spec) h (reg1, taken, origin) of
                     ((reg2, taken2, origin2), unresolved) \<Rightarrow>
                       (case rk_new kind cluster (ws_pollInterval spec) retry (o_account origin2) unresolved of
                          Inl err \<Rightarrow> ((NoteError h (Some err) reg2, taken2), watchers)
                        | Inr p \<Rightarrow>
                            ((reg2, taken2),
                             watchers @ [\<lparr>bt_poller = p, bt_reader = h, bt_origin = origin2\<rparr>]))))))"

definition buildECSWatchers ::
  "(load_option list \<Rightarrow> string + 'c) \<Rightarrow> ('c \<Rightarrow> string + string option) \<Rightarrow> EcsWatcherSpec list \<Rightarrow> bool \<Rightarrow> nanos
     \<Rightarrow> Registry \<Rightarrow> Registry \<times> built list" where
  "buildECSWatchers load sts specs deriveNames retry reg =
     (case fold (build_reader ecs_kind load sts deriveNames retry)
             (map (\<lambda>(i, spec). (i, ws_cluster spec, spec)) (enumerate 0 specs)) ((reg, []), []) of
        ((reg', _), watchers) \<Rightarrow> (reg', watchers))"

definition buildLambdaWatchers ::
  "(load_option list \<Rightarrow> string + 'c) \<Rightarrow> ('c \<Rightarrow> string + string option) \<Rightarrow> WatcherSpec list \<Rightarrow> bool \<Rightarrow> nanos
     \<Rightarrow> Registry \<Rightarrow> Registry \<times> built list" where
  "buildLambdaWatchers load sts specs deriveNames retry reg =
     (case fold (build_reader lambda_kind load sts deriveNames retry)
             (map (\<lambda>(i, spec). (i, [], spec)) (enumerate 0 specs)) ((reg, []), []) of
        ((reg', _), watchers) \<Rightarrow> (reg', watchers))"

section \<open>Starting the modes\<close>

datatype start_error =
    BadInterval interval_error | BadAccounts string | BadPlan plan_error | DockerFailed string | UnknownDiscovery string

definition ecs_defaults :: "(string \<Rightarrow> string) \<Rightarrow> nanos \<Rightarrow> EcsDefaults" where
  "ecs_defaults env interval =
     \<lparr>df_region = env ''AWS_REGION'', df_profile = env ''TSSERVE_ECS_AWS_PROFILE'',
      df_configFile = env ''TSSERVE_ECS_AWS_CONFIG_FILE'', df_pollInterval = interval,
      df_cluster = env ''TSSERVE_ECS_CLUSTER''\<rparr>"

definition lambda_defaults :: "(string \<Rightarrow> string) \<Rightarrow> nanos \<Rightarrow> Defaults" where
  "lambda_defaults env interval =
     \<lparr>df_region = env ''AWS_REGION'', df_profile = env ''TSSERVE_LAMBDA_AWS_PROFILE'',
      df_configFile = env ''TSSERVE_LAMBDA_AWS_CONFIG_FILE'', df_pollInterval = interval\<rparr>"

text \<open>The ECS and the Lambda branch of \<^verbatim>\<open>startWatcher\<close>: the readers' registry and the watchers to run.
  \<open>unmarshal\<close> decodes the JSON of the accounts.\<close>

definition start_ecs ::
  "(string \<Rightarrow> string) \<Rightarrow> (string \<Rightarrow> string + nanos) \<Rightarrow> (string \<Rightarrow> string + EcsAccount list)
     \<Rightarrow> (load_option list \<Rightarrow> string + 'c) \<Rightarrow> ('c \<Rightarrow> string + string option) \<Rightarrow> Registry
     \<Rightarrow> start_error + Registry \<times> built list" where
  "start_ecs env parseDuration unmarshal load sts reg =
     (case parseInterval parseDuration env ''TSSERVE_ECS_POLL_INTERVAL'' of
        Inl err \<Rightarrow> Inl (BadInterval err)
      | Inr interval \<Rightarrow>
          (case parseInterval parseDuration env ''TSSERVE_ECS_RETRY_INTERVAL'' of
             Inl err \<Rightarrow> Inl (BadInterval err)
           | Inr retry \<Rightarrow>
               (case ParseAccounts unmarshal (env ''TSSERVE_ECS_ACCOUNTS'') of
                  Inl err \<Rightarrow> Inl (BadAccounts err)
                | Inr accounts \<Rightarrow>
                    (case ecs_Plan accounts (ecs_defaults env interval) of
                       Inl err \<Rightarrow> Inl (BadPlan err)
                     | Inr specs \<Rightarrow> Inr (buildECSWatchers load sts specs (length accounts > 0) retry reg)))))"

definition startLambda ::
  "(string \<Rightarrow> string) \<Rightarrow> (string \<Rightarrow> string + nanos) \<Rightarrow> (string \<Rightarrow> string + Account list)
     \<Rightarrow> (load_option list \<Rightarrow> string + 'c) \<Rightarrow> ('c \<Rightarrow> string + string option) \<Rightarrow> Registry
     \<Rightarrow> start_error + Registry \<times> built list" where
  "startLambda env parseDuration unmarshal load sts reg =
     (case parseInterval parseDuration env ''TSSERVE_LAMBDA_POLL_INTERVAL'' of
        Inl err \<Rightarrow> Inl (BadInterval err)
      | Inr interval \<Rightarrow>
          (case parseInterval parseDuration env ''TSSERVE_LAMBDA_RETRY_INTERVAL'' of
             Inl err \<Rightarrow> Inl (BadInterval err)
           | Inr retry \<Rightarrow>
               (case lambda_ParseAccounts unmarshal (env ''TSSERVE_LAMBDA_ACCOUNTS'') of
                  Inl err \<Rightarrow> Inl (BadAccounts err)
                | Inr accounts \<Rightarrow>
                    (case lambda_Plan accounts (lambda_defaults env interval) of
                       Inl err \<Rightarrow> Inl (BadPlan err)
                     | Inr specs \<Rightarrow> Inr (buildLambdaWatchers load sts specs (length accounts > 0) retry reg)))))"

text \<open>\<open>docker\<close> is the error of making the Docker client. A mode without watchers reports nothing.\<close>

datatype mode_watchers = DockerWatcher "string book" | Watchers "built list"

definition startWatcher ::
  "(string \<Rightarrow> string) \<Rightarrow> (string \<Rightarrow> string + nanos) \<Rightarrow> (string \<Rightarrow> string + EcsAccount list) \<Rightarrow> (string \<Rightarrow> string + Account list)
     \<Rightarrow> (load_option list \<Rightarrow> string + 'c) \<Rightarrow> ('c \<Rightarrow> string + string option) \<Rightarrow> string option \<Rightarrow> string \<Rightarrow> Registry
     \<Rightarrow> start_error + Registry \<times> mode_watchers" where
  "startWatcher env parseDuration unmarshalE unmarshalL load sts docker mode reg =
     (if mode = ''docker'' then
        (case docker_NewWatcher docker of Inl err \<Rightarrow> Inl (DockerFailed err) | Inr w \<Rightarrow> Inr (reg, DockerWatcher w))
      else if mode = ''ecs'' then
        map_sum (\<lambda>e. e) (map_prod (\<lambda>r. r) Watchers) (start_ecs env parseDuration unmarshalE load sts reg)
      else if mode = ''lambda'' then
        map_sum (\<lambda>e. e) (map_prod (\<lambda>r. r) Watchers) (startLambda env parseDuration unmarshalL load sts reg)
      else Inl (UnknownDiscovery mode))"

text \<open>\<^verbatim>\<open>runAll\<close>'s coordinator, for \<open>n\<close> results still to come and the results in the order they arrive:
  what it sends. It waits while a result is missing.\<close>

definition genuine :: "(string \<Rightarrow> bool) \<Rightarrow> string option \<Rightarrow> bool" where
  "genuine canceled err = (case err of None \<Rightarrow> False | Some e \<Rightarrow> \<not> canceled e)"

fun runAll :: "(string \<Rightarrow> bool) \<Rightarrow> nat \<Rightarrow> bool \<Rightarrow> string option list \<Rightarrow> string option list" where
  "runAll canceled 0 reported results = (if reported then [] else [None])"
| "runAll canceled (Suc n) reported [] = []"
| "runAll canceled (Suc n) reported (err # results) =
     (if genuine canceled err \<and> \<not> reported then err # runAll canceled n True results
      else runAll canceled n reported results)"

text \<open>\<^verbatim>\<open>startModes\<close>: the modes in order; the first that fails ends it. What has been started by then is
  running, also when a later mode fails.\<close>

fun startModes :: "(string \<Rightarrow> 'r \<Rightarrow> 'e + 'r \<times> 'w) \<Rightarrow> string list \<Rightarrow> 'r \<Rightarrow> 'w list \<times> ('e + 'r)" where
  "startModes start [] r = ([], Inr r)"
| "startModes start (mode # modes) r =
     (case start mode r of
        Inl err \<Rightarrow> ([], Inl err)
      | Inr (r', w) \<Rightarrow> (case startModes start modes r' of (ws, res) \<Rightarrow> (w # ws, res)))"

text \<open>\<^verbatim>\<open>modeResult.Run\<close>: the report of the mode, or the context's error if that comes first.\<close>

definition modeResult_Run :: "string option option \<Rightarrow> string \<Rightarrow> string option" where
  "modeResult_Run report ctxErr = (case report of Some err \<Rightarrow> err | None \<Rightarrow> Some ctxErr)"

datatype terminal = Shutdown | FatalError string | WatchDone "string option" | LocalDone "string option"

definition awaitTerminal :: "(string \<Rightarrow> bool) \<Rightarrow> terminal \<Rightarrow> string option" where
  "awaitTerminal canceled ev =
     (case ev of
        Shutdown \<Rightarrow> None
      | FatalError err \<Rightarrow> Some err
      | WatchDone err \<Rightarrow> if genuine canceled err then err else None
      | LocalDone err \<Rightarrow> if genuine canceled err then map_option (\<lambda>e. ''local server: '' @ e) err else None)"

section \<open>The certificate mirror\<close>

text \<open>\<^verbatim>\<open>setupCertSync\<close>, with the error of loading the S3 configuration from the options, that of making the
  directory, what the file system and S3 answer, and the errors of the file system watch. The result
  is the syncer, if there is a bucket, and the directory; \<open>None\<close>: restoring never ends.\<close>

definition cert_options :: "(string \<Rightarrow> string) \<Rightarrow> load_option list" where
  "cert_options env =
     (let region = envDefault env ''TSSERVE_CERT_S3_REGION'' (env ''AWS_REGION'')
      in [RetryAdaptive, MaxAttempts 5] @ (if region \<noteq> [] then [WithRegion region] else []))"

definition setupCertSync ::
  "(string \<Rightarrow> string) \<Rightarrow> string \<Rightarrow> (load_option list \<Rightarrow> string option) \<Rightarrow> string option \<Rightarrow> cert_env
     \<Rightarrow> string option \<Rightarrow> string option \<Rightarrow> dir \<Rightarrow> (string + Syncer option \<times> dir) option" where
  "setupCertSync env stateDir load mkdir fs newWatcher add d =
     (if env ''TSSERVE_CERT_S3_BUCKET'' = [] then Some (Inr (None, d))
      else case load (cert_options env) of
        Some err \<Rightarrow> Some (Inl (''cert s3 config: '' @ err))
      | None \<Rightarrow>
          (case New (path_join [stateDir, ''certs'']) (env ''TSSERVE_CERT_S3_BUCKET'') (env ''TSSERVE_CERT_S3_PREFIX'') mkdir of
             Inl err \<Rightarrow> Some (Inl err)
           | Inr syncer \<Rightarrow>
               (case Hydrate syncer fs d of
                  None \<Rightarrow> None
                | Some (d', restored, errs) \<Rightarrow>
                    (case Watch syncer newWatcher add of
                       (_, Some err) \<Rightarrow> Some (Inl (''cert s3 watch: '' @ err))
                     | (syncer', None) \<Rightarrow> Some (Inr (Some syncer', d'))))))"

section \<open>Lemmas: the environment\<close>

text \<open>Authentication is accepted exactly in these four cases; a federated login needs tags and one of
  the token and the audience, an OAuth client tags.\<close>

lemma validateAuth_iff:
  "validateAuth env = None \<longleftrightarrow>
     (let federated = env ''TS_CLIENT_ID'' \<noteq> [] \<and> (env ''TS_ID_TOKEN'' \<noteq> [] \<or> env ''TS_AUDIENCE'' \<noteq> []);
          oauth = env ''TS_CLIENT_ID'' \<noteq> [] \<and> env ''TS_CLIENT_SECRET'' \<noteq> []
      in if federated then (env ''TS_ID_TOKEN'' = [] \<or> env ''TS_AUDIENCE'' = []) \<and> env ''TSSERVE_TAGS'' \<noteq> []
         else if oauth then env ''TSSERVE_TAGS'' \<noteq> []
         else env ''TS_AUTHKEY'' \<noteq> [])"
  by (auto simp: validateAuth_def Let_def)

text \<open>Tags that are required may still be none: a value of separators only passes the check.\<close>

lemma blank_tags_accepted:
  "validateAuth ((\<lambda>_. [])(''TS_CLIENT_ID'' := ''id'', ''TS_CLIENT_SECRET'' := ''secret'', ''TSSERVE_TAGS'' := '','')) = None"
  "splitTags '','' = []"
  by (simp add: validateAuth_def) code_simp

definition known_modes :: "string list" where
  "known_modes = [''docker'', ''ecs'', ''lambda'']"

lemma modes_from_valid:
  "modes_from raw modes es = Inr modes' \<Longrightarrow> distinct modes \<Longrightarrow> set modes \<subseteq> set known_modes \<Longrightarrow>
     distinct modes' \<and> set modes' \<subseteq> set known_modes \<and> length modes' = length modes + length es"
  by (induction raw modes es rule: modes_from.induct)
    (auto simp: Let_def known_modes_def split: if_splits)

lemma known_mode_plain: "m \<in> set known_modes \<Longrightarrow> trim_space m = m \<and> to_lower m = m \<and> m \<noteq> [] \<and> CHR '','' \<notin> set m"
proof -
  have "list_all (\<lambda>m. trim_space m = m \<and> to_lower m = m \<and> m \<noteq> [] \<and> CHR '','' \<notin> set m) known_modes" by code_simp
  then show "m \<in> set known_modes \<Longrightarrow> trim_space m = m \<and> to_lower m = m \<and> m \<noteq> [] \<and> CHR '','' \<notin> set m"
    by (simp add: list_all_iff)
qed

lemma modes_from_known:
  "distinct (modes @ es) \<Longrightarrow> set es \<subseteq> set known_modes \<Longrightarrow> modes_from raw modes es = Inr (modes @ es)"
proof (induction es arbitrary: modes)
  case Nil
  then show ?case by simp
next
  case (Cons m es)
  then have m: "m \<in> set known_modes" by simp
  with known_mode_plain [OF m] Cons show ?case by (auto simp: Let_def known_modes_def)
qed

text \<open>The modes accepted are known and distinct, and their list reads back as itself.\<close>

lemma modes_roundtrip:
  assumes "parseDiscoveryModes raw = Inr modes"
  shows "modes \<noteq> [] \<and> distinct modes \<and> set modes \<subseteq> set known_modes \<and>
         parseDiscoveryModes (join '','' modes) = Inr modes"
proof -
  have v: "distinct modes" "set modes \<subseteq> set known_modes" "length modes = length (split_on (CHR '','') raw)"
    using modes_from_valid [of raw "[]" "split_on (CHR '','') raw" modes] assms
    by (auto simp: parseDiscoveryModes_def)
  then have ne: "modes \<noteq> []" by (metis length_0_conv split_on_nonempty)
  with v(2) known_mode_plain have "split_on (CHR '','') (join '','' modes) = modes" by (intro split_on_join) auto
  with modes_from_known [of "[]" modes] v ne show ?thesis by (simp add: parseDiscoveryModes_def)
qed

section \<open>Lemmas: the fan-in\<close>

lemma runAll_reported: "runAll canceled n True results = []"
  by (induction canceled n True results rule: runAll.induct) auto

section \<open>Lemmas: the readers\<close>

text \<open>What becomes of one reader, by itself: its row of the registry and its watcher, if it has one.\<close>

definition reader_outcome ::
  "reader_kind \<Rightarrow> (load_option list \<Rightarrow> string + 'c) \<Rightarrow> ('c \<Rightarrow> string + string option) \<Rightarrow> bool \<Rightarrow> nanos
     \<Rightarrow> nat \<Rightarrow> nat \<times> string \<times> 'z WatcherSpec_scheme \<Rightarrow> ReaderStatus \<times> built option" where
  "reader_outcome kind load sts deriveNames retry pos x =
     (case x of (i, cluster, spec) \<Rightarrow>
        let display = display_name deriveNames i spec;
            row = initial_status kind display cluster spec;
            watcher = (\<lambda>account unresolved.
              case rk_new kind cluster (ws_pollInterval spec) retry account unresolved of
                Inl err \<Rightarrow> None
              | Inr p \<Rightarrow> Some \<lparr>bt_poller = p, bt_reader = Some pos,
                               bt_origin = \<lparr>o_account = account, o_cluster = cluster, o_region = ws_region spec\<rparr>\<rparr>)
        in case awsConfigForSpec load spec of
             Inl err \<Rightarrow> (row\<lparr>rs_lastError := err\<rparr>, None)
           | Inr cfg \<Rightarrow>
               if ws_name spec = [] \<and> deriveNames
               then case stsAccountResolver sts cfg of
                      Inl err \<Rightarrow> (row\<lparr>rs_lastError := ''resolve account identity: '' @ err\<rparr>, watcher display True)
                    | Inr account \<Rightarrow> (row\<lparr>rs_account := account\<rparr>, watcher account False)
               else (row, watcher display False))"

lemma upd_last: "upd_reader (Some (length reg)) f (reg @ [row]) = reg @ [f row]"
  by (simp add: upd_reader_def)

fun outcomes_from ::
  "reader_kind \<Rightarrow> (load_option list \<Rightarrow> string + 'c) \<Rightarrow> ('c \<Rightarrow> string + string option) \<Rightarrow> bool \<Rightarrow> nanos
     \<Rightarrow> nat \<Rightarrow> (nat \<times> string \<times> 'z WatcherSpec_scheme) list \<Rightarrow> (ReaderStatus \<times> built option) list" where
  "outcomes_from kind load sts deriveNames retry pos [] = []"
| "outcomes_from kind load sts deriveNames retry pos (x # xs) =
     reader_outcome kind load sts deriveNames retry pos x # outcomes_from kind load sts deriveNames retry (Suc pos) xs"

lemma outcomes_length [simp]: "length (outcomes_from kind load sts deriveNames retry pos xs) = length xs"
  by (induction xs arbitrary: pos) auto

lemma outcomes_nth:
  "i < length xs \<Longrightarrow>
     outcomes_from kind load sts deriveNames retry pos xs ! i =
     reader_outcome kind load sts deriveNames retry (pos + i) (xs ! i)"
  by (induction xs arbitrary: pos i) (auto simp: nth_Cons split: nat.split)

lemma outcome_reader: "snd (reader_outcome kind load sts deriveNames retry pos x) = Some w \<Longrightarrow> bt_reader w = Some pos"
  by (auto simp: reader_outcome_def Let_def split: prod.splits sum.splits if_splits)

lemma outcomes_readers:
  "w \<in> set (List.map_filter snd (outcomes_from kind load sts deriveNames retry pos xs)) \<Longrightarrow>
     \<exists>k\<ge>pos. bt_reader w = Some k"
proof (induction xs arbitrary: pos)
  case Nil
  then show ?case by (simp add: map_filter_simps)
next
  case (Cons x xs)
  let ?rest = "List.map_filter snd (outcomes_from kind load sts deriveNames retry (Suc pos) xs)"
  show ?case
  proof (cases "w \<in> set ?rest")
    case True
    with Cons.IH [of "Suc pos"] show ?thesis by (metis Suc_leD)
  next
    case False
    with Cons.prems have "snd (reader_outcome kind load sts deriveNames retry pos x) = Some w"
      by (auto simp: map_filter_simps split: option.splits)
    then show ?thesis by (blast dest: outcome_reader)
  qed
qed

lemma no_reader_below:
  "i < pos \<Longrightarrow> filter (\<lambda>w. bt_reader w = Some i) (List.map_filter snd (outcomes_from kind load sts deriveNames retry pos xs)) = []"
  by (fastforce simp: filter_empty_conv dest: outcomes_readers)

text \<open>A reader has the watcher of its own outcome, and no other.\<close>

lemma reader_watcher:
  "i < length xs \<Longrightarrow>
     filter (\<lambda>w. bt_reader w = Some (pos + i)) (List.map_filter snd (outcomes_from kind load sts deriveNames retry pos xs)) =
     (case snd (reader_outcome kind load sts deriveNames retry (pos + i) (xs ! i)) of None \<Rightarrow> [] | Some w \<Rightarrow> [w])"
proof (induction xs arbitrary: pos i)
  case Nil
  then show ?case by simp
next
  case (Cons x xs)
  show ?case
  proof (cases i)
    case 0
    then show ?thesis
      using no_reader_below [of pos "Suc pos" kind load sts deriveNames retry xs]
        outcome_reader [of kind load sts deriveNames retry pos x]
      by (auto simp: map_filter_simps split: option.split)
  next
    case (Suc j)
    then show ?thesis
      using Cons.IH [of j "Suc pos"] Cons.prems outcome_reader [of kind load sts deriveNames retry pos x]
      by (auto simp: map_filter_simps split: option.split)
  qed
qed

text \<open>A reader is built as it should be: its row of the table is there, unhealthy until its first poll.
  It has no watcher only if its configuration did not load, and then the row says why. Otherwise it
  has exactly one, which polls at the interval the row shows, and which keeps resolving the account
  exactly when an identity was to be derived and could not be, and then the row says so too.\<close>

definition reader_built ::
  "reader_kind \<Rightarrow> (load_option list \<Rightarrow> string + 'c) \<Rightarrow> ('c \<Rightarrow> string + string option) \<Rightarrow> bool \<Rightarrow> nat \<Rightarrow> nat
     \<Rightarrow> string \<times> 'z WatcherSpec_scheme \<Rightarrow> Registry \<Rightarrow> built list \<Rightarrow> bool" where
  "reader_built kind load sts deriveNames base i x reg' ws \<longleftrightarrow>
     (case x of (cluster, spec) \<Rightarrow>
        let row = reg' ! (base + i); mine = filter (\<lambda>w. bt_reader w = Some (base + i)) ws
        in rs_mode row = rk_mode kind \<and> rs_name row = display_name deriveNames i spec \<and> rs_cluster row = cluster \<and>
           \<not> rs_healthy row \<and>
           (case awsConfigForSpec load spec of
              Inl err \<Rightarrow> mine = [] \<and> rs_lastError row = err
            | Inr cfg \<Rightarrow>
                \<exists>w. mine = [w] \<and> po_pollInterval (bt_poller w) = rs_pollInterval row \<and>
                  (po_hasResolver (bt_poller w) \<longleftrightarrow>
                     ws_name spec = [] \<and> deriveNames \<and> (\<exists>err. stsAccountResolver sts cfg = Inl err)) \<and>
                  (po_hasResolver (bt_poller w) \<longrightarrow> rs_lastError row \<noteq> [])))"

text \<open>What building the readers relies on, of the kind of reader: with a cluster that is in order the
  constructor does not fail and keeps the resolver, and the watcher polls at the interval that is
  shown.\<close>

locale reader_builder =
  fixes kind :: reader_kind and cluster_ok :: "string \<Rightarrow> bool"
  assumes constructs: "cluster_ok cluster \<Longrightarrow> \<exists>p. rk_new kind cluster poll retry account u = Inr p"
    and new_laws: "rk_new kind cluster poll retry account u = Inr p \<Longrightarrow> 0 \<le> poll \<Longrightarrow>
      po_pollInterval p = rk_shown kind poll \<and> po_hasResolver p = u"
begin

lemma build_reader_outcome:
  assumes "cluster_ok (fst (snd x))"
  shows "\<exists>taken'. build_reader kind load sts deriveNames retry x ((reg, taken), ws) =
    (case reader_outcome kind load sts deriveNames retry (length reg) x of
       (row, w) \<Rightarrow> ((reg @ [row], taken'), ws @ (case w of None \<Rightarrow> [] | Some w' \<Rightarrow> [w'])))"
proof -
  obtain i cluster spec where x: "x = (i, cluster, spec)" by (cases x)
  from assms x have new: "\<exists>p. rk_new kind cluster poll retry account u = Inr p" for poll retry account u
    by (simp add: constructs)
  note defs = x build_reader_def reader_outcome_def reader_identity_def registry_Add_def NoteError_def
    SetAccount_def onResolved_def upd_last error_text_def initial_status_def Let_def
  show ?thesis
  proof (cases "awsConfigForSpec load spec")
    case (Inl err)
    then show ?thesis by (simp add: defs)
  next
    case (Inr cfg)
    show ?thesis
    proof (cases "ws_name spec = [] \<and> deriveNames")
      case True
      show ?thesis
      proof (cases "stsAccountResolver sts cfg")
        case (Inl err)
        with new obtain p where "rk_new kind cluster (ws_pollInterval spec) retry (display_name deriveNames i spec) True = Inr p" by blast
        with Inl Inr True show ?thesis by (simp add: defs)
      next
        case account: (Inr account)
        with new obtain p where "rk_new kind cluster (ws_pollInterval spec) retry account False = Inr p" by blast
        with account Inr True show ?thesis by (simp add: defs)
      qed
    next
      case False
      from new obtain p where "rk_new kind cluster (ws_pollInterval spec) retry (display_name deriveNames i spec) False = Inr p" by blast
      with False Inr show ?thesis by (auto simp add: defs)
    qed
  qed
qed

text \<open>Building the readers is doing each of them by itself.\<close>

lemma build_readers_outcomes:
  assumes "\<forall>x\<in>set xs. cluster_ok (fst (snd x))"
  shows "\<exists>taken'. fold (build_reader kind load sts deriveNames retry) xs ((reg, taken), ws) =
    (let outs = outcomes_from kind load sts deriveNames retry (length reg) xs
     in ((reg @ map fst outs, taken'), ws @ List.map_filter snd outs))"
  using assms
proof (induction xs arbitrary: reg taken ws)
  case Nil
  then show ?case by (simp add: map_filter_simps)
next
  case (Cons x xs)
  obtain row w where out: "reader_outcome kind load sts deriveNames retry (length reg) x = (row, w)" by fastforce
  from Cons.prems have "cluster_ok (fst (snd x))" by simp
  from build_reader_outcome [OF this, of load sts deriveNames retry reg taken ws] out obtain taken1 where
    "build_reader kind load sts deriveNames retry x ((reg, taken), ws) =
       ((reg @ [row], taken1), ws @ (case w of None \<Rightarrow> [] | Some w' \<Rightarrow> [w']))" by auto
  with Cons.IH [of "reg @ [row]" taken1 "ws @ (case w of None \<Rightarrow> [] | Some w' \<Rightarrow> [w'])"] Cons.prems out show ?case
    by (auto simp: Let_def map_filter_simps split: option.split)
qed

text \<open>What became of the reader of each specification.\<close>

lemma readers_built:
  assumes "\<forall>x\<in>set xs. cluster_ok (fst x) \<and> 0 \<le> ws_pollInterval (snd x)"
    and "fold (build_reader kind load sts deriveNames retry) (enumerate 0 xs) ((reg, []), []) = ((reg', taken), ws)"
  shows "length reg' = length reg + length xs \<and> take (length reg) reg' = reg \<and>
    (\<forall>i<length xs. reader_built kind load sts deriveNames (length reg) i (xs ! i) reg' ws)"
proof -
  let ?xs = "enumerate 0 xs"
  let ?outs = "outcomes_from kind load sts deriveNames retry (length reg) ?xs"
  have "\<forall>x\<in>set ?xs. cluster_ok (fst (snd x))" using assms(1) 
    by (auto simp: in_set_enumerate_eq) (metis fst_conv nth_mem)
  from build_readers_outcomes [OF this, of load sts deriveNames retry reg "[]" "[]"] assms(2)
  have reg': "reg' = reg @ map fst ?outs" and ws: "ws = List.map_filter snd ?outs" by (auto simp: Let_def)
  have "reader_built kind load sts deriveNames (length reg) i (xs ! i) reg' ws" if i: "i < length xs" for i
  proof -
    obtain cluster spec where x: "xs ! i = (cluster, spec)" by fastforce
    let ?o = "reader_outcome kind load sts deriveNames retry (length reg + i) (i, cluster, spec)"
    have nth: "?xs ! i = (i, cluster, spec)" using i x by (simp add: nth_enumerate_eq)
    have row: "reg' ! (length reg + i) = fst ?o" using i nth by (simp add: reg' outcomes_nth)
    have mine: "filter (\<lambda>w. bt_reader w = Some (length reg + i)) ws = (case snd ?o of None \<Rightarrow> [] | Some w \<Rightarrow> [w])"
      using reader_watcher [of i ?xs] i nth by (simp add: ws)
    have "cluster_ok cluster" "0 \<le> ws_pollInterval spec" using assms(1) i x by (metis fst_conv snd_conv nth_mem)+
    then have new: "\<exists>p. rk_new kind cluster (ws_pollInterval spec) retry account u = Inr p \<and>
        po_pollInterval p = rk_shown kind (ws_pollInterval spec) \<and> po_hasResolver p = u" for account u
      using constructs new_laws by blast
    define p where "p = (\<lambda>account u. projr (rk_new kind cluster (ws_pollInterval spec) retry account u))"
    have p: "rk_new kind cluster (ws_pollInterval spec) retry account u = Inr (p account u)"
      "po_pollInterval (p account u) = rk_shown kind (ws_pollInterval spec)" "po_hasResolver (p account u) = u" for account u
      using new [of account u] by (auto simp: p_def)
    show ?thesis
    proof (cases "awsConfigForSpec load spec")
      case (Inl err)
      then show ?thesis unfolding reader_built_def x prod.case Let_def row mine
        by (simp add: reader_outcome_def Let_def initial_status_def)
    next
      case (Inr cfg)
      note cfg = this
      show ?thesis
      proof (cases "ws_name spec = [] \<and> deriveNames")
        case True
        with cfg show ?thesis unfolding reader_built_def x prod.case Let_def row mine
          by (cases "stsAccountResolver sts cfg") (simp_all add: reader_outcome_def Let_def initial_status_def p)
      next
        case False
        with cfg show ?thesis unfolding reader_built_def x prod.case Let_def row mine
          by (auto simp: reader_outcome_def Let_def initial_status_def p)
      qed
    qed
  qed
  then show ?thesis by (simp add: reg')
qed

end

interpretation ecs_readers: reader_builder ecs_kind "\<lambda>cluster. cluster \<noteq> []"
  by unfold_locales
    (auto simp: ecs_kind_def ecs_NewWatcher_def new_poller_def pollIntervalOrDefault_def split: if_splits)

interpretation lambda_readers: reader_builder lambda_kind "\<lambda>_. True"
  by unfold_locales (auto simp: lambda_kind_def lambda_NewWatcher_def new_poller_def)

text \<open>A reader whose identity was not resolved at the start gets it from the cycle that resolves it: the
  callbacks of a run put the account that the watcher then has into its row of the table and into the
  origin of its registrations, and leave them alone while there is none.\<close>

lemma late_identity:
  assumes "\<forall>x\<in>set rounds. paces (fst (snd (snd (snd x))))" "poller_ok p" "mirrored (Some i) (r, p, st)"
    and "poll_Run canceled (Some i) rounds (r, p, st) [] = Some ((r', p', st'), slept)"
    and "fold (onResolved (Some i)) (rev (po_onResolved p')) (reg, taken, origin) = (reg', taken', origin')"
    and "i < length reg"
  shows "if po_accountResolved p'
    then rs_account (reg' ! i) = po_account p' \<and> o_account origin' = po_account p' \<and> po_account p' \<in> set taken'
    else reg' = reg \<and> origin' = origin \<and> taken' = taken"
proof -
  have "po_onResolved p' = (if po_accountResolved p' then [po_account p'] else [])"
    using poll_Run_step [OF assms(1) _ assms(3,4)] assms(2) by (simp add: poller_ok_def)
  with assms(5,6) show ?thesis
    by (auto simp: onResolved_def SetAccount_def upd_reader_simps claim_def split: if_splits)
qed

section \<open>Properties\<close>

text \<open>The fan-in of the watchers, and likewise of the modes: exactly one report, which is the first
  genuine error as soon as it arrives, or that all is over once every one has ended without a genuine
  error; while one is still running and none has failed, nothing is reported, so the process goes on.\<close>

lemma fan_in_reports_once:
  "runAll canceled n False results =
     (case find (genuine canceled) (take n results) of
        Some err \<Rightarrow> [err]
      | None \<Rightarrow> if n \<le> length results then [None] else [])"
proof (induction n arbitrary: results)
  case 0
  then show ?case by simp
next
  case (Suc n)
  then show ?case by (cases results) (simp_all add: runAll_reported)
qed

lemma enumerate_map: "map (\<lambda>(i, x). (i, f x)) (enumerate n xs) = enumerate n (map f xs)"
  by (induction xs arbitrary: n) simp_all

lemma parseInterval_nonneg: "parseInterval parseDuration env name = Inr d \<Longrightarrow> 0 \<le> d"
  by (auto simp: parseInterval_def Let_def split: if_splits sum.splits)

text \<open>C29: no reader brings down another. When ECS discovery starts, every account of the plan (or the one
  reader of the defaults) has a row in the readers' table, after those already there and in the order
  of the plan, unhealthy until its first poll. It has no watcher only if its AWS configuration did not
  load, and then its row says why. Otherwise it has exactly one, which polls at the interval shown in
  the table, and which keeps resolving the account exactly when an identity was to be derived and
  could not be, and then the row says so too. In particular two readers whose identities turn out to be
  the same both have their watcher, although the comment on \<^verbatim>\<open>buildECSWatchers\<close> says that a duplicate
  identity disables a reader.\<close>

theorem readers_resilient:
  assumes "start_ecs env parseDuration unmarshal load sts reg = Inr (reg', ws)"
  shows "\<exists>interval accounts specs.
    parseInterval parseDuration env ''TSSERVE_ECS_POLL_INTERVAL'' = Inr interval \<and>
    ParseAccounts unmarshal (env ''TSSERVE_ECS_ACCOUNTS'') = Inr accounts \<and>
    ecs_Plan accounts (ecs_defaults env interval) = Inr specs \<and>
    length reg' = length reg + length specs \<and> take (length reg) reg' = reg \<and>
    (\<forall>i<length specs.
       reader_built ecs_kind load sts (accounts \<noteq> []) (length reg) i (ws_cluster (specs ! i), specs ! i) reg' ws) \<and>
    (\<forall>i j cfg cfg' ident. i < length specs \<and> j < length specs \<and> i \<noteq> j \<and>
       awsConfigForSpec load (specs ! i) = Inr cfg \<and> stsAccountResolver sts cfg = Inr ident \<and>
       awsConfigForSpec load (specs ! j) = Inr cfg' \<and> stsAccountResolver sts cfg' = Inr ident \<longrightarrow>
       (\<exists>w w'. filter (\<lambda>w. bt_reader w = Some (length reg + i)) ws = [w] \<and>
              filter (\<lambda>w. bt_reader w = Some (length reg + j)) ws = [w']))"
proof -
  obtain interval retry accounts specs where
    interval: "parseInterval parseDuration env ''TSSERVE_ECS_POLL_INTERVAL'' = Inr interval"
    and accounts: "ParseAccounts unmarshal (env ''TSSERVE_ECS_ACCOUNTS'') = Inr accounts"
    and plan: "ecs_Plan accounts (ecs_defaults env interval) = Inr specs"
    and build: "buildECSWatchers load sts specs (accounts \<noteq> []) retry reg = (reg', ws)"
    using assms by (auto simp: start_ecs_def split: sum.splits)
  let ?xs = "map (\<lambda>spec. (ws_cluster spec, spec)) specs"
  have "\<forall>spec\<in>set specs. ws_cluster spec \<noteq> [] \<and> ws_pollInterval spec = interval"
    using plan by (auto simp: ecs_Plan_def ecs_plan_from_iff list_all_iff ecs_spec_def ecs_defaults_def split: if_splits)
  then have "\<forall>x\<in>set ?xs. fst x \<noteq> [] \<and> 0 \<le> ws_pollInterval (snd x)"
    using parseInterval_nonneg [OF interval] by auto
  moreover obtain taken where
    "fold (build_reader ecs_kind load sts (accounts \<noteq> []) retry) (enumerate 0 ?xs) ((reg, []), []) = ((reg', taken), ws)"
    using build by (auto simp: buildECSWatchers_def enumerate_map split: prod.splits)
  ultimately have built: "length reg' = length reg + length ?xs \<and> take (length reg) reg' = reg \<and>
    (\<forall>i<length ?xs. reader_built ecs_kind load sts (accounts \<noteq> []) (length reg) i (?xs ! i) reg' ws)"
    by (rule ecs_readers.readers_built)
  then have "\<exists>w. filter (\<lambda>w. bt_reader w = Some (length reg + i)) ws = [w]"
    if "i < length specs" "awsConfigForSpec load (specs ! i) = Inr cfg" for i cfg
    using that by (fastforce simp: reader_built_def Let_def)
  with interval accounts plan built show ?thesis by (intro exI conjI) auto
qed

text \<open>Likewise for Lambda discovery.\<close>

lemma lambda_readers_resilient:
  assumes "startLambda env parseDuration unmarshal load sts reg = Inr (reg', ws)"
  shows "\<exists>interval accounts specs.
    lambda_ParseAccounts unmarshal (env ''TSSERVE_LAMBDA_ACCOUNTS'') = Inr accounts \<and>
    lambda_Plan accounts (lambda_defaults env interval) = Inr specs \<and>
    length reg' = length reg + length specs \<and> take (length reg) reg' = reg \<and>
    (\<forall>i<length specs. reader_built lambda_kind load sts (accounts \<noteq> []) (length reg) i ([], specs ! i) reg' ws)"
proof -
  obtain interval retry accounts specs where
    interval: "parseInterval parseDuration env ''TSSERVE_LAMBDA_POLL_INTERVAL'' = Inr interval"
    and accounts: "lambda_ParseAccounts unmarshal (env ''TSSERVE_LAMBDA_ACCOUNTS'') = Inr accounts"
    and plan: "lambda_Plan accounts (lambda_defaults env interval) = Inr specs"
    and build: "buildLambdaWatchers load sts specs (accounts \<noteq> []) retry reg = (reg', ws)"
    using assms by (auto simp: startLambda_def split: sum.splits)
  let ?xs = "map (\<lambda>spec. ([], spec)) specs"
  have "\<forall>spec\<in>set specs. ws_pollInterval spec = interval"
    using plan by (auto simp: lambda_Plan_def lambda_plan_from_iff lambda_spec_def lambda_defaults_def split: if_splits)
  then have "\<forall>x\<in>set ?xs. True \<and> 0 \<le> ws_pollInterval (snd x)" using parseInterval_nonneg [OF interval] by auto
  moreover obtain taken where
    "fold (build_reader lambda_kind load sts (accounts \<noteq> []) retry) (enumerate 0 ?xs) ((reg, []), []) = ((reg', taken), ws)"
    using build by (auto simp: buildLambdaWatchers_def enumerate_map split: prod.splits)
  ultimately have "length reg' = length reg + length ?xs \<and> take (length reg) reg' = reg \<and>
    (\<forall>i<length ?xs. reader_built lambda_kind load sts (accounts \<noteq> []) (length reg) i (?xs ! i) reg' ws)"
    using lambda_readers.readers_built [of ?xs load sts "accounts \<noteq> []" retry reg reg' taken ws] by simp
  with accounts plan show ?thesis by (intro exI conjI) auto
qed

text \<open>Two accounts without a name, whose identities turn out to be the same.\<close>

definition demo_environ :: "string \<Rightarrow> string" where
  "demo_environ v =
     (if v = ''TSSERVE_ECS_ACCOUNTS'' then ''[..]'' else if v = ''TSSERVE_ECS_CLUSTER'' then ''prod'' else [])"

definition demo_accounts :: "EcsAccount list" where
  "demo_accounts =
     map (\<lambda>name. \<lparr>ac_name = name, ac_region = ''eu-west-1'', ac_profile = [], ac_configFile = [], ac_accessKeyID = [],
                  ac_secretAccessKey = [], ac_cluster = []\<rparr>) [[], []]"

lemma demo_parsed:
  "parseInterval (\<lambda>_. Inl []) demo_environ ''TSSERVE_ECS_POLL_INTERVAL'' = Inr 0"
  "parseInterval (\<lambda>_. Inl []) demo_environ ''TSSERVE_ECS_RETRY_INTERVAL'' = Inr 0"
  "ParseAccounts (\<lambda>_. Inr demo_accounts) (demo_environ ''TSSERVE_ECS_ACCOUNTS'') = Inr demo_accounts"
  "ecs_Plan demo_accounts (ecs_defaults demo_environ 0) = Inr (map (ecs_spec (ecs_defaults demo_environ 0)) demo_accounts)"
proof -
  have "trim_space ''[..]'' \<noteq> []" by code_simp
  then show "ParseAccounts (\<lambda>_. Inr demo_accounts) (demo_environ ''TSSERVE_ECS_ACCOUNTS'') = Inr demo_accounts"
    by (simp add: ParseAccounts_def demo_environ_def)
  show "ecs_Plan demo_accounts (ecs_defaults demo_environ 0) = Inr (map (ecs_spec (ecs_defaults demo_environ 0)) demo_accounts)"
    by (simp add: ecs_Plan_def demo_accounts_def ecs_plan_from_iff ecs_spec_def ecs_defaults_def demo_environ_def creds_paired_def)
qed (simp_all add: parseInterval_def demo_environ_def)

theorem readers_resilient_witness:
  "\<exists>reg' ws w w'. start_ecs demo_environ (\<lambda>_. Inl []) (\<lambda>_. Inr demo_accounts) (\<lambda>_. Inr ()) (\<lambda>_. Inr (Some ''123456789012'')) [] =
       Inr (reg', ws) \<and> length reg' = 2 \<and>
     filter (\<lambda>w. bt_reader w = Some 0) ws = [w] \<and> filter (\<lambda>w. bt_reader w = Some 1) ws = [w']"
proof -
  let ?load = "\<lambda>_. Inr ()" and ?sts = "\<lambda>_. Inr (Some ''123456789012'')"
  let ?specs = "map (ecs_spec (ecs_defaults demo_environ 0)) demo_accounts"
  obtain reg' ws where start: "start_ecs demo_environ (\<lambda>_. Inl []) (\<lambda>_. Inr demo_accounts) ?load ?sts [] = Inr (reg', ws)"
    by (cases "buildECSWatchers ?load ?sts ?specs (length demo_accounts > 0) 0 []") (simp add: start_ecs_def demo_parsed)
  have specs: "length ?specs = 2" by (simp add: demo_accounts_def)
  have load: "awsConfigForSpec ?load (?specs ! i) = Inr ()" for i by (simp add: awsConfigForSpec_def)
  have sts: "stsAccountResolver ?sts () = Inr ''123456789012''" by (simp add: stsAccountResolver_def ToString_def)
  from readers_resilient [OF start] have "length reg' = 2" and
    twins: "\<And>i j. i < length ?specs \<Longrightarrow> j < length ?specs \<Longrightarrow> i \<noteq> j \<Longrightarrow>
      \<exists>w w'. filter (\<lambda>w. bt_reader w = Some i) ws = [w] \<and> filter (\<lambda>w. bt_reader w = Some j) ws = [w']"
    using specs load sts by (auto simp: demo_parsed)
  with start twins [of 0 1] show ?thesis unfolding specs by auto
qed

end
