(* ===== verification/Status.thy ===== *)
theory Status
  imports Manager Registry
begin

text \<open>
  The local servers (\<^verbatim>\<open>local/status.go\<close>, \<^verbatim>\<open>local/server.go\<close>, \<^verbatim>\<open>local/traefik.go\<close>): what the status page
  shows of the manager, the readers and the tailnet, the routes of the two listeners, and their
  lifetime. The HTML template is an argument; the metrics page and the proxying to Traefik are left
  out.
\<close>

section \<open>Durations and names\<close>

definition maxDuration :: int where
  "maxDuration = 2 ^ 63 - 1"

text \<open>\<^verbatim>\<open>Duration.Round\<close> for a duration that is not negative: half is rounded up, and the result
  saturates.\<close>

definition round_duration :: "int \<Rightarrow> int \<Rightarrow> int" where
  "round_duration m d =
     (let r = d mod m in if r + r < m then d - r else min (d + m - r) maxDuration)"

definition humanDuration :: "nanos \<Rightarrow> string" where
  "humanDuration d =
     (let sec = 1000000000 in
      if d < sec then ''just now''
      else let d' = round_duration sec d;
               seconds = d' div sec; minutes = d' div (60 * sec); hours = d' div (3600 * sec)
           in if d' < 60 * sec then show_int seconds @ ''s''
              else if d' < 3600 * sec then show_int minutes @ ''m'' @ show_int (seconds mod 60) @ ''s''
              else if d' < 24 * 3600 * sec then show_int hours @ ''h'' @ show_int (minutes mod 60) @ ''m''
              else show_int (hours div 24) @ ''d'' @ show_int (hours mod 24) @ ''h'')"

definition functionName :: "string \<Rightarrow> string" where
  "functionName arn = after_last (CHR '':'') arn"

definition shortID :: "string \<Rightarrow> string" where
  "shortID x = (let x' = (if CHR ''/'' \<in> set x then after_last (CHR ''/'') x else x)
                in if length x' > 12 then take 12 x' else x')"

section \<open>The rows of the page\<close>

record backendRow =
  br_backend :: string
  br_keyShort :: string
  br_registeredAgo :: string
  br_account :: string
  br_cluster :: string

record serviceRow =
  sr_service :: string
  sr_caps :: "string list"
  sr_backends :: "backendRow list"

definition backend_row :: "nanos \<Rightarrow> string \<Rightarrow> BackendView \<Rightarrow> backendRow" where
  "backend_row now scheme b =
     \<lparr>br_backend = bv_backend b,
      br_keyShort = (if scheme = SchemeLambda then functionName (bv_key b) else shortID (bv_key b)),
      br_registeredAgo = humanDuration (now - bv_registeredAt b) @ '' ago'',
      br_account = o_account (bv_origin b), br_cluster = o_cluster (bv_origin b)\<rparr>"

definition rowsFor :: "nanos \<Rightarrow> ServiceView list \<Rightarrow> serviceRow list" where
  "rowsFor now services =
     map (\<lambda>s. \<lparr>sr_service = sv_service s, sr_caps = sv_caps s,
               sr_backends = map (backend_row now (sv_scheme s)) (sv_backends s)\<rparr>) services"

record readerRow =
  rr_mode :: string
  rr_name :: string
  rr_account :: string
  rr_cluster :: string
  rr_region :: string
  rr_pollInterval :: string
  rr_lastPolled :: string
  rr_state :: string
  rr_stateLabel :: string
  rr_lastError :: string

definition reader_state :: "ReaderStatus \<Rightarrow> string \<times> string" where
  "reader_state r =
     (if rs_healthy r then (''healthy'', ''healthy'')
      else if rs_lastError r \<noteq> [] then (''error'', ''unreachable'')
      else (''pending'', ''pending''))"

definition reader_row :: "nanos \<Rightarrow> ReaderStatus \<Rightarrow> readerRow" where
  "reader_row now r =
     \<lparr>rr_mode = rs_mode r, rr_name = rs_name r, rr_account = rs_account r, rr_cluster = rs_cluster r,
      rr_region = rs_region r, rr_pollInterval = humanDuration (rs_pollInterval r),
      rr_lastPolled =
        (case rs_lastPollOK r of None \<Rightarrow> ''never'' | Some t \<Rightarrow> humanDuration (now - t) @ '' ago''),
      rr_state = fst (reader_state r), rr_stateLabel = snd (reader_state r), rr_lastError = rs_lastError r\<rparr>"

text \<open>A nil source gives no rows.\<close>

definition readerRowsFor :: "nanos \<Rightarrow> ReaderStatus list option \<Rightarrow> readerRow list" where
  "readerRowsFor now src = (case src of None \<Rightarrow> [] | Some readers \<Rightarrow> map (reader_row now) readers)"

text \<open>\<^verbatim>\<open>readerSource.Readers\<close> of \<^verbatim>\<open>main.go\<close> copies every field of every record.\<close>

definition Readers :: "Registry \<Rightarrow> ReaderStatus list" where
  "Readers reg =
     map (\<lambda>r. \<lparr>rs_mode = rs_mode r, rs_name = rs_name r, rs_account = rs_account r, rs_cluster = rs_cluster r,
               rs_region = rs_region r, rs_pollInterval = rs_pollInterval r,
               rs_lastPollStart = rs_lastPollStart r, rs_lastPollOK = rs_lastPollOK r,
               rs_lastError = rs_lastError r, rs_polls = rs_polls r, rs_healthy = rs_healthy r\<rparr>)
       (registry_Snapshot (Some reg))"

text \<open>What the local client says: the backend state, the node itself (host name, DNS name,
  addresses) and the current tailnet (name, suffix).\<close>

record ts_status =
  st_backendState :: string
  st_self :: "(string \<times> string \<times> string list) option"
  st_currentTailnet :: "(string \<times> string) option"

record tailnetView =
  tv_available :: bool
  tv_error :: string
  tv_hostname :: string
  tv_fqdn :: string
  tv_tailnetName :: string
  tv_magicDNSSuffix :: string
  tv_ips :: "string list"
  tv_backendState :: string

definition empty_view :: tailnetView where
  "empty_view =
     \<lparr>tv_available = False, tv_error = [], tv_hostname = [], tv_fqdn = [], tv_tailnetName = [],
      tv_magicDNSSuffix = [], tv_ips = [], tv_backendState = []\<rparr>"

definition readTailnet :: "(string + ts_status) option \<Rightarrow> tailnetView" where
  "readTailnet lc =
     (case lc of
        None \<Rightarrow> empty_view\<lparr>tv_error := ''no local client''\<rparr>
      | Some (Inl err) \<Rightarrow> empty_view\<lparr>tv_error := err\<rparr>
      | Some (Inr st) \<Rightarrow>
          let v = empty_view\<lparr>tv_available := True, tv_backendState := st_backendState st\<rparr>;
              v1 = (case st_self st of
                      None \<Rightarrow> v
                    | Some (host, dns, ips) \<Rightarrow>
                        v\<lparr>tv_hostname := host, tv_fqdn := (if has_suffix dns ''.'' then butlast dns else dns),
                          tv_ips := ips\<rparr>)
          in (case st_currentTailnet st of
                None \<Rightarrow> v1
              | Some (name, suffix) \<Rightarrow> v1\<lparr>tv_tailnetName := name, tv_magicDNSSuffix := suffix\<rparr>))"

definition readBuild :: "string \<Rightarrow> (string \<times> (string \<times> string) list) option \<Rightarrow> string \<times> string \<times> string" where
  "readBuild goVersion bi =
     (case bi of
        None \<Rightarrow> (''unknown'', ''unknown'', goVersion)
      | Some (version, settings) \<Rightarrow>
          (if version \<noteq> [] then version else ''unknown'',
           fold (\<lambda>(k, v) r. if k = ''vcs.revision'' \<and> v \<noteq> [] then take 12 v else r) settings ''unknown'',
           goVersion))"

record local_server =
  ls_traefikPort :: int
  ls_metricsAddr :: string
  ls_discoveryMode :: string
  ls_started :: nanos

record statusData =
  sd_hostname :: string
  sd_uptime :: string
  sd_now :: string
  sd_discoveryMode :: string
  sd_metricsAddr :: string
  sd_traefikEnabled :: bool
  sd_traefikPort :: int
  sd_tailnet :: tailnetView
  sd_services :: "serviceRow list"
  sd_readers :: "readerRow list"
  sd_build :: "string \<times> string \<times> string"

text \<open>The data of the page; \<open>format\<close> prints a time in UTC as RFC 3339 has it.\<close>

definition status_data ::
  "(nanos \<Rightarrow> string) \<Rightarrow> local_server \<Rightarrow> string \<times> string \<times> string \<Rightarrow> nanos \<Rightarrow> (string + ts_status) option
     \<Rightarrow> Manager \<Rightarrow> ReaderStatus list option \<Rightarrow> statusData" where
  "status_data format s build now lc mgr readers =
     (let tailnet = readTailnet lc in
      \<lparr>sd_hostname = (if tv_hostname tailnet = [] then ''tsserve'' else tv_hostname tailnet),
       sd_uptime = humanDuration (now - ls_started s), sd_now = format now,
       sd_discoveryMode = ls_discoveryMode s, sd_metricsAddr = ls_metricsAddr s,
       sd_traefikEnabled = ls_traefikPort s > 0, sd_traefikPort = ls_traefikPort s,
       sd_tailnet = tailnet, sd_services = rowsFor now (Snapshot mgr), sd_readers = readerRowsFor now readers,
       sd_build = build\<rparr>)"

text \<open>\<^verbatim>\<open>statusHandler\<close>: the build is read once, when the handler is made; a request is answered with the
  header and what the template makes of the data, up to where it fails.\<close>

definition statusHandler ::
  "(nanos \<Rightarrow> string) \<Rightarrow> (statusData \<Rightarrow> string) \<Rightarrow> local_server \<Rightarrow> string \<Rightarrow> (string \<times> (string \<times> string) list) option
     \<Rightarrow> nanos \<Rightarrow> (string + ts_status) option \<Rightarrow> Manager \<Rightarrow> ReaderStatus list option
     \<Rightarrow> (string \<times> string) list \<times> string" where
  "statusHandler format template s goVersion bi =
     (let build = readBuild goVersion bi
      in (\<lambda>now lc mgr readers.
            ([(''Content-Type'', ''text/html; charset=utf-8''), (''Cache-Control'', ''no-store'')],
             template (status_data format s build now lc mgr readers))))"

section \<open>The servers\<close>

datatype traefik_error = NotANumber string | OutOfRange int

definition ParseTraefikPort :: "string \<Rightarrow> traefik_error + int" where
  "ParseTraefikPort s =
     (if s = [] then Inr 0
      else case atoi s of
             None \<Rightarrow> Inl (NotANumber s)
           | Some n \<Rightarrow> if n < 1 \<or> n > 65535 then Inl (OutOfRange n) else Inr n)"

text \<open>What is served: the status page, a page not found with a hint, a proxy to a port of the
  loopback interface, or the metrics.\<close>

datatype page = StatusPage | NotFound string | ProxyTo string | MetricsPage | TextPage string

definition traefikHandler :: "int \<Rightarrow> page" where
  "traefikHandler port =
     (if port = 0 then NotFound (''tsserve: /traefik is disabled; set TSSERVE_TRAEFIK_PORT to enable.'' @ [CHR 0x0A])
      else ProxyTo (''127.0.0.1:'' @ show_int port))"

text \<open>What the client gets when Traefik cannot be reached: the status and the message, for the text of the
  error.\<close>

definition traefikErrorHandler :: "string \<Rightarrow> int \<times> string" where
  "traefikErrorHandler err = (502, ''tsserve: traefik proxy error: '' @ err @ [CHR 0x0A])"

text \<open>\<^verbatim>\<open>http.ServeMux\<close> on a clean path: the longest pattern that is the path or, if it ends in a slash,
  a prefix of it.\<close>

definition mux_matches :: "string \<Rightarrow> string \<Rightarrow> bool" where
  "mux_matches path pat \<longleftrightarrow> pat = path \<or> has_suffix pat ''/'' \<and> has_prefix path pat"

fun mux_best :: "string \<Rightarrow> (string \<times> 'h) list \<Rightarrow> (string \<times> 'h) option" where
  "mux_best path [] = None"
| "mux_best path ((pat, h) # rest) =
     (case mux_best path rest of
        None \<Rightarrow> if mux_matches path pat then Some (pat, h) else None
      | Some (pat', h') \<Rightarrow>
          if mux_matches path pat \<and> length pat' < length pat then Some (pat, h) else Some (pat', h'))"

text \<open>The UTF-8 encoding of an em dash.\<close>

definition em_dash :: string where
  "em_dash = [CHR 0xE2, CHR 0x80, CHR 0x94]"

definition metrics_hint :: "string \<Rightarrow> string" where
  "metrics_hint addr =
     ''tsserve: /metrics is served on the loopback listener'' @
     (if addr \<noteq> [] then '' (default 127.0.0.1:9090; override with TSSERVE_METRICS_ADDR).'' @ [CHR 0x0A] @ ''Current: '' @ addr @ [CHR 0x0A]
      else '' '' @ em_dash @ '' currently disabled (TSSERVE_METRICS_ADDR is empty).'' @ [CHR 0x0A])"

definition tailnetMux :: "local_server \<Rightarrow> (string \<times> (string \<Rightarrow> page)) list" where
  "tailnetMux s =
     [(''/'', \<lambda>path. if path \<noteq> ''/'' then NotFound ''404 page not found'' else StatusPage),
      (''/metrics'', \<lambda>_. NotFound (metrics_hint (ls_metricsAddr s))),
      (''/traefik'', \<lambda>_. traefikHandler (ls_traefikPort s)),
      (''/traefik/'', \<lambda>_. traefikHandler (ls_traefikPort s))]"

definition metricsMux :: "(string \<times> (string \<Rightarrow> page)) list" where
  "metricsMux = [(''/metrics'', \<lambda>_. MetricsPage), (''/'', \<lambda>_. TextPage (''tsserve metrics endpoint '' @ em_dash @ '' see /metrics'' @ [CHR 0x0A]))]"

definition route :: "(string \<times> (string \<Rightarrow> page)) list \<Rightarrow> string \<Rightarrow> page" where
  "route mux path = (case mux_best path mux of None \<Rightarrow> NotFound ''404 page not found'' | Some (_, h) \<Rightarrow> h path)"

text \<open>\<^verbatim>\<open>runHTTP\<close>: the error \<^verbatim>\<open>Serve\<close> ends with, if it is not that of a server that was closed.\<close>

definition runHTTP :: "string option \<Rightarrow> string option" where
  "runHTTP err = (if err = Some ''http: Server closed'' then None else err)"

text \<open>\<^verbatim>\<open>Run\<close>: the errors of the two listens, and what arrives first: the end of the context, or the
  result of one of the servers. The servers that were started and those that were closed are
  returned with the result.\<close>

datatype listener = Tailnet | Metrics_listener

definition local_Run ::
  "local_server \<Rightarrow> string option \<Rightarrow> string option \<Rightarrow> string option option
     \<Rightarrow> listener list \<times> listener list \<times> string option" where
  "local_Run s listenTLS listenMetrics first =
     (case listenTLS of
        Some err \<Rightarrow> ([], [], Some (''tailnet ListenTLS :443: '' @ err))
      | None \<Rightarrow>
          (case (if ls_metricsAddr s \<noteq> [] then listenMetrics else None) of
             Some err \<Rightarrow> ([Tailnet], [Tailnet], Some (''metrics listen '' @ ls_metricsAddr s @ '': '' @ err))
           | None \<Rightarrow>
               let up = [Tailnet] @ (if ls_metricsAddr s \<noteq> [] then [Metrics_listener] else [])
               in (up, up, case first of None \<Rightarrow> None | Some err \<Rightarrow> runHTTP err)))"

section \<open>Lemmas\<close>

lemma Readers_id: "Readers reg = reg"
  by (simp add: Readers_def registry_Snapshot_def map_idI)

text \<open>A port that is accepted is a port or 0 for none; a decimal port is accepted as itself.\<close>

lemma ParseTraefikPort_range: "ParseTraefikPort s = Inr n \<Longrightarrow> 0 \<le> n \<and> n \<le> 65535 \<and> (n = 0 \<longleftrightarrow> s = [])"
  by (auto simp: ParseTraefikPort_def split: if_splits option.splits)

lemma local_Run_closes: "local_Run s tls met first = (started, closed, err) \<Longrightarrow> closed = started"
  by (auto simp: local_Run_def Let_def split: option.splits if_splits)

text \<open>The state shown for a reader follows its last report.\<close>

lemma reader_state_iff:
  "fst (reader_state r) = ''healthy'' \<longleftrightarrow> rs_healthy r"
  "fst (reader_state r) = ''error'' \<longleftrightarrow> \<not> rs_healthy r \<and> rs_lastError r \<noteq> []"
  by (simp_all add: reader_state_def)

text \<open>Where a request to the tailnet listener goes.\<close>

lemma tailnet_route:
  "route (tailnetMux s) path =
     (if path = ''/'' then StatusPage
      else if path = ''/metrics'' then NotFound (metrics_hint (ls_metricsAddr s))
      else if path = ''/traefik'' \<or> has_prefix path ''/traefik/'' then traefikHandler (ls_traefikPort s)
      else NotFound ''404 page not found'')"
  by (auto simp: route_def tailnetMux_def mux_matches_def has_suffix_def has_prefix_def split: option.split)

lemma show_int_nonneg: "0 \<le> i \<Longrightarrow> show_int i = show_nat (nat i)"
  by (simp add: show_int_def)

text \<open>Rounding moves a duration by at most half a second.\<close>

lemma round_second:
  assumes "0 \<le> d" and "d \<le> maxDuration - 1000000000"
  shows "1000000000 dvd round_duration 1000000000 d" and "2 * \<bar>round_duration 1000000000 d - d\<bar> \<le> 1000000000"
proof -
  let ?m = "1000000000 :: int"
  have r: "0 \<le> d mod ?m" "d mod ?m < ?m" by simp_all
  have eq: "d = ?m * (d div ?m) + d mod ?m" by simp
  have up: "min (d + ?m - d mod ?m) maxDuration = d + ?m - d mod ?m" using assms(2) r by linarith
  have "?m dvd d - d mod ?m" "?m dvd d + ?m - d mod ?m"
    using dvd_minus_mod [of ?m d] by (simp_all add: add_diff_eq diff_add_eq [symmetric])
  then show "?m dvd round_duration ?m d" by (simp add: round_duration_def Let_def up)
  show "2 * \<bar>round_duration ?m d - d\<bar> \<le> ?m" using r by (simp add: round_duration_def Let_def up)
qed

lemma humanDuration_seconds:
  assumes "1000000000 \<le> d" and "round_duration 1000000000 d = 1000000000 * k"
  shows "humanDuration d =
    (if k < 60 then show_int k @ ''s''
     else if k < 3600 then show_int (k div 60) @ ''m'' @ show_int (k mod 60) @ ''s''
     else if k < 86400 then show_int (k div 3600) @ ''h'' @ show_int (k div 60 mod 60) @ ''m''
     else show_int (k div 86400) @ ''d'' @ show_int (k div 3600 mod 24) @ ''h'')"
proof -
  have "1000000000 * k div 60000000000 = k div 60" "1000000000 * k div 3600000000000 = k div 3600"
    using div_mult_mult1 [of "1000000000 :: int" k 60] div_mult_mult1 [of "1000000000 :: int" k 3600] by simp_all
  moreover have "k div 3600 div 24 = k div 86400"
    using zdiv_zmult2_eq [of 24 k 3600] by simp
  ultimately show ?thesis using assms(1) by (simp add: humanDuration_def Let_def assms(2))
qed

text \<open>The age shown for a duration of a second or more is that of the nearest whole number of
  seconds, half rounded up, printed in its two leading units.\<close>

lemma humanDuration_accurate:
  assumes "1000000000 \<le> d" and "d \<le> maxDuration - 1000000000"
  shows "\<exists>k. 1 \<le> k \<and> 2 * \<bar>k * 1000000000 - d\<bar> \<le> 1000000000 \<and>
    humanDuration d =
      (if k < 60 then show_int k @ ''s''
       else if k < 3600 then show_int (k div 60) @ ''m'' @ show_int (k mod 60) @ ''s''
       else if k < 86400 then show_int (k div 3600) @ ''h'' @ show_int (k div 60 mod 60) @ ''m''
       else show_int (k div 86400) @ ''d'' @ show_int (k div 3600 mod 24) @ ''h'')"
proof -
  from assms(1) have "0 \<le> d" by simp
  note round = round_second [OF this assms(2)]
  from round(1) obtain k where k: "round_duration 1000000000 d = 1000000000 * k" by (auto simp: dvd_def)
  with round(2) have near: "2 * \<bar>k * 1000000000 - d\<bar> \<le> 1000000000" by (simp add: mult.commute)
  with assms(1) have "0 < k * 1000000000" by (auto simp: abs_if split: if_splits)
  then have "1 \<le> k" by simp
  with near humanDuration_seconds [OF assms(1) k] show ?thesis by blast
qed

lemma humanDuration_example: "humanDuration 3599600000000 = ''1h0m''"
proof -
  obtain k where k: "2 * \<bar>k * 1000000000 - 3599600000000\<bar> \<le> (1000000000 :: int)"
    and h: "humanDuration 3599600000000 =
      (if k < 60 then show_int k @ ''s''
       else if k < 3600 then show_int (k div 60) @ ''m'' @ show_int (k mod 60) @ ''s''
       else if k < 86400 then show_int (k div 3600) @ ''h'' @ show_int (k div 60 mod 60) @ ''m''
       else show_int (k div 86400) @ ''d'' @ show_int (k div 3600 mod 24) @ ''h'')"
    using humanDuration_accurate [of 3599600000000] by (auto simp: maxDuration_def)
  from k have "k = 3600" by (auto simp: abs_if split: if_splits)
  with h show ?thesis by (simp add: show_int_def show_nat.simps digit_char_def) code_simp
qed

end
