(* ===== verification/Program.thy ===== *)
theory Program
  imports Startup Status
begin

text \<open>
  The program as a whole (\<^verbatim>\<open>main.go\<close>: \<^verbatim>\<open>main\<close>, \<^verbatim>\<open>run\<close>). \<^verbatim>\<open>run\<close> is composed of the components: it reads the
  environment, sets up the certificate mirror, starts the tailnet node, the manager, the local server and
  the discovery modes, and waits for what ends it. Its effects are listed in their order, with the
  deferred ones where they run: after the body that follows the \<^verbatim>\<open>defer\<close>, the last deferred first.
\<close>

section \<open>Data\<close>

record tsnet_Server =
  tn_hostname :: string
  tn_dir :: string
  tn_authKey :: string
  tn_clientID :: string
  tn_clientSecret :: string
  tn_idToken :: string
  tn_audience :: string
  tn_advertiseTags :: "string list"
  tn_store :: "string option"

definition node_config :: "(string \<Rightarrow> string) \<Rightarrow> tsnet_Server" where
  "node_config env =
     \<lparr>tn_hostname = envDefault env ''TSSERVE_HOSTNAME'' ''tsserve'',
      tn_dir = envDefault env ''TSSERVE_STATE_DIR'' ''/var/lib/tsserve'',
      tn_authKey = env ''TS_AUTHKEY'', tn_clientID = env ''TS_CLIENT_ID'', tn_clientSecret = env ''TS_CLIENT_SECRET'',
      tn_idToken = env ''TS_ID_TOKEN'', tn_audience = env ''TS_AUDIENCE'',
      tn_advertiseTags = splitTags (env ''TSSERVE_TAGS''),
      tn_store = (if env ''TSSERVE_STATE_STORE'' \<noteq> [] then Some (env ''TSSERVE_STATE_STORE'') else None)\<rparr>"

text \<open>What ends the wait of \<^verbatim>\<open>awaitTerminal\<close>: the signal, a fatal error of a registration, the results of the
  modes in the order in which they come, or the end of the local server, with what its two listens
  answered and what came first to it.\<close>

datatype ending =
    Signal
  | FatalRegistration string
  | ModeResults "string option list"
  | LocalEnded "string option" "string option" "string option option"

text \<open>What the world answers: the errors of the state store, of the S3 configuration, of making the
  directory and of watching it, the directory itself, the errors of the steps of the tailnet node, the
  clock, and what the discovery modes are started with.\<close>

record 'c world =
  wd_store :: "string \<Rightarrow> string option"
  wd_s3 :: "load_option list \<Rightarrow> string option"
  wd_mkdir :: "string option"
  wd_certs :: cert_env
  wd_newWatcher :: "string option"
  wd_addWatch :: "string option"
  wd_dir :: dir
  wd_start :: "string option"
  wd_up :: "string option"
  wd_client :: "string option"
  wd_now :: nanos
  wd_parseDuration :: "string \<Rightarrow> string + nanos"
  wd_ecsAccounts :: "string \<Rightarrow> string + EcsAccount list"
  wd_lambdaAccounts :: "string \<Rightarrow> string + Account list"
  wd_load :: "load_option list \<Rightarrow> string + 'c"
  wd_sts :: "'c \<Rightarrow> string + string option"
  wd_docker :: "string option"
  wd_ending :: ending

datatype run_error =
    AuthFailed auth_error
  | StoreFailed string string
  | CertsFailed string
  | NodeFailed string string
  | ModesInvalid mode_error
  | TraefikInvalid traefik_error
  | StartFailed start_error
  | Ended string

text \<open>\<open>AwaitFinalSweep\<close> waits for the syncer to end, for at most 35 seconds; the context has been cancelled just
  before, which is what makes the syncer sweep once more and end.\<close>

datatype effect =
    OpenContext
  | StartSyncer Syncer
  | StartNode tsnet_Server
  | MakeManager Manager
  | StartLocal local_server
  | StartMode mode_watchers
  | CancelContext
  | AwaitFinalSweep
  | CloseNode
  | CloseManager

text \<open>The effects of a body and its error; \<open>None\<close>: it does not return.\<close>

type_synonym outcome = "(effect list \<times> run_error option) option"

definition finish :: "run_error option \<Rightarrow> outcome" where
  "finish err = Some ([], err)"

text \<open>An effect, what it defers, and the rest of the function.\<close>

definition doing :: "effect list \<Rightarrow> effect list \<Rightarrow> outcome \<Rightarrow> outcome" where
  "doing now deferred rest = map_option (\<lambda>(es, err). (now @ es @ deferred, err)) rest"

section \<open>The function\<close>

definition awaited :: "(string \<Rightarrow> bool) \<Rightarrow> nat \<Rightarrow> local_server \<Rightarrow> ending \<Rightarrow> terminal option" where
  "awaited canceled n srv e =
     (case e of
        Signal \<Rightarrow> Some Shutdown
      | FatalRegistration err \<Rightarrow> Some (FatalError err)
      | ModeResults results \<Rightarrow>
          (case runAll canceled n False results of [] \<Rightarrow> None | err # _ \<Rightarrow> Some (WatchDone err))
      | LocalEnded tls met first \<Rightarrow> Some (LocalDone (snd (snd (local_Run srv tls met first)))))"

definition startMode_of ::
  "(string \<Rightarrow> string) \<Rightarrow> 'c world \<Rightarrow> string \<Rightarrow> Registry \<Rightarrow> start_error + Registry \<times> mode_watchers" where
  "startMode_of env w =
     startWatcher env (wd_parseDuration w) (wd_ecsAccounts w) (wd_lambdaAccounts w) (wd_load w) (wd_sts w) (wd_docker w)"

definition local_config :: "(string \<Rightarrow> string) \<Rightarrow> nanos \<Rightarrow> int \<Rightarrow> string list \<Rightarrow> local_server" where
  "local_config env now port modes =
     \<lparr>ls_traefikPort = port, ls_metricsAddr = envDefault env ''TSSERVE_METRICS_ADDR'' ''127.0.0.1:9090'',
      ls_discoveryMode = join '', '' modes, ls_started = now\<rparr>"

text \<open>From the manager on.\<close>

definition run_services :: "(string \<Rightarrow> bool) \<Rightarrow> (string \<Rightarrow> string) \<Rightarrow> 'c world \<Rightarrow> outcome" where
  "run_services canceled env w =
     (case parseDiscoveryModes (envDefault env ''TSSERVE_DISCOVERY'' ''docker'') of
        Inl err \<Rightarrow> finish (Some (ModesInvalid err))
      | Inr modes \<Rightarrow>
          (case ParseTraefikPort (env ''TSSERVE_TRAEFIK_PORT'') of
             Inl err \<Rightarrow> finish (Some (TraefikInvalid err))
           | Inr port \<Rightarrow>
               let srv = local_config env (wd_now w) port modes in
               doing [StartLocal srv] []
                 (case startModes (startMode_of env w) modes NewRegistry of
                    (ws, res) \<Rightarrow>
                      doing (map StartMode ws) []
                        (case res of
                           Inl err \<Rightarrow> finish (Some (StartFailed err))
                         | Inr readers \<Rightarrow>
                             (case awaited canceled (length modes) srv (wd_ending w) of
                                None \<Rightarrow> None
                              | Some t \<Rightarrow> finish (map_option Ended (awaitTerminal canceled t)))))))"

text \<open>From the start of the tailnet node on.\<close>

definition run_node :: "(string \<Rightarrow> bool) \<Rightarrow> (string \<Rightarrow> string) \<Rightarrow> 'c world \<Rightarrow> outcome" where
  "run_node canceled env w =
     (case wd_start w of
        Some err \<Rightarrow> finish (Some (NodeFailed ''tsnet start'' err))
      | None \<Rightarrow>
          doing [StartNode (node_config env)] [CloseNode]
            (case wd_up w of
               Some err \<Rightarrow> finish (Some (NodeFailed ''tsnet up'' err))
             | None \<Rightarrow>
                 (case wd_client w of
                    Some err \<Rightarrow> finish (Some (NodeFailed ''tsnet local client'' err))
                  | None \<Rightarrow>
                      doing [MakeManager (NewManager (Some fresh_gauges))] [CloseManager] (run_services canceled env w))))"

definition run :: "(string \<Rightarrow> bool) \<Rightarrow> (string \<Rightarrow> string) \<Rightarrow> 'c world \<Rightarrow> outcome" where
  "run canceled env w =
     (case validateAuth env of
        Some err \<Rightarrow> finish (Some (AuthFailed err))
      | None \<Rightarrow>
          let store = env ''TSSERVE_STATE_STORE'' in
          (case (if store \<noteq> [] then wd_store w store else None) of
             Some err \<Rightarrow> finish (Some (StoreFailed store err))
           | None \<Rightarrow>
               doing [OpenContext] [CancelContext]
                 (case setupCertSync env (tn_dir (node_config env)) (wd_s3 w) (wd_mkdir w) (wd_certs w) (wd_newWatcher w)
                         (wd_addWatch w) (wd_dir w) of
                    None \<Rightarrow> None
                  | Some (Inl err) \<Rightarrow> finish (Some (CertsFailed err))
                  | Some (Inr (None, _)) \<Rightarrow> run_node canceled env w
                  | Some (Inr (Some syncer, _)) \<Rightarrow>
                      doing [StartSyncer syncer] [CancelContext, AwaitFinalSweep] (run_node canceled env w))))"

text \<open>\<^verbatim>\<open>main\<close>: what it prints on the standard error, and the exit code; \<open>text\<close> is the text of an error.\<close>

definition main_exit :: "(run_error \<Rightarrow> string) \<Rightarrow> run_error option \<Rightarrow> string \<times> int" where
  "main_exit text res = (case res of None \<Rightarrow> ([], 0) | Some err \<Rightarrow> (''tsserve: '' @ text err @ [CHR 0x0A], 1))"

section \<open>Lemmas\<close>

text \<open>What undoes an effect, and the effects of a run that undoes all it has done, the last first.\<close>

fun undo :: "effect \<Rightarrow> effect list" where
  "undo OpenContext = [CancelContext]"
| "undo (StartSyncer s) = [CancelContext, AwaitFinalSweep]"
| "undo (StartNode n) = [CloseNode]"
| "undo (MakeManager m) = [CloseManager]"
| "undo _ = []"

definition unwound :: "effect list \<Rightarrow> effect list" where
  "unwound ups = ups @ concat (map undo (rev ups))"

text \<open>The effects of a body are the unwinding of a prefix of what it is to do, all of it if the body
  succeeds.\<close>

definition unwinds :: "effect list \<Rightarrow> outcome \<Rightarrow> bool" where
  "unwinds plan out \<longleftrightarrow>
     (\<forall>es err. out = Some (es, err) \<longrightarrow>
        (\<exists>n. es = unwound (take n plan) \<and> (err = None \<longrightarrow> length plan \<le> n)))"

lemma unwinds_finish: "err \<noteq> None \<or> plan = [] \<Longrightarrow> unwinds plan (finish err)"
  by (auto simp: unwinds_def finish_def unwound_def intro!: exI [of _ 0])

lemma unwinds_None: "unwinds plan None"
  by (simp add: unwinds_def)

lemma unwinds_doing:
  assumes "unwinds plan rest" "deferred = undo e"
  shows "unwinds (e # plan) (doing [e] deferred rest)"
  unfolding unwinds_def
proof (intro allI impI)
  fix es err assume "doing [e] deferred rest = Some (es, err)"
  then obtain es' where rest: "rest = Some (es', err)" and es: "es = e # es' @ deferred" by (auto simp: doing_def)
  from assms(1) rest obtain n where "es' = unwound (take n plan)" "err = None \<longrightarrow> length plan \<le> n"
    by (auto simp: unwinds_def)
  with es assms(2) show "\<exists>n. es = unwound (take n (e # plan)) \<and> (err = None \<longrightarrow> length (e # plan) \<le> n)"
    by (intro exI [of _ "Suc n"]) (simp add: unwound_def)
qed

lemma unwinds_modes:
  assumes "unwinds [] rest"
  shows "unwinds (map StartMode ws) (doing (map StartMode ws) [] rest)"
proof -
  have "concat (map undo (rev (map StartMode ws))) = []" by (simp add: rev_map comp_def)
  with assms show ?thesis
    by (auto simp: unwinds_def doing_def unwound_def intro!: exI [of _ "length ws"])
qed

lemma startModes_all: "startModes start modes r = (ws, Inr r') \<Longrightarrow> length ws = length modes"
  by (induction start modes r arbitrary: ws rule: startModes.induct) (auto split: sum.splits prod.splits)

text \<open>What the steps of a run are: \<open>sync\<close> is the syncer, if there is one.\<close>

definition run_plan :: "(string \<Rightarrow> string) \<Rightarrow> effect list \<Rightarrow> local_server \<Rightarrow> mode_watchers list \<Rightarrow> effect list" where
  "run_plan env sync srv ws =
     OpenContext # sync @
     [StartNode (node_config env), MakeManager (NewManager (Some fresh_gauges)), StartLocal srv] @ map StartMode ws"

text \<open>A reason to end that is not a failure, for \<open>n\<close> modes.\<close>

definition good_ending :: "(string \<Rightarrow> bool) \<Rightarrow> nat \<Rightarrow> local_server \<Rightarrow> ending \<Rightarrow> bool" where
  "good_ending canceled n srv e =
     (case e of
        Signal \<Rightarrow> True
      | FatalRegistration err \<Rightarrow> False
      | ModeResults results \<Rightarrow> n \<le> length results \<and> list_all (\<lambda>r. \<not> genuine canceled r) (take n results)
      | LocalEnded tls met first \<Rightarrow> \<not> genuine canceled (snd (snd (local_Run srv tls met first))))"

lemma awaited_good:
  assumes "awaited canceled n srv e = Some t" "awaitTerminal canceled t = None"
  shows "good_ending canceled n srv e"
  using assms
  by (auto simp: awaited_def good_ending_def awaitTerminal_def fan_in_reports_once list_all_iff find_None_iff
      genuine_def split: ending.splits option.splits if_splits dest!: find_Some_iff [THEN iffD1])

lemma run_services_unwinds:
  "\<exists>srv ws. unwinds (StartLocal srv # map StartMode ws) (run_services canceled env w) \<and>
     (\<forall>es. run_services canceled env w = Some (es, None) \<longrightarrow> good_ending canceled (length ws) srv (wd_ending w))"
proof (cases "parseDiscoveryModes (envDefault env ''TSSERVE_DISCOVERY'' ''docker'')")
  case (Inl err)
  then show ?thesis by (simp add: run_services_def unwinds_finish) (simp add: finish_def)
next
  case modes: (Inr modes)
  show ?thesis
  proof (cases "ParseTraefikPort (env ''TSSERVE_TRAEFIK_PORT'')")
    case (Inl err)
    with modes show ?thesis by (simp add: run_services_def unwinds_finish) (simp add: finish_def)
  next
    case (Inr port)
    let ?srv = "local_config env (wd_now w) port modes"
    obtain ws res where start: "startModes (startMode_of env w) modes NewRegistry = (ws, res)" by fastforce
    define rest where "rest = (case res of Inl err \<Rightarrow> finish (Some (StartFailed err))
       | Inr readers \<Rightarrow> (case awaited canceled (length modes) ?srv (wd_ending w) of
            None \<Rightarrow> None | Some t \<Rightarrow> finish (map_option Ended (awaitTerminal canceled t))))"
    have run: "run_services canceled env w = doing [StartLocal ?srv] [] (doing (map StartMode ws) [] rest)"
      using modes Inr start by (simp add: run_services_def rest_def Let_def)
    have "unwinds [] rest" by (auto simp: rest_def unwinds_None unwinds_finish split: sum.split option.split)
    then have "unwinds (StartLocal ?srv # map StartMode ws) (run_services canceled env w)"
      unfolding run by (intro unwinds_doing unwinds_modes) simp_all
    moreover have "good_ending canceled (length ws) ?srv (wd_ending w)" if "rest = Some (es, None)" for es
      using that startModes_all [of "startMode_of env w" modes NewRegistry ws] start
      by (auto simp: rest_def finish_def awaited_good split: sum.splits option.splits)
    then have "\<forall>es. run_services canceled env w = Some (es, None) \<longrightarrow> good_ending canceled (length ws) ?srv (wd_ending w)"
      by (auto simp: run doing_def)
    ultimately show ?thesis by blast
  qed
qed

lemma run_node_unwinds:
  "\<exists>srv ws. unwinds (StartNode (node_config env) # MakeManager (NewManager (Some fresh_gauges)) # StartLocal srv # map StartMode ws)
       (run_node canceled env w) \<and>
     (\<forall>es. run_node canceled env w = Some (es, None) \<longrightarrow> good_ending canceled (length ws) srv (wd_ending w))"
proof -
  obtain srv ws where run: "unwinds (StartLocal srv # map StartMode ws) (run_services canceled env w)"
    and good: "\<forall>es. run_services canceled env w = Some (es, None) \<longrightarrow> good_ending canceled (length ws) srv (wd_ending w)"
    using run_services_unwinds by blast
  have "unwinds (StartNode (node_config env) # MakeManager (NewManager (Some fresh_gauges)) # StartLocal srv # map StartMode ws)
      (run_node canceled env w)"
    unfolding run_node_def
    by (auto intro!: unwinds_doing unwinds_finish run split: option.split)
  moreover have "good_ending canceled (length ws) srv (wd_ending w)" if "run_node canceled env w = Some (es, None)" for es
    using that good by (auto simp: run_node_def doing_def finish_def split: option.splits)
  ultimately show ?thesis by blast
qed

section \<open>Properties\<close>

text \<open>C12: however the program ends, it undoes what it has done. Its effects are a prefix of the planned
  ones (the context, the certificate mirror if there is a bucket, the tailnet node as configured, the
  manager, the local server, the discovery modes), followed by what undoes each of them, the last first:
  the manager is closed before the node, the node before the final sweep of the certificates is
  awaited. It ends without an error only after all of them, and only for a signal, when every mode
  has ended without a genuine error, or when the local server has.\<close>

theorem run_unwinds:
  assumes "run canceled env w = Some (es, err)"
  shows "\<exists>sync srv ws n. (sync = [] \<or> (\<exists>syncer. sync = [StartSyncer syncer])) \<and>
    es = unwound (take n (run_plan env sync srv ws)) \<and>
    (err = None \<longrightarrow> length (run_plan env sync srv ws) \<le> n \<and> good_ending canceled (length ws) srv (wd_ending w))"
proof -
  obtain srv ws where node: "unwinds (StartNode (node_config env) # MakeManager (NewManager (Some fresh_gauges)) # StartLocal srv # map StartMode ws)
      (run_node canceled env w)" (is "unwinds ?plan _")
    and good: "\<forall>es. run_node canceled env w = Some (es, None) \<longrightarrow> good_ending canceled (length ws) srv (wd_ending w)"
    using run_node_unwinds by blast
  obtain sync where sync: "sync = [] \<or> (\<exists>syncer. sync = [StartSyncer syncer])"
    and all: "unwinds (OpenContext # sync @ ?plan) (run canceled env w)"
  proof (cases "setupCertSync env (tn_dir (node_config env)) (wd_s3 w) (wd_mkdir w) (wd_certs w) (wd_newWatcher w)
      (wd_addWatch w) (wd_dir w)")
    case None
    then show ?thesis
      by (intro that [of "[]"]) (auto simp: run_def Let_def intro!: unwinds_finish unwinds_doing unwinds_None split: option.split)
  next
    case (Some res)
    show ?thesis
    proof (cases "\<exists>syncer d. res = Inr (Some syncer, d)")
      case True
      then obtain syncer d where "res = Inr (Some syncer, d)" by blast
      with Some node show ?thesis
        by (intro that [of "[StartSyncer syncer]"])
          (auto simp: run_def Let_def intro!: unwinds_finish unwinds_doing split: option.split)
    next
      case False
      with Some node show ?thesis
        by (intro that [of "[]"])
          (auto simp: run_def Let_def intro!: unwinds_finish unwinds_doing split: option.split sum.split)
    qed
  qed
  have "run_plan env sync srv ws = OpenContext # sync @ ?plan" by (simp add: run_plan_def)
  moreover have "good_ending canceled (length ws) srv (wd_ending w)" if "err = None"
    using assms that good by (auto simp: run_def Let_def doing_def finish_def split: option.splits sum.splits prod.splits)
  ultimately show ?thesis using all assms sync unfolding unwinds_def by metis
qed

text \<open>Docker discovery with nothing else configured, until the signal.\<close>

definition demo_getenv :: "string \<Rightarrow> string" where
  "demo_getenv v = (if v = ''TS_AUTHKEY'' then ''tskey'' else [])"

definition demo_world :: "unit world" where
  "demo_world =
     \<lparr>wd_store = \<lambda>_. None, wd_s3 = \<lambda>_. None, wd_mkdir = None, wd_certs = demo_cert_env, wd_newWatcher = None,
      wd_addWatch = None, wd_dir = [], wd_start = None, wd_up = None, wd_client = None, wd_now = 0,
      wd_parseDuration = \<lambda>_. Inl [], wd_ecsAccounts = \<lambda>_. Inr [], wd_lambdaAccounts = \<lambda>_. Inr [],
      wd_load = \<lambda>_. Inr (), wd_sts = \<lambda>_. Inl [], wd_docker = None, wd_ending = Signal\<rparr>"

lemma demo_run_ends: "\<exists>es. run (\<lambda>_. False) demo_getenv demo_world = Some (es, None)"
proof -
  have "parseDiscoveryModes ''docker'' = Inr [''docker'']" by code_simp
  then show ?thesis
    by (simp add: run_def run_node_def run_services_def demo_getenv_def demo_world_def validateAuth_def setupCertSync_def
        envDefault_def ParseTraefikPort_def startMode_of_def startWatcher_def docker_NewWatcher_def awaited_def
        awaitTerminal_def doing_def finish_def Let_def)
qed

theorem run_unwinds_witness:
  "\<exists>es sync srv ws n. run (\<lambda>_. False) demo_getenv demo_world = Some (es, None) \<and>
     es = unwound (take n (run_plan demo_getenv sync srv ws)) \<and> length (run_plan demo_getenv sync srv ws) \<le> n"
proof -
  obtain es where run: "run (\<lambda>_. False) demo_getenv demo_world = Some (es, None)" using demo_run_ends ..
  with run_unwinds [OF run] show ?thesis by blast
qed

end
