(* ===== verification/Middleware.thy ===== *)
theory Middleware
  imports Prelude
begin

text \<open>
  The request accounting around a proxied handler (\<^verbatim>\<open>metrics/metrics.go\<close>): the counting writer, the
  counting body and connection, and the middleware, for any number of requests at once. A nil
  collector, for which the middleware is the handler itself, is left out.
\<close>

section \<open>Data\<close>

text \<open>The collectors of one service: requests by method and status, observed durations by method,
  bytes, and the two gauges.\<close>

record mw_metrics =
  mm_requests :: "string \<times> int \<Rightarrow> int"
  mm_durations :: "string \<Rightarrow> int"
  mm_reqBytes :: int
  mm_respBytes :: int
  mm_inFlight :: int
  mm_wsOpen :: int

text \<open>\<open>cw_sent\<close> are the status codes forwarded to the wrapped writer, in order.\<close>

record countingWriter =
  cw_method :: string
  cw_counted :: bool \<comment> \<open>the request body is wrapped by a \<^verbatim>\<open>countingReadCloser\<close>\<close>
  cw_status :: int
  cw_wroteHeader :: bool
  cw_hijacked :: bool
  cw_sent :: "int list"

section \<open>Operations\<close>

text \<open>\<^verbatim>\<open>WriteHeader\<close>, \<^verbatim>\<open>Write\<close> (with the number of bytes the wrapped writer accepted), \<^verbatim>\<open>Hijack\<close> (with the
  error of the wrapped writer, which may not support it), and the reads and writes of the wrapped
  body and connection.\<close>

definition WriteHeader :: "int \<Rightarrow> countingWriter \<Rightarrow> countingWriter" where
  "WriteHeader code w =
     (if cw_wroteHeader w then w
      else w\<lparr>cw_status := code, cw_wroteHeader := True, cw_sent := cw_sent w @ [code]\<rparr>)"

definition cw_Write :: "int \<Rightarrow> countingWriter \<times> mw_metrics \<Rightarrow> countingWriter \<times> mw_metrics" where
  "cw_Write n x =
     (case x of (w, m) \<Rightarrow>
        (if \<not> cw_wroteHeader w then WriteHeader 200 w else w,
         if n > 0 then m\<lparr>mm_respBytes := mm_respBytes m + n\<rparr> else m))"

definition Hijack :: "bool \<Rightarrow> string option \<Rightarrow> countingWriter \<times> mw_metrics \<Rightarrow> (countingWriter \<times> mw_metrics) \<times> string option" where
  "Hijack supported err x =
     (case x of (w, m) \<Rightarrow>
        if \<not> supported then ((w, m), Some ''metrics: underlying ResponseWriter does not implement http.Hijacker'')
        else case err of
               Some e \<Rightarrow> ((w, m), Some e)
             | None \<Rightarrow> ((w\<lparr>cw_hijacked := True, cw_status := 101\<rparr>, m\<lparr>mm_wsOpen := mm_wsOpen m + 1\<rparr>), None))"

definition conn_Read :: "int \<Rightarrow> mw_metrics \<Rightarrow> mw_metrics" where
  "conn_Read n m = (if n > 0 then m\<lparr>mm_reqBytes := mm_reqBytes m + n\<rparr> else m)"

definition conn_Write :: "int \<Rightarrow> mw_metrics \<Rightarrow> mw_metrics" where
  "conn_Write n m = (if n > 0 then m\<lparr>mm_respBytes := mm_respBytes m + n\<rparr> else m)"

definition body_Read :: "int \<Rightarrow> countingWriter \<Rightarrow> mw_metrics \<Rightarrow> mw_metrics" where
  "body_Read n w m = (if cw_counted w \<and> n > 0 then m\<lparr>mm_reqBytes := mm_reqBytes m + n\<rparr> else m)"

text \<open>The handler before and after \<^verbatim>\<open>next.ServeHTTP\<close>, which may panic; the deferred functions run in
  both cases.\<close>

definition mw_begin :: "string \<Rightarrow> bool \<Rightarrow> mw_metrics \<Rightarrow> countingWriter \<times> mw_metrics" where
  "mw_begin method hasBody m =
     (\<lparr>cw_method = method, cw_counted = hasBody, cw_status = 200, cw_wroteHeader = False, cw_hijacked = False,
       cw_sent = []\<rparr>,
      m\<lparr>mm_inFlight := mm_inFlight m + 1\<rparr>)"

definition mw_end :: "bool \<Rightarrow> countingWriter \<Rightarrow> mw_metrics \<Rightarrow> mw_metrics" where
  "mw_end panicked w m =
     (let m1 = (if panicked then m
                else let m' = (if \<not> cw_hijacked w
                               then m\<lparr>mm_durations := (mm_durations m)(cw_method w := mm_durations m (cw_method w) + 1)\<rparr>
                               else m)
                     in m'\<lparr>mm_requests := (mm_requests m')((cw_method w, cw_status w) :=
                             mm_requests m' (cw_method w, cw_status w) + 1)\<rparr>);
          m2 = (if cw_hijacked w then m1\<lparr>mm_wsOpen := mm_wsOpen m1 - 1\<rparr> else m1)
      in m2\<lparr>mm_inFlight := mm_inFlight m2 - 1\<rparr>)"

text \<open>The version and revision of \<^verbatim>\<open>buildInfo\<close>, from the main module's version and the build
  settings; the last revision that is not empty counts.\<close>

definition build_labels :: "(string \<times> (string \<times> string) list) option \<Rightarrow> string \<times> string" where
  "build_labels bi =
     (case bi of
        None \<Rightarrow> (''unknown'', ''unknown'')
      | Some (version, settings) \<Rightarrow>
          (if version \<noteq> [] then version else ''unknown'',
           fold (\<lambda>(k, v) r. if k = ''vcs.revision'' \<and> v \<noteq> [] then v else r) settings ''unknown''))"

section \<open>Concurrent requests\<close>

text \<open>The requests in flight share the collectors. \<open>mw_ended\<close> records the requests that ended, and
  whether by a panic. A wrapped writer hands out its connection once (\<^verbatim>\<open>http.ErrHijacked\<close> after that).\<close>

record mw_state =
  mw_open :: "(nat, countingWriter) gomap"
  mw_ended :: "(bool \<times> countingWriter) list"
  mw_coll :: mw_metrics

definition mw_init :: mw_state where
  "mw_init =
     \<lparr>mw_open = m_empty, mw_ended = [],
      mw_coll = \<lparr>mm_requests = (\<lambda>_. 0), mm_durations = (\<lambda>_. 0), mm_reqBytes = 0, mm_respBytes = 0,
                 mm_inFlight = 0, mm_wsOpen = 0\<rparr>\<rparr>"

inductive mw_step :: "mw_state \<Rightarrow> mw_state \<Rightarrow> bool" where
  begins: "map_of (mw_open s) i = None \<Longrightarrow> mw_begin method hasBody (mw_coll s) = (w, m) \<Longrightarrow>
     mw_step s (s\<lparr>mw_open := m_put i w (mw_open s), mw_coll := m\<rparr>)"
| reads_body: "map_of (mw_open s) i = Some w \<Longrightarrow> mw_step s (s\<lparr>mw_coll := body_Read n w (mw_coll s)\<rparr>)"
| writes_header: "map_of (mw_open s) i = Some w \<Longrightarrow>
     mw_step s (s\<lparr>mw_open := m_put i (WriteHeader code w) (mw_open s)\<rparr>)"
| writes: "map_of (mw_open s) i = Some w \<Longrightarrow> cw_Write n (w, mw_coll s) = (w', m) \<Longrightarrow>
     mw_step s (s\<lparr>mw_open := m_put i w' (mw_open s), mw_coll := m\<rparr>)"
| hijacks: "map_of (mw_open s) i = Some w \<Longrightarrow> (cw_hijacked w \<Longrightarrow> err \<noteq> None) \<Longrightarrow>
     Hijack supported err (w, mw_coll s) = ((w', m), e) \<Longrightarrow>
     mw_step s (s\<lparr>mw_open := m_put i w' (mw_open s), mw_coll := m\<rparr>)"
| conn_reads: "map_of (mw_open s) i = Some w \<Longrightarrow> cw_hijacked w \<Longrightarrow>
     mw_step s (s\<lparr>mw_coll := conn_Read n (mw_coll s)\<rparr>)"
| conn_writes: "map_of (mw_open s) i = Some w \<Longrightarrow> cw_hijacked w \<Longrightarrow>
     mw_step s (s\<lparr>mw_coll := conn_Write n (mw_coll s)\<rparr>)"
| ends: "map_of (mw_open s) i = Some w \<Longrightarrow>
     mw_step s (s\<lparr>mw_open := m_del i (mw_open s), mw_ended := (panicked, w) # mw_ended s,
                  mw_coll := mw_end panicked w (mw_coll s)\<rparr>)"

inductive mw_reachable :: "mw_state \<Rightarrow> bool" where
  mw_start: "mw_reachable mw_init"
| mw_more: "mw_reachable s \<Longrightarrow> mw_step s s' \<Longrightarrow> mw_reachable s'"

section \<open>Lemmas\<close>

definition tally :: "('v \<Rightarrow> bool) \<Rightarrow> ('k \<times> 'v) list \<Rightarrow> int" where
  "tally P m = int (length (filter (\<lambda>(_, v). P v) m))"

lemma tally_simps [simp]:
  "tally P [] = 0" "tally P ((k, v) # m) = of_bool (P v) + tally P m"
  by (simp_all add: tally_def)

lemma tally_put_new: "map_of m k = None \<Longrightarrow> tally P (m_put k v m) = tally P m + of_bool (P v)"
  by (induction m) auto

lemma tally_put_old:
  "map_of m k = Some u \<Longrightarrow> tally P (m_put k v m) = tally P m - of_bool (P u) + of_bool (P v)"
  by (induction m) (auto split: if_splits)

lemma tally_del:
  "distinct (map fst m) \<Longrightarrow> map_of m k = Some u \<Longrightarrow> tally P (m_del k m) = tally P m - of_bool (P u)"
proof (induction m)
  case Nil
  then show ?case by simp
next
  case (Cons x m)
  obtain k' v where x: "x = (k', v)" by (cases x)
  show ?case
  proof (cases "k' = k")
    case True
    with Cons.prems(1) x have "m_del k m = m" by (auto simp: image_iff intro!: delete_idem)
    with True Cons.prems(2) x show ?thesis by simp
  next
    case False
    with Cons x show ?thesis by simp
  qed
qed

lemma tally_card:
  "distinct (map fst m) \<Longrightarrow> tally P m = int (card {i. \<exists>v. map_of m i = Some v \<and> P v})"
proof (induction m)
  case Nil
  then show ?case by simp
next
  case (Cons x m)
  obtain k v where x: "x = (k, v)" by (cases x)
  with Cons.prems have fresh: "map_of m k = None" by (simp add: map_of_eq_None_iff)
  let ?S = "{i. \<exists>v. map_of m i = Some v \<and> P v}"
  have "{i. \<exists>u. map_of (x # m) i = Some u \<and> P u} = (if P v then insert k ?S else ?S)"
    using fresh x by auto
  moreover have "finite ?S" by (rule finite_subset [OF _ finite_dom_map_of [of m]]) auto
  moreover have "k \<notin> ?S" using fresh by simp
  ultimately show ?case using Cons x by simp
qed

text \<open>How many of the ended requests satisfy \<open>P\<close> and did not panic.\<close>

definition ended_count :: "(countingWriter \<Rightarrow> bool) \<Rightarrow> mw_state \<Rightarrow> int" where
  "ended_count P s = int (length (filter (\<lambda>(p, w). \<not> p \<and> P w) (mw_ended s)))"

text \<open>The status recorded for a request that was not hijacked is the first one its handler wrote,
  which is the only one forwarded, or 200 if it wrote none.\<close>

definition status_ok :: "countingWriter \<Rightarrow> bool" where
  "status_ok w \<longleftrightarrow>
     (cw_hijacked w \<or> cw_status w = (if cw_sent w = [] then 200 else hd (cw_sent w))) \<and>
     length (cw_sent w) \<le> 1 \<and> cw_wroteHeader w = (cw_sent w \<noteq> [])"

definition gauges_inv :: "mw_state \<Rightarrow> bool" where
  "gauges_inv s \<longleftrightarrow>
     distinct (map fst (mw_open s)) \<and>
     mm_inFlight (mw_coll s) = tally (\<lambda>_. True) (mw_open s) \<and>
     mm_wsOpen (mw_coll s) = tally cw_hijacked (mw_open s)"

definition counts_inv :: "mw_state \<Rightarrow> bool" where
  "counts_inv s \<longleftrightarrow>
     (\<forall>method code. mm_requests (mw_coll s) (method, code) = ended_count (\<lambda>w. cw_method w = method \<and> cw_status w = code) s) \<and>
     (\<forall>method. mm_durations (mw_coll s) method = ended_count (\<lambda>w. cw_method w = method \<and> \<not> cw_hijacked w) s)"

definition writers_inv :: "mw_state \<Rightarrow> bool" where
  "writers_inv s \<longleftrightarrow>
     (\<forall>i w. map_of (mw_open s) i = Some w \<longrightarrow> status_ok w) \<and> (\<forall>x\<in>set (mw_ended s). status_ok (snd x))"

lemma WriteHeader_same [simp]: "cw_hijacked (WriteHeader code w) = cw_hijacked w"
  by (simp add: WriteHeader_def)

lemma status_ok_WriteHeader: "status_ok w \<Longrightarrow> status_ok (WriteHeader code w)"
  by (auto simp: status_ok_def WriteHeader_def)

lemma mw_end_simps [simp]:
  "mm_inFlight (mw_end p w m) = mm_inFlight m - 1"
  "mm_wsOpen (mw_end p w m) = mm_wsOpen m - of_bool (cw_hijacked w)"
  "mm_requests (mw_end p w m) (method, code) =
     mm_requests m (method, code) + of_bool (\<not> p \<and> cw_method w = method \<and> cw_status w = code)"
  "mm_durations (mw_end p w m) method =
     mm_durations m method + of_bool (\<not> p \<and> cw_method w = method \<and> \<not> cw_hijacked w)"
  by (auto simp: mw_end_def Let_def)

lemma read_write_same [simp]:
  "mm_inFlight (body_Read n w m) = mm_inFlight m" "mm_wsOpen (body_Read n w m) = mm_wsOpen m"
  "mm_requests (body_Read n w m) = mm_requests m" "mm_durations (body_Read n w m) = mm_durations m"
  "mm_inFlight (conn_Read n m) = mm_inFlight m" "mm_wsOpen (conn_Read n m) = mm_wsOpen m"
  "mm_requests (conn_Read n m) = mm_requests m" "mm_durations (conn_Read n m) = mm_durations m"
  "mm_inFlight (conn_Write n m) = mm_inFlight m" "mm_wsOpen (conn_Write n m) = mm_wsOpen m"
  "mm_requests (conn_Write n m) = mm_requests m" "mm_durations (conn_Write n m) = mm_durations m"
  by (simp_all add: body_Read_def conn_Read_def conn_Write_def)

lemma gauges_inv_step: "mw_step s s' \<Longrightarrow> gauges_inv s \<Longrightarrow> gauges_inv s'"
  by (induction rule: mw_step.induct)
    (auto simp: gauges_inv_def mw_begin_def cw_Write_def Hijack_def tally_put_new tally_put_old tally_del
      distinct_update distinct_delete split: if_splits option.splits)

lemma ended_count_simps [simp]:
  "ended_count P (s\<lparr>mw_open := open'\<rparr>) = ended_count P s"
  "ended_count P (s\<lparr>mw_coll := m\<rparr>) = ended_count P s"
  "ended_count P (s\<lparr>mw_ended := (p, w) # mw_ended s\<rparr>) = ended_count P s + of_bool (\<not> p \<and> P w)"
  by (simp_all add: ended_count_def)

lemma counts_inv_step: "mw_step s s' \<Longrightarrow> counts_inv s \<Longrightarrow> counts_inv s'"
  by (induction rule: mw_step.induct)
    (auto simp: counts_inv_def mw_begin_def cw_Write_def Hijack_def ended_count_def split: if_splits option.splits)

lemma writers_inv_step: "mw_step s s' \<Longrightarrow> writers_inv s \<Longrightarrow> writers_inv s'"
proof (induction rule: mw_step.induct)
  case (begins s i meth hasBody w m)
  then have "status_ok w" by (auto simp: mw_begin_def status_ok_def)
  with begins show ?case by (auto simp: writers_inv_def)
next
  case (writes_header s i w code)
  then show ?case by (auto simp: writers_inv_def intro!: status_ok_WriteHeader)
next
  case (writes s i w n w' m)
  then have "status_ok w'" by (auto simp: writers_inv_def cw_Write_def intro!: status_ok_WriteHeader split: if_splits)
  with writes show ?case by (auto simp: writers_inv_def)
next
  case (hijacks s i w err supported w' m e)
  then have "status_ok w" by (auto simp: writers_inv_def)
  with hijacks(3) have "status_ok w'" by (auto simp: Hijack_def status_ok_def split: if_splits option.splits)
  with hijacks show ?case by (auto simp: writers_inv_def)
qed (auto simp: writers_inv_def split: if_splits)

section \<open>Properties\<close>

text \<open>C24: through any interleaving of requests, upgrades, panics and returns, the in-flight gauge is
  the number of requests being handled and the websocket gauge the number of those whose connection
  was taken over, so both return to zero; every request that returned is counted once, under its
  method and status, and its duration observed once unless its connection was taken over; and the
  status is the first one written, which is the only one forwarded.\<close>

theorem middleware_balanced:
  assumes "mw_reachable s"
  shows "mm_inFlight (mw_coll s) = int (card (dom (map_of (mw_open s)))) \<and>
         mm_wsOpen (mw_coll s) = int (card {i. \<exists>w. map_of (mw_open s) i = Some w \<and> cw_hijacked w}) \<and>
         counts_inv s \<and> writers_inv s"
proof -
  have inv: "gauges_inv s \<and> counts_inv s \<and> writers_inv s"
    using assms
  proof (induction rule: mw_reachable.induct)
    case mw_start
    then show ?case
      by (simp add: mw_init_def gauges_inv_def counts_inv_def writers_inv_def ended_count_def)
  next
    case (mw_more s s')
    then show ?case using gauges_inv_step counts_inv_step writers_inv_step by blast
  qed
  then have "distinct (map fst (mw_open s))" by (simp add: gauges_inv_def)
  note card = tally_card [OF this]
  have "{i. \<exists>w. map_of (mw_open s) i = Some w \<and> True} = dom (map_of (mw_open s))" by auto
  with inv show ?thesis by (simp add: gauges_inv_def card)
qed

text \<open>One request that is upgraded and still open.\<close>

definition demo_upgraded :: mw_state where
  "demo_upgraded =
     (let s = mw_init;
          (w, m) = mw_begin ''GET'' False (mw_coll s);
          s1 = s\<lparr>mw_open := m_put 0 w (mw_open s), mw_coll := m\<rparr>;
          ((w', m'), e) = Hijack True None (w, mw_coll s1)
      in s1\<lparr>mw_open := m_put 0 w' (mw_open s1), mw_coll := m'\<rparr>)"

lemma demo_upgraded_reachable: "mw_reachable demo_upgraded"
proof -
  obtain w m where b: "mw_begin ''GET'' False (mw_coll mw_init) = (w, m)" by fastforce
  let ?s = "mw_init\<lparr>mw_open := m_put 0 w (mw_open mw_init), mw_coll := m\<rparr>"
  have "mw_reachable ?s"
    by (rule mw_more [OF mw_start begins [OF _ b]]) (simp add: mw_init_def)
  moreover obtain w' m' e where h: "Hijack True None (w, mw_coll ?s) = ((w', m'), e)" by (metis prod.exhaust)
  have "mw_step ?s (?s\<lparr>mw_open := m_put 0 w' (mw_open ?s), mw_coll := m'\<rparr>)"
    by (rule hijacks [OF _ _ h]) (use b in \<open>auto simp: mw_init_def mw_begin_def\<close>)
  ultimately have "mw_reachable (?s\<lparr>mw_open := m_put 0 w' (mw_open ?s), mw_coll := m'\<rparr>)" by (rule mw_more)
  then show ?thesis using b h by (simp add: demo_upgraded_def)
qed

theorem middleware_balanced_witness:
  "mm_wsOpen (mw_coll demo_upgraded) = int (card {i. \<exists>w. map_of (mw_open demo_upgraded) i = Some w \<and> cw_hijacked w})"
  using middleware_balanced [OF demo_upgraded_reachable] by (simp only: simp_thms)

end
