(* ===== verification/Metrics.thy ===== *)
theory Metrics
  imports Transport Middleware
begin

text \<open>
  The collectors of \<^verbatim>\<open>metrics.New\<close> and the series the program names (\<^verbatim>\<open>metrics/metrics.go\<close>,
  \<^verbatim>\<open>proxy/manager.go\<close>): that the label values fit the labels, and that the reasons of the error counter
  are those documented. The Prometheus library is left out.
\<close>

section \<open>The collectors\<close>

datatype metric_kind = CounterVec | HistogramVec | GaugeVec | PlainGauge

record metric_opts =
  mo_kind :: metric_kind
  mo_name :: string
  mo_labels :: "string list"

definition buildInfo :: metric_opts where
  "buildInfo =
     \<lparr>mo_kind = PlainGauge, mo_name = ''tsserve_build_info'', mo_labels = [''version'', ''revision'', ''go_version'']\<rparr>"

text \<open>What \<^verbatim>\<open>New\<close> registers of its own, beside the collectors of the Go runtime and the process.\<close>

definition metrics_New :: "metric_opts list" where
  "metrics_New =
     [\<lparr>mo_kind = CounterVec, mo_name = ''tsserve_proxy_requests_total'', mo_labels = [''service'', ''method'', ''code'']\<rparr>,
      \<lparr>mo_kind = HistogramVec, mo_name = ''tsserve_proxy_request_duration_seconds'', mo_labels = [''service'', ''method'']\<rparr>,
      \<lparr>mo_kind = CounterVec, mo_name = ''tsserve_proxy_request_bytes_total'', mo_labels = [''service'']\<rparr>,
      \<lparr>mo_kind = CounterVec, mo_name = ''tsserve_proxy_response_bytes_total'', mo_labels = [''service'']\<rparr>,
      \<lparr>mo_kind = GaugeVec, mo_name = ''tsserve_proxy_in_flight_requests'', mo_labels = [''service'']\<rparr>,
      \<lparr>mo_kind = GaugeVec, mo_name = ''tsserve_proxy_open_websockets'', mo_labels = [''service'']\<rparr>,
      \<lparr>mo_kind = CounterVec, mo_name = ''tsserve_proxy_backend_errors_total'', mo_labels = [''service'', ''reason'']\<rparr>,
      \<lparr>mo_kind = PlainGauge, mo_name = ''tsserve_services_active'', mo_labels = []\<rparr>,
      \<lparr>mo_kind = GaugeVec, mo_name = ''tsserve_service_backends'', mo_labels = [''service'']\<rparr>,
      buildInfo]"

text \<open>The reasons that the help text of the error counter lists.\<close>

definition error_reasons :: "string list" where
  "error_reasons =
     [''timeout'', ''connection-refused'', ''dns'', ''eof'', ''no-backend'', ''function-error'', ''throttled'', ''other'']"

section \<open>The series\<close>

text \<open>The label values with which the code names a series: the middleware when it is made and at the end
  of a request, the manager for its gauges, and the error counter with the service curried.\<close>

type_synonym series = "string \<times> string list"

definition middleware_series :: "string \<Rightarrow> series list" where
  "middleware_series service =
     [(''tsserve_proxy_request_bytes_total'', [service]), (''tsserve_proxy_response_bytes_total'', [service]),
      (''tsserve_proxy_in_flight_requests'', [service]), (''tsserve_proxy_open_websockets'', [service])]"

definition request_series :: "string \<Rightarrow> countingWriter \<Rightarrow> series list" where
  "request_series service w =
     (if \<not> cw_hijacked w then [(''tsserve_proxy_request_duration_seconds'', [service, cw_method w])] else []) @
     [(''tsserve_proxy_requests_total'', [service, cw_method w, show_int (cw_status w)])]"

definition error_series :: "string \<Rightarrow> string \<Rightarrow> series" where
  "error_series service reason = (''tsserve_proxy_backend_errors_total'', [service] @ [reason])"

definition backends_series :: "string \<Rightarrow> series" where
  "backends_series service = (''tsserve_service_backends'', [service])"

text \<open>A series is declared when there is one collector of that name, with as many labels.\<close>

definition declared :: "series \<Rightarrow> bool" where
  "declared s \<longleftrightarrow>
     (case filter (\<lambda>d. mo_name d = fst s) metrics_New of
        [d] \<Rightarrow> length (mo_labels d) = length (snd s) \<and> mo_kind d \<noteq> PlainGauge
      | _ \<Rightarrow> False)"

definition name_ok :: "string \<Rightarrow> bool" where
  "name_ok s \<longleftrightarrow> s \<noteq> [] \<and> list_all (\<lambda>c. CHR ''a'' \<le> c \<and> c \<le> CHR ''z'' \<or> c = CHR ''_'') s"

section \<open>Lemmas\<close>

lemma names_distinct: "distinct (map mo_name metrics_New)"
  by (simp add: metrics_New_def buildInfo_def)

lemma names_ok: "list_all (\<lambda>d. name_ok (mo_name d) \<and> list_all name_ok (mo_labels d) \<and> distinct (mo_labels d)) metrics_New"
  by code_simp

lemma series_declared:
  "list_all declared (middleware_series service)" "list_all declared (request_series service w)"
  "declared (error_series service reason)" "declared (backends_series service)"
  by (simp_all add: declared_def metrics_New_def buildInfo_def middleware_series_def request_series_def
      error_series_def backends_series_def)

lemma classify_documented: "classifyProxyError quote err \<in> set error_reasons"
  using classify_reasons [of quote err] by (auto simp: error_reasons_def)

lemma try_members_documented:
  assumes "try_members env scheme req ms start js lastErr w = Some (w', reply)"
    and "set (wk_reasons w) \<subseteq> set error_reasons"
  shows "set (wk_reasons w') \<subseteq> set error_reasons"
  using assms
proof (induction js arbitrary: lastErr w)
  case (Cons i js)
  let ?b = "ms ! ((start + i) mod length ms)"
  from Cons.prems(1) obtain out where out: "perform env i ?b (attempt_request scheme ?b req) = Some out"
    by (auto simp: Let_def split: option.splits)
  show ?case
  proof (cases out)
    case (Inr resp)
    with Cons.prems out show ?thesis by (auto simp: Let_def)
  next
    case (Inl err)
    let ?w = "w\<lparr>wk_attempts := wk_attempts w @ [(?b, attempt_request scheme ?b req, Inl err)],
       wk_reasons := (if te_counts env then wk_reasons w @ [classifyProxyError (te_quote env) (Some err)] else wk_reasons w)\<rparr>"
    have w: "set (wk_reasons ?w) \<subseteq> set error_reasons"
      using Cons.prems(2) classify_documented [of "te_quote env" "Some err"] by simp
    show ?thesis
    proof (cases "rq_body req \<noteq> None \<or> \<not> isConnectError err \<or> te_ctxDone env i")
      case True
      with Cons.prems(1) out Inl have "w' = ?w" by (auto simp: Let_def)
      with w show ?thesis by simp
    next
      case False
      with Cons.prems(1) out Inl have
        "try_members env scheme req ms start js (Some (AttemptError err)) ?w = Some (w', reply)" by (auto simp: Let_def)
      from Cons.IH [OF this w] show ?thesis .
    qed
  qed
qed auto

lemma handler_documented: "set (fst (ErrorHandler env e)) \<subseteq> set error_reasons"
  using classify_documented by (auto simp: ErrorHandler_def)

lemma RoundTrip_documented:
  "pool_RoundTrip env scheme req p = (p', Some (w, reply)) \<Longrightarrow> set (wk_reasons w) \<subseteq> set error_reasons"
  by (auto simp: pool_RoundTrip_def split: prod.splits if_splits
      dest: try_members_documented [where w = "\<lparr>wk_attempts = [], wk_reasons = []\<rparr>"])

lemma proxy_serve_documented:
  assumes "snd (proxy_serve rp env scheme req p) = Some (w, counted, reply)"
  shows "set counted \<subseteq> set error_reasons"
proof (cases "rp_refuses rp req")
  case (Some e)
  with assms have "counted = fst (ErrorHandler env e)" by (auto simp: proxy_serve_def split: prod.splits)
  with handler_documented show ?thesis by simp
next
  case fine: None
  then obtain p' resp err where run: "pool_RoundTrip env scheme req p = (p', Some (w, resp, err))"
    using assms by (auto simp: proxy_serve_def Let_def split: option.splits prod.splits)
  note w = RoundTrip_documented [OF run]
  consider "counted = wk_reasons w" | e where "counted = wk_reasons w @ fst (ErrorHandler env e)"
    using assms fine run
    by (cases resp; cases err) (auto simp: proxy_serve_def Let_def case_prod_unfold split: option.splits)
  then show ?thesis by cases (use w handler_documented in auto)
qed

section \<open>Properties\<close>

text \<open>C33: the collectors fit their uses. Their names and labels are distinct and of a form Prometheus accepts,
  so registering them does not panic; the middleware, the manager and the error counter name series
  with as many label values as were declared, so no access panics; and whatever a request meets, it is
  counted only under reasons that the help text of the error counter lists.\<close>

theorem metrics_well_labelled:
  assumes "snd (proxy_serve rp env scheme req p) = Some (w, counted, reply)"
  shows "distinct (map mo_name metrics_New) \<and>
    list_all (\<lambda>d. name_ok (mo_name d) \<and> list_all name_ok (mo_labels d) \<and> distinct (mo_labels d)) metrics_New \<and>
    list_all declared (middleware_series service @ request_series service cw @ [backends_series service]) \<and>
    list_all (\<lambda>reason. declared (error_series service reason) \<and> reason \<in> set error_reasons) counted"
  using proxy_serve_documented [OF assms] names_distinct names_ok series_declared by (auto simp: list_all_iff)

theorem metrics_well_labelled_witness:
  "\<exists>w counted reply. snd (proxy_serve upgrade_proxy upgrade_env ''http'' (demo_request None) demo_pool) = Some (w, counted, reply) \<and>
     list_all (\<lambda>reason. declared (error_series ''svc:web'' reason) \<and> reason \<in> set error_reasons) counted"
proof -
  obtain w counted reply where
    run: "snd (proxy_serve upgrade_proxy upgrade_env ''http'' (demo_request None) demo_pool) = Some (w, counted, reply)"
    using upgrade_run by auto
  with metrics_well_labelled [OF run] show ?thesis by blast
qed

end
