(* ===== verification/Spec2Isabelle.thy ===== *)
theory Spec2Isabelle
  imports Manager_Serving Manager_Refinement Manager_Race Serve_Config Manager_Outage Discovery Program Metrics
begin

text \<open>
  A verification development for \<^emph>\<open>tsserve\<close>, a daemon that discovers labelled containers (Docker, ECS)
  and tagged functions (AWS Lambda) and exposes them as Tailscale services.

  \<^bold>\<open>The program and its parts.\<close> A discovery watcher polls or is told of backends and calls a registrar
  with a key, a service definition and an address. The registrar adapter of \<^verbatim>\<open>main.go\<close> hands this to the
  service manager (\<^verbatim>\<open>proxy/manager.go\<close>), which keeps one listener per service name and, behind it, a pool
  of backends (\<^verbatim>\<open>proxy/pool.go\<close>). A request to the listener is rewritten and sent to a member of the
  pool (\<^verbatim>\<open>proxy/reverseproxy.go\<close>), over HTTP or as the invocation of a function (\<^verbatim>\<open>proxy/invoker.go\<close>), and
  accounted for (\<^verbatim>\<open>metrics/metrics.go\<close>). The readers of ECS and Lambda report to a registry
  (\<^verbatim>\<open>ecs/registry.go\<close>), which the status page (\<^verbatim>\<open>local\<close>) shows beside the manager's services. Apart from
  this, the certificates of the tailnet node are mirrored to S3 (\<^verbatim>\<open>certsync\<close>).

  \<^bold>\<open>Theories and sources.\<close> File names are relative to \<^verbatim>\<open>src/\<close>.

  \<^item> \<open>Prelude\<close>: Go strings, maps and decimal numbers, with the lemmas the components share.
  \<^item> \<open>Labels\<close> (\<^verbatim>\<open>labels/labels.go\<close>): the label parser. What it accepts is well-formed, and the labels of a
    well-formed definition parse to it.
  \<^item> \<open>Pool\<close> (\<^verbatim>\<open>proxy/pool.go\<close>): members and the 64-bit round-robin position; fairness until it wraps.
  \<^item> \<open>Manager\<close> (\<^verbatim>\<open>proxy/manager.go\<close>): the state and, as functions, every critical section under the
    manager's mutex and every operation run by one caller. Records of advertised services live in a
    store, since goroutines share them by pointer; the channels are Booleans (closed or not).
    \<open>Manager_Steps\<close>: any number of goroutines calling \<^verbatim>\<open>Register\<close>, \<^verbatim>\<open>Deregister\<close> and \<^verbatim>\<open>Close\<close>, with the program
    points between critical sections, as an inductive step relation; \<^verbatim>\<open>tsnet\<close>'s listeners are part of
    the state. \<open>Manager_Invariant\<close>, \<open>Manager_Ownership\<close>, \<open>Manager_Gauges\<close>: the invariants, proved step by
    step. \<open>Manager_Properties\<close>: what they give for every reachable state. \<open>Manager_Sequential\<close>: the
    contract of the operations with nothing else in flight, over the abstract map from keys to
    backends. The step relation has a flag, \<open>disc\<close>: if it is set, no two operations on one key run at the
    same time. The manager does not enforce this; each reader makes its calls from one goroutine, so it
    holds unless two readers find the same keys, which \<^verbatim>\<open>main.go\<close> only warns about. One listener per name,
    the absence of panics and lost wake-ups, shutdown and the gauges do not depend on it; that keys and
    pool members agree, the refinement, the reach of a request and the status page do.
    \<open>Manager_Refinement\<close>: under \<open>disc\<close> the concurrent system refines that map; every step of a goroutine is
    a single atomic insertion, removal or clearing of it, or leaves it alone. \<open>Manager_Race\<close>: without
    \<open>disc\<close>, the schedule of two concurrent registrations of one key for two services, after which the
    backend is in both pools, registered for one, and no call removes it from the other. \<open>Serve_Config\<close>: the lock around the calls that edit the node's serve config, as a step
    relation with the reading and the guarded writing of the config apart: no call meets an ETag
    mismatch, and every waiting one can be brought to its end. \<open>Manager_Outage\<close>: the goroutines that serve
    the listeners, one of which may fail by itself; a run with failures is simulated by one without, so
    the failure of one service does not disturb the others, and the failed one stays down, though
    advertised, until its last backend leaves.
  \<^item> \<open>Registrar\<close> (\<^verbatim>\<open>main.go\<close>, and the bookkeeping the watchers share): the adapter, the active and failed
    maps, and the interface between discovery and manager, stated as a locale (\<open>registrar\<close>) with the laws
    a watcher relies on and interpreted on the adapter for containers and for functions.
  \<^item> \<open>Docker_Watcher\<close> (\<^verbatim>\<open>docker/watcher.go\<close>), \<open>Ecs_Resolve\<close> and \<open>Ecs_Watcher\<close> (\<^verbatim>\<open>ecs/cache.go\<close>,
    \<^verbatim>\<open>ecs/resolve.go\<close>, \<^verbatim>\<open>ecs/watcher.go\<close>), \<open>Lambda_Watcher\<close> (\<^verbatim>\<open>lambda/watcher.go\<close>): the watchers. Whatever the
    APIs answer, a watcher's book agrees with what the manager has registered, and a completed sweep
    or cycle leaves registered what it saw and nothing else. \<open>Discovery\<close>: several readers on one manager.
    Before each call of a reader any calls of the others may have run, as long as they are not on the
    reader's own keys; its book still agrees with the manager on these, through its whole run.
  \<^item> \<open>Poll_Loop\<close> (the loop of the ECS watcher; that of the Lambda watcher is modelled by itself and shown
    to be the same), \<open>Registry\<close> (\<^verbatim>\<open>ecs/registry.go\<close>), \<open>Accounts\<close>
    (\<^verbatim>\<open>ecs/account.go\<close>, \<^verbatim>\<open>lambda/account.go\<close>): pacing, reports, and the planning of readers.
  \<^item> \<open>Http\<close>: header maps, requests, errors with what they wrap, and their classification. \<open>Json\<close>:
    what \<^verbatim>\<open>json.Marshal\<close> writes, with its escapes and its reading of UTF-8, and the round trip of strings.
    \<open>Invoker\<close> (\<^verbatim>\<open>proxy/invoker.go\<close>): requests as function events, down to the payload, and results as
    responses, with base64 and query strings. A body within the limit is delivered exactly, as text if
    it is UTF-8; only in base64 is its size in the payload bounded by Lambda's limit. \<open>Transport\<close> (\<^verbatim>\<open>proxy/reverseproxy.go\<close>): the headers a request leaves with, dialling, the
    walk over the pool as the equivalent of a reference walk, that a request is never run twice, and that
    every error is counted once, those of the reverse proxy itself included.
  \<^item> \<open>Manager_Serving\<close>: the manager, the registrations discovery makes and the transport together. A request
    to a service is attempted at backends registered for that service, and the transport of a service
    of functions, which has no connections of its own, is never asked to open one.
  \<^item> \<open>Middleware\<close> (\<^verbatim>\<open>metrics/metrics.go\<close>): the accounting of concurrent requests as a step relation, with
    the balance of its gauges and counters. \<open>Metrics\<close>: the collectors of \<^verbatim>\<open>metrics.New\<close>, and that every use
    of one in the program gives it the labels it was declared with.
  \<^item> \<open>Certsync\<close> (\<^verbatim>\<open>certsync/certsync.go\<close>): restoring, sweeping and the debounced loop; certificates
    survive a restart, and the final sweep misses none.
  \<^item> \<open>Status\<close> (\<^verbatim>\<open>local/status.go\<close>, \<^verbatim>\<open>local/server.go\<close>, \<^verbatim>\<open>local/traefik.go\<close>): the data of the status page, the
    routes and the lifetime of the listeners.
  \<^item> \<open>Startup\<close> (\<^verbatim>\<open>main.go\<close>): the environment, the building of the readers, each independent of the
    others, and the fan-in of the discovery modes. \<open>Program\<close> (\<^verbatim>\<open>main.go\<close>): \<^verbatim>\<open>run\<close> composed of the components,
    as the list of its effects; whatever step fails, what was started is undone, the last first.

  \<^bold>\<open>How the model is made.\<close> State is passed explicitly; a raise or early return is a branch of a sum or
  option. Code outside the repository (the Docker, AWS and Tailscale clients, the file system, the
  clock, and the JSON decoders and the duration and media type parsers) is an argument, so every theorem holds for whatever it
  answers, unless a hypothesis names documented behaviour. Words have their width: ports 16 bits, ECS
  port numbers 32, the round-robin position and the poll counter 64. Lists of members and records are
  assumed shorter than \<open>2 ^ 64\<close> where the position is taken modulo their length.

  \<^bold>\<open>Loops.\<close> Paging through a remote listing may never end: \<open>list_pages\<close> and \<open>hydrate_pages\<close> are option-valued
  partial functions, where not ending is \<open>None\<close>, and they are shown to return exactly the concatenated
  pages when the chain of tokens ends. A registration that finds its
  service in transition blocks: run by one caller it is \<open>None\<close>, and the sequential contract shows that
  with nothing else in flight it always returns; in the concurrent model waiting is a program point,
  and no waiter is ever stranded. The event loops take the list of
  events they receive, and the theorems hold for every list. All other recursion is total.

  \<^bold>\<open>Across components.\<close> This theory relates the status page to the manager's registrations.

  \<^bold>\<open>Not modelled.\<close> Logging, except for which failures are logged at warning level. The inside of the
  Prometheus registry and the buckets of its histogram, of \<^verbatim>\<open>tsnet\<close> and of the loggers. The HTML template
  of the status page is an argument. The idle connections that tearing a service down releases.
  The inside of \<^verbatim>\<open>httputil.ReverseProxy\<close>, \<^verbatim>\<open>http.Server\<close> and \<^verbatim>\<open>http.Transport\<close>, of which the order of the calls
  into this program is modelled; the errors the reverse proxy finds itself, with a request or with the
  upgrade after a 101, are arguments. The error of closing a listener, which is only logged. Writers of
  the node's serve config outside the program; that \<^verbatim>\<open>tsnet\<close> reads the config and writes it guarded by its
  ETag is taken from the comment in \<^verbatim>\<open>manager.go\<close>. A certificate directory that changes during a sweep. Byte counters are integers, not floating-point numbers. The
  tests of the repository.
\<close>

section \<open>The status page and the manager\<close>

lemma rowsFor_names: "map sr_service (rowsFor now views) = map sv_service views"
  by (simp add: rowsFor_def comp_def)

lemma row_of_service:
  assumes "reach True s" and inv: "sys_inv st s" and v: "row \<in> set (rowsFor now (Snapshot (mgr s)))"
  shows "length (sr_backends row) = card {k. map_of (m_byKey (mgr s)) k = Some (sr_service row)}"
proof -
  obtain v where v: "v \<in> set (Snapshot (mgr s))" "sr_service row = sv_service v"
    "sr_backends row = map (backend_row now (sv_scheme v)) (sv_backends v)"
    using v by (auto simp: rowsFor_def)
  have "length (sv_backends v) = card (bv_key ` set (sv_backends v))"
    using distinct_card [OF view_of_service(1) [OF assms(1,2) v(1)]] by simp
  then show "length (sr_backends row) = card {k. map_of (m_byKey (mgr s)) k = Some (sr_service row)}"
    unfolding v(2,3) view_of_service(2) [OF assms(1,2) v(1)] by simp
qed

text \<open>C34: the status page tells what is registered. In every state reached with no two operations on one key
  at the same time, its services are listed in strictly increasing order of their names, they are exactly
  the services some key is registered for, and each has as many backend rows as it has keys. (After the
  schedule of \<open>Manager_Race\<close> it lists a service no key is registered for.)\<close>

theorem status_page_exact:
  assumes "reach True s"
  shows "sorted_wrt (<) (map sr_service (sd_services (status_data format srv build now lc (mgr s) readers))) \<and>
    sr_service ` set (sd_services (status_data format srv build now lc (mgr s) readers)) = ran (map_of (m_byKey (mgr s))) \<and>
    (\<forall>row\<in>set (sd_services (status_data format srv build now lc (mgr s) readers)).
       length (sr_backends row) = card {k. map_of (m_byKey (mgr s)) k = Some (sr_service row)})"
    (is "sorted_wrt _ (map _ ?rows) \<and> _ = ?names \<and> _")
proof -
  obtain st where inv: "sys_inv st s" using reach_inv [OF assms] ..
  have rows: "?rows = rowsFor now (Snapshot (mgr s))" by (simp add: status_data_def Let_def)
  have "sr_service ` set ?rows = sv_service ` set (Snapshot (mgr s))"
    unfolding rows by (simp only: set_map [symmetric] rowsFor_names)
  moreover have "n \<in> sv_service ` set (Snapshot (mgr s)) \<longleftrightarrow> n \<in> ?names" for n
  proof -
    have "n \<in> sv_service ` set (Snapshot (mgr s)) \<longleftrightarrow>
        (\<exists>k. (n, k) \<in> {(sv_service v, bv_key b) |v b. v \<in> set (Snapshot (mgr s)) \<and> b \<in> set (sv_backends v)})"
      using Snapshot_backends [OF inv] by (fastforce simp: neq_Nil_conv)
    then show ?thesis unfolding Snapshot_keys [OF assms inv] by (simp add: ran_def)
  qed
  moreover have "sorted (map sv_service (Snapshot (mgr s)))" by (simp add: Snapshot_def)
  ultimately show ?thesis
    unfolding rows rowsFor_names
    using row_of_service(1) [OF assms inv] Snapshot_distinct [OF inv]
    by (simp add: strict_sorted_iff set_eq_iff)
qed

theorem status_page_exact_witness:
  "sr_service ` set (sd_services (status_data (\<lambda>_. ''now'')
       \<lparr>ls_traefikPort = 0, ls_metricsAddr = [], ls_discoveryMode = ''docker'', ls_started = 0\<rparr>
       ([], [], []) 5 None demo_mgr None)) = {''svc:web''}"
proof -
  have "ran (map_of (m_byKey demo_mgr)) = {''svc:web''}" by (simp add: demo_mgr_def)
  then show ?thesis using status_page_exact [OF demo_run(2)] by simp
qed
end
